(* ===== verification/Prelude.thy ===== *)
theory Prelude
  imports Main "HOL-Library.List_Lexorder" "HOL-Library.Char_ord" "HOL-Library.Product_Lexorder"
begin

text \<open>
  Shared vocabulary of the development: the fixed-width integer operations of Rust that the
  code uses (casts, saturating and wrapping arithmetic), the result type of fallible
  operations, the two "pick the best element" loops, the row-level reading of SQL
  \<open>UPDATE\<close>/\<open>DELETE\<close>/\<open>SELECT\<close> over a table kept as a list of rows, and the generic lemmas on
  them.  String order is the byte order SQLite's \<open>BINARY\<close> collation and Rust's \<open>str\<close> use.
\<close>

named_theorems machine_int_simps \<open>definitions of the fixed-width integer operations\<close>
named_theorems row_simps \<open>row-level SQL operations\<close>

subsection \<open>Results\<close>

text \<open>A \<open>Result<T, E>\<close>: \<open>Inl\<close> is the error, \<open>Inr\<close> the value.\<close>

type_synonym ('e, 'a) res = "'e + 'a"

definition is_ok :: "('e, 'a) res \<Rightarrow> bool" where
  "is_ok r = (case r of Inl _ \<Rightarrow> False | Inr _ \<Rightarrow> True)"

text \<open>The \<open>?\<close> operator: the error returns early, the value is passed on.\<close>

definition and_then :: "('e, 'a) res \<Rightarrow> ('a \<Rightarrow> ('e, 'b) res) \<Rightarrow> ('e, 'b) res" where
  "and_then r k = (case r of Inl e \<Rightarrow> Inl e | Inr x \<Rightarrow> k x)"

subsection \<open>Fixed-width integers\<close>

text \<open>
  Unsigned values are \<open>nat\<close>, signed values are \<open>int\<close>; the width appears where a cast or an
  operation can leave it.  Arithmetic that is neither \<open>checked_\<close> nor \<open>saturating_\<close> wraps, as
  in a release build.
\<close>

definition i64_min :: int where "i64_min = - (2 ^ 63)"
definition i64_max :: int where "i64_max = 2 ^ 63 - 1"
definition u32_max :: nat where "u32_max = 2 ^ 32 - 1"

definition clamp_i64 :: "int \<Rightarrow> int" where
  "clamp_i64 x = max i64_min (min i64_max x)"

definition wrap_i64 :: "int \<Rightarrow> int" where
  "wrap_i64 x = (x + 2 ^ 63) mod 2 ^ 64 - 2 ^ 63"

definition wrap_u32 :: "nat \<Rightarrow> nat" where
  "wrap_u32 n = n mod 2 ^ 32"

definition wrap_u64 :: "nat \<Rightarrow> nat" where
  "wrap_u64 n = n mod 2 ^ 64"

text \<open>\<open>x as i64\<close> for an unsigned \<open>x\<close>, and \<open>x as u64\<close>, \<open>x as u32\<close> for a signed \<open>x\<close>.\<close>

definition as_i64 :: "nat \<Rightarrow> int" where
  "as_i64 n = wrap_i64 (int n)"

definition as_u64 :: "int \<Rightarrow> nat" where
  "as_u64 x = nat (x mod 2 ^ 64)"

definition as_u32 :: "int \<Rightarrow> nat" where
  "as_u32 x = nat (x mod 2 ^ 32)"

definition sat_sub_i64 :: "int \<Rightarrow> int \<Rightarrow> int" where
  "sat_sub_i64 x y = clamp_i64 (x - y)"

definition sat_mul_i64 :: "int \<Rightarrow> int \<Rightarrow> int" where
  "sat_mul_i64 x y = clamp_i64 (x * y)"

definition checked_add_u32 :: "nat \<Rightarrow> nat \<Rightarrow> nat option" where
  "checked_add_u32 x y = (if x + y \<le> u32_max then Some (x + y) else None)"

text \<open>\<open>a / b\<close> on \<open>i64\<close> rounds towards zero.\<close>

definition trunc_div :: "int \<Rightarrow> int \<Rightarrow> int" where
  "trunc_div a b = sgn a * sgn b * (\<bar>a\<bar> div \<bar>b\<bar>)"

text \<open>\<open>u32::trailing_zeros\<close> and \<open>u32::is_power_of_two\<close>.\<close>

fun trailing_zeros :: "nat \<Rightarrow> nat" where
  "trailing_zeros n = (if n = 0 then 32 else if odd n then 0 else Suc (trailing_zeros (n div 2)))"

declare trailing_zeros.simps [simp del]

definition is_power_of_two :: "nat \<Rightarrow> bool" where
  "is_power_of_two n \<longleftrightarrow> n \<noteq> 0 \<and> n = 2 ^ trailing_zeros n"

text \<open>A loop over a list whose body may fail.\<close>

fun fold_res :: "('a \<Rightarrow> 's \<Rightarrow> ('e, 's) res) \<Rightarrow> 'a list \<Rightarrow> 's \<Rightarrow> ('e, 's) res" where
  "fold_res f [] s = Inr s"
| "fold_res f (x # xs) s = (case f x s of Inl e \<Rightarrow> Inl e | Inr s' \<Rightarrow> fold_res f xs s')"

text \<open>Decimal rendering of a natural number (\<open>Display\<close> of an unsigned integer), and its value.\<close>

fun show_nat :: "nat \<Rightarrow> string" where
  "show_nat n = (if n < 10 then [char_of (48 + n)] else show_nat (n div 10) @ [char_of (48 + n mod 10)])"

declare show_nat.simps [simp del]

definition is_digit :: "char \<Rightarrow> bool" where
  "is_digit c \<longleftrightarrow> 48 \<le> (of_char c :: nat) \<and> (of_char c :: nat) \<le> 57"

definition digits_val :: "string \<Rightarrow> nat" where
  "digits_val s = foldl (\<lambda>a c. 10 * a + (of_char c - 48)) 0 s"

lemmas machine_int_defs [machine_int_simps] =
  i64_min_def i64_max_def u32_max_def clamp_i64_def wrap_i64_def wrap_u32_def wrap_u64_def
  as_i64_def as_u32_def as_u64_def sat_sub_i64_def sat_mul_i64_def checked_add_u32_def trunc_div_def

subsection \<open>Best element of a list\<close>

text \<open>
  \<open>pick_first\<close> is the loop that replaces the best candidate only on a strictly greater score,
  so the first maximum wins; \<open>pick_last\<close> is \<open>Iterator::max_by\<close>, which keeps the later of two
  equal elements, so the last maximum wins.
\<close>

definition pick_first_step :: "('a \<Rightarrow> 'k::linorder) \<Rightarrow> 'a \<Rightarrow> 'a option \<Rightarrow> 'a option" where
  "pick_first_step key x b = (case b of None \<Rightarrow> Some x | Some y \<Rightarrow> if key y < key x then Some x else b)"

definition pick_first :: "('a \<Rightarrow> 'k::linorder) \<Rightarrow> 'a list \<Rightarrow> 'a option" where
  "pick_first key xs = fold (pick_first_step key) xs None"

definition pick_last_step :: "('a \<Rightarrow> 'k::linorder) \<Rightarrow> 'a \<Rightarrow> 'a option \<Rightarrow> 'a option" where
  "pick_last_step key x b = (case b of None \<Rightarrow> Some x | Some y \<Rightarrow> if key x < key y then b else Some x)"

definition pick_last :: "('a \<Rightarrow> 'k::linorder) \<Rightarrow> 'a list \<Rightarrow> 'a option" where
  "pick_last key xs = fold (pick_last_step key) xs None"

subsection \<open>Tables as lists of rows\<close>

definition upd_rows :: "('r \<Rightarrow> bool) \<Rightarrow> ('r \<Rightarrow> 'r) \<Rightarrow> 'r list \<Rightarrow> 'r list" where
  "upd_rows P f rs = map (\<lambda>r. if P r then f r else r) rs"

definition del_rows :: "('r \<Rightarrow> bool) \<Rightarrow> 'r list \<Rightarrow> 'r list" where
  "del_rows P rs = filter (\<lambda>r. \<not> P r) rs"

text \<open>\<open>SELECT DISTINCT\<close> keeps the first of equal values.\<close>

fun dedup :: "'a list \<Rightarrow> 'a list" where
  "dedup [] = []"
| "dedup (x # xs) = x # filter (\<lambda>y. y \<noteq> x) (dedup xs)"

subsection \<open>Lemmas on integers\<close>

lemma wrap_i64_id [simp]: "i64_min \<le> x \<Longrightarrow> x \<le> i64_max \<Longrightarrow> wrap_i64 x = x"
  by (simp add: machine_int_simps)

lemma as_i64_id [simp]: "n < 2 ^ 63 \<Longrightarrow> as_i64 n = int n"
  by (simp add: machine_int_simps)

lemma clamp_i64_id [simp]: "i64_min \<le> x \<Longrightarrow> x \<le> i64_max \<Longrightarrow> clamp_i64 x = x"
  by (simp add: machine_int_simps)

lemma clamp_i64_le: "0 \<le> x \<Longrightarrow> clamp_i64 x \<le> x"
  by (simp add: machine_int_simps)

lemma clamp_i64_nonneg: "0 \<le> x \<Longrightarrow> 0 \<le> clamp_i64 x"
  by (simp add: machine_int_simps max_def min_def)

lemma wrap_u32_id [simp]: "n < 2 ^ 32 \<Longrightarrow> wrap_u32 n = n"
  by (simp add: machine_int_simps)

lemma wrap_u32_le: "wrap_u32 n \<le> n"
  by (simp add: machine_int_simps)

lemma as_u32_le: "0 \<le> x \<Longrightarrow> int (as_u32 x) \<le> x"
  by (simp add: machine_int_simps zmod_le_nonneg_dividend)

lemma trunc_div_nonneg: "0 \<le> a \<Longrightarrow> 0 < b \<Longrightarrow> trunc_div a b = a div b"
  by (cases "a = 0") (auto simp: trunc_div_def)

lemma trunc_div_nonpos: "a \<le> 0 \<Longrightarrow> 0 < b \<Longrightarrow> trunc_div a b \<le> 0"
  by (cases "a = 0") (auto simp: trunc_div_def pos_imp_zdiv_nonneg_iff)

subsection \<open>Lemmas on powers of two and decimal rendering\<close>

lemma trailing_zeros_power [simp]: "trailing_zeros (2 ^ k) = k"
  by (induction k) (simp_all add: trailing_zeros.simps)

lemma is_power_of_two_iff: "is_power_of_two n \<longleftrightarrow> (\<exists>k. n = 2 ^ k)"
  by (auto simp: is_power_of_two_def)

lemma of_char_digit: "n < 10 \<Longrightarrow> of_char (char_of (48 + n) :: char) = (48 + n :: nat)"
  by (simp add: of_char_of)

lemma is_digit_char: "(n::nat) < 10 \<Longrightarrow> is_digit (char_of (48 + n))"
  by (simp only: is_digit_def of_char_digit) simp

lemma show_nat_digits: "list_all is_digit (show_nat n)"
proof (induction n rule: show_nat.induct)
  case (1 n)
  have "is_digit (char_of (48 + n mod 10))" by (rule is_digit_char) simp
  with 1 show ?case by (subst show_nat.simps) (simp add: is_digit_char del: show_nat.simps)
qed

lemma digits_val_show_nat: "digits_val (show_nat n) = n"
proof (induction n rule: show_nat.induct)
  case (1 n)
  show ?case
  proof (cases "n < 10")
    case True
    then show ?thesis by (subst show_nat.simps) (simp add: digits_val_def of_char_digit del: of_char_of)
  next
    case False
    with 1 have "digits_val (show_nat (n div 10)) = n div 10" by simp
    moreover have "of_char (char_of (48 + n mod 10) :: char) = (48 + n mod 10 :: nat)" by (rule of_char_digit) simp
    ultimately show ?thesis using False
      by (subst show_nat.simps) (simp add: digits_val_def del: of_char_of)
  qed
qed

lemma show_nat_inject [simp]: "show_nat m = show_nat n \<longleftrightarrow> m = n"
  by (metis digits_val_show_nat)

lemma show_nat_not_Nil [simp]: "show_nat n \<noteq> []"
  by (subst show_nat.simps) simp

subsection \<open>Lemmas on the best element\<close>

lemma pick_first_step_simps [simp]:
  "pick_first_step key x None = Some x"
  "pick_first_step key x (Some y) = (if key y < key x then Some x else Some y)"
  by (simp_all add: pick_first_step_def)

lemma pick_first_fold:
  "fold (pick_first_step key) xs (Some y) = Some r \<Longrightarrow>
     (r = y \<and> (\<forall>x\<in>set xs. key x \<le> key y)) \<or>
     (\<exists>ys zs. xs = ys @ r # zs \<and> key y < key r \<and>
        (\<forall>a\<in>set ys. key a < key r) \<and> (\<forall>a\<in>set zs. key a \<le> key r))"
proof (induction xs arbitrary: y)
  case Nil
  then show ?case by simp
next
  case (Cons x xs)
  show ?case
  proof (cases "key y < key x")
    case True
    with Cons.prems have "fold (pick_first_step key) xs (Some x) = Some r"
      by simp
    from Cons.IH [OF this] True show ?thesis
      apply (elim disjE exE conjE)
       apply (rule disjI2, rule exI [of _ "[]"], rule exI [of _ xs], simp)
      subgoal for ys zs
        by (rule disjI2, rule exI [of _ "x # ys"], rule exI [of _ zs], auto)
      done
  next
    case False
    with Cons.prems have "fold (pick_first_step key) xs (Some y) = Some r"
      by simp
    from Cons.IH [OF this] False show ?thesis
      apply (elim disjE exE conjE)
       apply (rule disjI1, auto simp: not_less)[1]
      subgoal for ys zs
        by (rule disjI2, rule exI [of _ "x # ys"], rule exI [of _ zs], auto)
      done
  qed
qed

lemma pick_first_Some:
  assumes "pick_first key xs = Some r"
  shows "\<exists>ys zs. xs = ys @ r # zs \<and> (\<forall>a\<in>set ys. key a < key r) \<and> (\<forall>a\<in>set zs. key a \<le> key r)"
proof (cases xs)
  case Nil
  with assms show ?thesis by (simp add: pick_first_def)
next
  case (Cons x xs')
  with assms have f: "fold (pick_first_step key) xs' (Some x) = Some r"
    by (simp add: pick_first_def)
  from pick_first_fold [OF this] show ?thesis
  proof (elim disjE exE conjE)
    assume "r = x" "\<forall>xa\<in>set xs'. key xa \<le> key x"
    with Cons show ?thesis by (intro exI [of _ "[]"] exI [of _ xs']) simp
  next
    fix ys zs
    assume "xs' = ys @ r # zs" "key x < key r" "\<forall>a\<in>set ys. key a < key r" "\<forall>a\<in>set zs. key a \<le> key r"
    with Cons show ?thesis by (intro exI [of _ "x # ys"] exI [of _ zs]) auto
  qed
qed

lemma pick_first_step_not_None: "pick_first_step key x b \<noteq> None"
  by (auto simp: pick_first_step_def split: option.splits)

lemma fold_pick_first_not_None: "b \<noteq> None \<Longrightarrow> fold (pick_first_step key) xs b \<noteq> None"
  by (induction xs arbitrary: b) (simp_all add: pick_first_step_not_None del: not_None_eq)

lemma pick_first_None [simp]: "pick_first key xs = None \<longleftrightarrow> xs = []"
  by (cases xs) (simp_all add: pick_first_def fold_pick_first_not_None pick_first_step_not_None
      del: not_None_eq)

lemma pick_first_mem: "pick_first key xs = Some r \<Longrightarrow> r \<in> set xs"
  by (auto dest: pick_first_Some)

lemma pick_first_ge: "pick_first key xs = Some r \<Longrightarrow> x \<in> set xs \<Longrightarrow> key x \<le> key r"
  by (drule pick_first_Some) (auto simp: less_le)

lemma pick_last_snoc:
  "pick_last key (xs @ [x]) =
     (case pick_last key xs of None \<Rightarrow> Some x | Some y \<Rightarrow> if key x < key y then Some y else Some x)"
  by (simp add: pick_last_def pick_last_step_def split: option.splits)

lemma pick_last_None [simp]: "pick_last key xs = None \<longleftrightarrow> xs = []"
  by (induction xs rule: rev_induct) (simp_all add: pick_last_snoc, simp add: pick_last_def, simp split: option.splits)

lemma pick_last_Nil [simp]: "pick_last key [] = None"
  by simp

lemma pick_last_Some:
  "pick_last key xs = Some r \<Longrightarrow>
     \<exists>ys zs. xs = ys @ r # zs \<and> (\<forall>a\<in>set ys. key a \<le> key r) \<and> (\<forall>a\<in>set zs. key a < key r)"
proof (induction xs arbitrary: r rule: rev_induct)
  case Nil
  then show ?case by (simp add: pick_last_def)
next
  case (snoc x xs)
  show ?case
  proof (cases "pick_last key xs")
    case None
    with snoc.prems have "xs = []" "r = x" by (simp_all add: pick_last_snoc)
    then show ?thesis by (intro exI [of _ "[]"]) simp
  next
    case (Some y)
    from snoc.IH [OF Some] obtain ys zs where
      dec: "xs = ys @ y # zs" "\<forall>a\<in>set ys. key a \<le> key y" "\<forall>a\<in>set zs. key a < key y" by blast
    show ?thesis
    proof (cases "key x < key y")
      case True
      with snoc.prems Some have "r = y" by (simp add: pick_last_snoc)
      with dec True show ?thesis by (intro exI [of _ ys] exI [of _ "zs @ [x]"]) auto
    next
      case False
      with snoc.prems Some have "r = x" by (simp add: pick_last_snoc)
      with dec False show ?thesis by (intro exI [of _ xs] exI [of _ "[]"]) (auto simp: not_less)
    qed
  qed
qed

lemma pick_last_mem: "pick_last key xs = Some r \<Longrightarrow> r \<in> set xs"
  by (auto dest: pick_last_Some)

lemma pick_last_ge: "pick_last key xs = Some r \<Longrightarrow> x \<in> set xs \<Longrightarrow> key x \<le> key r"
  by (drule pick_last_Some) (auto simp: less_le)

subsection \<open>Lemmas on rows\<close>

lemma set_del_rows [simp]: "set (del_rows P rs) = {r \<in> set rs. \<not> P r}"
  by (auto simp: del_rows_def)

lemma in_upd_rows: "r \<in> set (upd_rows P f rs) \<longleftrightarrow> (\<exists>r0\<in>set rs. r = (if P r0 then f r0 else r0))"
  by (auto simp: upd_rows_def)

lemma map_upd_rows_id: "(\<And>r. g (f r) = g r) \<Longrightarrow> map g (upd_rows P f rs) = map g rs"
  by (simp add: upd_rows_def)

lemma distinct_map_filter [simp]: "distinct (map g rs) \<Longrightarrow> distinct (map g (filter P rs))"
  by (induction rs) auto

lemma distinct_del_rows [intro]: "distinct (map g rs) \<Longrightarrow> distinct (map g (del_rows P rs))"
  by (simp add: del_rows_def)

lemma del_rows_del_rows: "del_rows P (del_rows Q rs) = del_rows (\<lambda>r. Q r \<or> P r) rs"
  by (simp add: del_rows_def)

lemma del_upd_rows: "(\<And>r. P r \<Longrightarrow> P (f r)) \<Longrightarrow> del_rows P (upd_rows P f rs) = del_rows P rs"
  by (induction rs) (auto simp: del_rows_def upd_rows_def)

lemma image_upd_rows: "(\<And>r. f (g r) = f r) \<Longrightarrow> f ` set (upd_rows P g rs) = f ` set rs"
  by (simp add: image_set map_upd_rows_id del: set_map flip: set_map)

lemma ball_upd_rows: "(\<forall>r \<in> set (upd_rows P g rs). Q r) \<longleftrightarrow> (\<forall>r \<in> set rs. Q (if P r then g r else r))"
  by (induction rs) (simp_all add: upd_rows_def)

lemma distinct_map_append_iff:
  "distinct (map f (xs @ ys)) \<longleftrightarrow> distinct (map f xs) \<and> distinct (map f ys) \<and> f ` set xs \<inter> f ` set ys = {}"
  by simp

text \<open>Replacing the row with a given key keeps a second key distinct if no other row has its new value.\<close>

lemma distinct_map_upd_row:
  assumes "distinct (map key rs)" "distinct (map f rs)" "\<And>r. r \<in> set rs \<Longrightarrow> key r \<noteq> k \<Longrightarrow> f r \<noteq> f x"
  shows "distinct (map f (upd_rows (\<lambda>r. key r = k) (\<lambda>_. x) rs))"
  using assms
proof (induction rs)
  case Nil
  then show ?case by (simp add: upd_rows_def)
next
  case (Cons r rs)
  show ?case
  proof (cases "key r = k")
    case True
    with Cons.prems(1) have nk: "\<forall>y \<in> set rs. key y \<noteq> k" by (metis distinct.simps(2) image_eqI list.simps(9) set_map)
    then have e: "upd_rows (\<lambda>r. key r = k) (\<lambda>_. x) (r # rs) = x # rs" using True by (simp add: upd_rows_def map_idI)
    have "f x \<notin> f ` set rs" using Cons.prems(3) nk by (metis imageE list.set_intros(2))
    with e Cons.prems(2) show ?thesis by simp
  next
    case False
    have "f ` set (upd_rows (\<lambda>r. key r = k) (\<lambda>_. x) rs) \<subseteq> insert (f x) (f ` set rs)" by (auto simp: upd_rows_def)
    moreover have "f r \<noteq> f x" using Cons.prems(3) False by simp
    moreover have "distinct (map f (upd_rows (\<lambda>r. key r = k) (\<lambda>_. x) rs))" using Cons by simp
    moreover have "upd_rows (\<lambda>r. key r = k) (\<lambda>_. x) (r # rs) = r # upd_rows (\<lambda>r. key r = k) (\<lambda>_. x) rs"
      using False by (simp add: upd_rows_def)
    ultimately show ?thesis using Cons.prems(2) by auto
  qed
qed

lemma set_dedup [simp]: "set (dedup xs) = set xs"
  by (induction xs) auto

lemma distinct_dedup [simp]: "distinct (dedup xs)"
  by (induction xs) auto

lemma distinct_map_eq: "distinct (map f xs) \<Longrightarrow> x \<in> set xs \<Longrightarrow> y \<in> set xs \<Longrightarrow> f x = f y \<Longrightarrow> x = y"
  by (auto simp: distinct_map dest: inj_onD)

lemma list_ex_key: "list_ex (\<lambda>r. f r = k) rs \<longleftrightarrow> k \<in> f ` set rs"
  by (induction rs) auto

lemma find_Some_mem: "find P xs = Some x \<Longrightarrow> x \<in> set xs \<and> P x"
  by (induction xs) (auto split: if_splits)

lemma find_distinct_key:
  assumes "distinct (map f xs)" "x \<in> set xs"
  shows "find (\<lambda>y. f y = f x) xs = Some x"
proof -
  have "find (\<lambda>y. f y = f x) xs \<noteq> None" using assms(2) by (auto simp: find_None_iff)
  then obtain y where y: "find (\<lambda>y. f y = f x) xs = Some y" by auto
  from find_Some_mem [OF this] assms have "y = x" by (auto dest: distinct_map_eq)
  with y show ?thesis by simp
qed

lemma find_map: "find P (map f xs) = map_option f (find (P \<circ> f) xs)"
  by (induction xs) auto

lemma find_upt_least:
  assumes "find P [a..<b] = Some n"
  shows "a \<le> n \<and> n < b \<and> P n \<and> (\<forall>m. a \<le> m \<longrightarrow> m < n \<longrightarrow> \<not> P m)"
proof -
  from assms obtain i where i: "i < length [a..<b]" "P ([a..<b] ! i)" "n = [a..<b] ! i"
    "\<And>j. j < i \<Longrightarrow> \<not> P ([a..<b] ! j)" by (auto simp: find_Some_iff)
  have "\<not> P m" if "a \<le> m" "m < n" for m
    using i(4) [of "m - a"] that i(1,3) by auto
  with i show ?thesis by auto
qed

lemma find_upt_None: "find P [a..<b] = None \<longleftrightarrow> (\<forall>m. a \<le> m \<longrightarrow> m < b \<longrightarrow> \<not> P m)"
  by (auto simp: find_None_iff)

lemma sum_list_filter_split:
  "sum_list (map f (filter P xs)) + sum_list (map f (filter (\<lambda>x. \<not> P x) xs)) = sum_list (map f xs)"
  for f :: "'a \<Rightarrow> int"
  by (induction xs) auto

lemma sum_list_nonneg_int: "(\<And>x. x \<in> set xs \<Longrightarrow> 0 \<le> f x) \<Longrightarrow> 0 \<le> sum_list (map f xs)"
  for f :: "'a \<Rightarrow> int"
  by (induction xs) auto

lemma sum_list_filter_le:
  "(\<And>x. x \<in> set xs \<Longrightarrow> 0 \<le> f x) \<Longrightarrow> sum_list (map f (filter P xs)) \<le> sum_list (map f xs)"
  for f :: "'a \<Rightarrow> int"
  by (induction xs) (auto intro: add_increasing)

subsection \<open>Fallible loops\<close>

lemma and_then_Inr: "and_then r k = Inr y \<longleftrightarrow> (\<exists>x. r = Inr x \<and> k x = Inr y)"
  by (cases r) (simp_all add: and_then_def)

lemma is_ok_simps [simp]: "\<not> is_ok (Inl e)" "is_ok (Inr x)"
  by (simp_all add: is_ok_def)

lemma fold_res_append:
  "fold_res f (xs @ ys) s = (case fold_res f xs s of Inl e \<Rightarrow> Inl e | Inr s' \<Rightarrow> fold_res f ys s')"
  by (induction xs arbitrary: s) (simp_all split: sum.split)

lemma fold_res_invariant:
  assumes "fold_res f xs s = Inr s'" "I s" "\<And>x a b. x \<in> set xs \<Longrightarrow> I a \<Longrightarrow> f x a = Inr b \<Longrightarrow> I b"
  shows "I s'"
  using assms
proof (induction xs arbitrary: s)
  case Nil
  then show ?case by simp
next
  case (Cons x xs)
  then obtain b where b: "f x s = Inr b" "fold_res f xs b = Inr s'" by (auto split: sum.splits)
  have "I b" by (rule Cons.prems(3) [OF _ Cons.prems(2) b(1)]) simp
  with b(2) show ?case
  proof (rule Cons.IH)
    show "I d" if "y \<in> set xs" "I a" "f y a = Inr d" for y a d
      by (rule Cons.prems(3) [OF _ that(2,3)]) (simp add: that(1))
  qed
qed

subsection \<open>State machines\<close>

text \<open>
  The states reachable from the initial ones by the steps of a machine, and the interface
  every state machine of this development provides for its invariant: it holds initially and
  every step keeps it.
\<close>

inductive reach :: "('s \<Rightarrow> bool) \<Rightarrow> ('s \<Rightarrow> 's \<Rightarrow> bool) \<Rightarrow> 's \<Rightarrow> bool"
  for init :: "'s \<Rightarrow> bool" and step :: "'s \<Rightarrow> 's \<Rightarrow> bool" where
  reach_init: "init s \<Longrightarrow> reach init step s"
| reach_step: "reach init step s \<Longrightarrow> step s t \<Longrightarrow> reach init step t"

locale invariant_machine =
  fixes init :: "'s \<Rightarrow> bool"
    and step :: "'s \<Rightarrow> 's \<Rightarrow> bool"
    and inv :: "'s \<Rightarrow> bool"
  assumes init_inv: "init s \<Longrightarrow> inv s"
    and step_inv: "inv s \<Longrightarrow> step s t \<Longrightarrow> inv t"
begin

lemma reach_inv: "reach init step s \<Longrightarrow> inv s"
  by (induction rule: reach.induct) (auto intro: init_inv step_inv)

lemma rtranclp_inv: "step\<^sup>*\<^sup>* s t \<Longrightarrow> inv s \<Longrightarrow> inv t"
  by (induction rule: rtranclp_induct) (auto intro: step_inv)

end

end
