(* ===== verification/Ipv4.thy ===== *)
theory Ipv4
  imports Prelude
begin

text \<open>
  IPv4 addresses and networks.  An address is its host-order \<open>u32\<close>, a network is the
  \<open>address/prefix\<close> pair its text form carries.  The operations on networks come from the
  \<open>ipnet\<close> crate, which is not part of this repository: they are fields of a parameter
  \<open>ipnet\<close> of the definitions that use them, and \<open>ipnet_spec\<close> states the documented behaviour
  the code relies on.  \<open>ipnet_ref\<close> is a concrete instance, used by the witnesses.
\<close>

type_synonym ipv4 = nat

record Ipv4Net =
  net_addr :: ipv4
  net_prefix :: nat

record ipnet =
  network :: "Ipv4Net \<Rightarrow> ipv4"
  broadcast :: "Ipv4Net \<Rightarrow> ipv4"
  contains :: "Ipv4Net \<Rightarrow> ipv4 \<Rightarrow> bool"
  subnets :: "Ipv4Net \<Rightarrow> nat \<Rightarrow> Ipv4Net list option"

text \<open>
  A network's prefix is at most 32 and its address a \<open>u32\<close>; such values are the ones
  \<open>Ipv4Net::new\<close> and the parser return.
\<close>

definition wf_net :: "Ipv4Net \<Rightarrow> bool" where
  "wf_net n \<longleftrightarrow> net_prefix n \<le> 32 \<and> net_addr n < 2 ^ 32"

definition net_size :: "Ipv4Net \<Rightarrow> nat" where
  "net_size n = 2 ^ (32 - net_prefix n)"

text \<open>
  The documented behaviour: the network address is the address with its host bits cleared,
  the broadcast address is the last of the block, \<open>contains\<close> is membership in the block, and
  \<open>subnets p\<close> enumerates the blocks of prefix \<open>p\<close> in ascending order (an error when \<open>p\<close> is
  shorter than the network's own prefix or longer than 32).
\<close>

definition ipnet_spec :: "ipnet \<Rightarrow> bool" where
  "ipnet_spec ip \<longleftrightarrow>
     (\<forall>n. wf_net n \<longrightarrow> network ip n = net_addr n div net_size n * net_size n) \<and>
     (\<forall>n. wf_net n \<longrightarrow> broadcast ip n = network ip n + net_size n - 1) \<and>
     (\<forall>n a. wf_net n \<longrightarrow> contains ip n a \<longleftrightarrow> network ip n \<le> a \<and> a \<le> broadcast ip n) \<and>
     (\<forall>n p. wf_net n \<longrightarrow> subnets ip n p =
        (if net_prefix n \<le> p \<and> p \<le> 32
         then Some (map (\<lambda>i. \<lparr>net_addr = network ip n + i * 2 ^ (32 - p), net_prefix = p\<rparr>)
                        [0 ..< 2 ^ (p - net_prefix n)])
         else None))"

definition ipnet_ref :: ipnet where
  "ipnet_ref = \<lparr>
     network = (\<lambda>n. net_addr n div net_size n * net_size n),
     broadcast = (\<lambda>n. net_addr n div net_size n * net_size n + net_size n - 1),
     contains = (\<lambda>n a. net_addr n div net_size n * net_size n \<le> a \<and>
                       a \<le> net_addr n div net_size n * net_size n + net_size n - 1),
     subnets = (\<lambda>n p. if net_prefix n \<le> p \<and> p \<le> 32
         then Some (map (\<lambda>i. \<lparr>net_addr = net_addr n div net_size n * net_size n + i * 2 ^ (32 - p),
                             net_prefix = p\<rparr>)
                        [0 ..< 2 ^ (p - net_prefix n)])
         else None)\<rparr>"

text \<open>\<open>cidrs_overlap\<close>, which \<open>db.rs\<close> and \<open>config.rs\<close> both have.\<close>

definition cidrs_overlap :: "ipnet \<Rightarrow> Ipv4Net \<Rightarrow> Ipv4Net \<Rightarrow> bool" where
  "cidrs_overlap ip a b \<longleftrightarrow> contains ip a (network ip b) \<or> contains ip b (network ip a)"

text \<open>The addresses of a network.\<close>

definition net_block :: "ipnet \<Rightarrow> Ipv4Net \<Rightarrow> ipv4 set" where
  "net_block ip n = {network ip n .. broadcast ip n}"

subsection \<open>Consequences of the documented behaviour\<close>

lemma ipnet_ref_spec: "ipnet_spec ipnet_ref"
  by (simp add: ipnet_spec_def ipnet_ref_def)

lemma net_size_pos [simp]: "0 < net_size n"
  by (simp add: net_size_def)

lemma network_eq: "ipnet_spec ip \<Longrightarrow> wf_net n \<Longrightarrow> network ip n = net_addr n div net_size n * net_size n"
  by (simp add: ipnet_spec_def)

lemma broadcast_eq: "ipnet_spec ip \<Longrightarrow> wf_net n \<Longrightarrow> broadcast ip n = network ip n + net_size n - 1"
  by (simp add: ipnet_spec_def)

lemma network_le_broadcast: "ipnet_spec ip \<Longrightarrow> wf_net n \<Longrightarrow> network ip n \<le> broadcast ip n"
  using net_size_pos [of n] unfolding broadcast_eq by linarith

lemma contains_iff: "ipnet_spec ip \<Longrightarrow> wf_net n \<Longrightarrow> contains ip n a \<longleftrightarrow> a \<in> net_block ip n"
  by (auto simp: ipnet_spec_def net_block_def)

lemma network_dvd: "ipnet_spec ip \<Longrightarrow> wf_net n \<Longrightarrow> net_size n dvd network ip n"
  by (simp add: ipnet_spec_def)

lemma net_size_dvd_u32: "wf_net n \<Longrightarrow> net_size n dvd 2 ^ 32"
  unfolding wf_net_def net_size_def by (rule le_imp_power_dvd) simp

lemma network_plus_size_le: "ipnet_spec ip \<Longrightarrow> wf_net n \<Longrightarrow> network ip n + net_size n \<le> 2 ^ 32"
proof -
  assume a: "ipnet_spec ip" "wf_net n"
  define s where "s = net_size n"
  have s: "0 < s" "s dvd 2 ^ 32" unfolding s_def using a by (simp, intro net_size_dvd_u32)
  then obtain k where k: "(2::nat) ^ 32 = s * k" by (auto elim: dvdE)
  have "net_addr n < s * k" using a k by (simp add: wf_net_def)
  then have "net_addr n div s < k" using s by (simp add: less_mult_imp_div_less mult.commute)
  then have "(net_addr n div s + 1) * s \<le> k * s" by (intro mult_right_mono) auto
  moreover have "network ip n = net_addr n div s * s" using a by (simp add: ipnet_spec_def s_def)
  ultimately show ?thesis unfolding k s_def [symmetric] by (simp add: algebra_simps)
qed

lemma broadcast_le_u32: "ipnet_spec ip \<Longrightarrow> wf_net n \<Longrightarrow> broadcast ip n \<le> u32_max"
  using network_plus_size_le [of ip n] net_size_pos [of n] by (simp add: broadcast_eq u32_max_def)

text \<open>
  Two aligned blocks of power-of-two size overlap exactly when one contains the other's
  first address: the reading of \<open>cidrs_overlap\<close> as intersection of the address sets.
\<close>

lemma cidrs_overlap_iff:
  assumes "ipnet_spec ip" "wf_net a" "wf_net b"
  shows "cidrs_overlap ip a b \<longleftrightarrow> net_block ip a \<inter> net_block ip b \<noteq> {}"
proof
  assume "cidrs_overlap ip a b"
  then have "network ip b \<in> net_block ip a \<or> network ip a \<in> net_block ip b"
    using assms by (simp add: cidrs_overlap_def contains_iff)
  moreover have "network ip a \<in> net_block ip a" "network ip b \<in> net_block ip b"
    using assms by (auto simp: net_block_def network_le_broadcast)
  ultimately show "net_block ip a \<inter> net_block ip b \<noteq> {}" by blast
next
  assume "net_block ip a \<inter> net_block ip b \<noteq> {}"
  then have "network ip b \<in> net_block ip a \<or> network ip a \<in> net_block ip b"
    by (auto simp: net_block_def)
  then show "cidrs_overlap ip a b"
    using assms by (simp add: cidrs_overlap_def contains_iff)
qed

lemma cidrs_overlap_sym: "cidrs_overlap ip a b = cidrs_overlap ip b a"
  by (auto simp: cidrs_overlap_def)

subsection \<open>Subnets\<close>

lemma subnets_Some:
  assumes "ipnet_spec ip" "wf_net n" "subnets ip n p = Some ss"
  shows "net_prefix n \<le> p \<and> p \<le> 32 \<and>
    ss = map (\<lambda>i. \<lparr>net_addr = network ip n + i * 2 ^ (32 - p), net_prefix = p\<rparr>) [0 ..< 2 ^ (p - net_prefix n)]"
  using assms by (auto simp: ipnet_spec_def split: if_splits)

lemma subnet_in_range:
  assumes "ipnet_spec ip" "wf_net n" "net_prefix n \<le> p" "p \<le> 32" "i < 2 ^ (p - net_prefix n)"
  shows "network ip n + i * 2 ^ (32 - p) + 2 ^ (32 - p) \<le> network ip n + net_size n"
proof -
  have "(i + 1) * 2 ^ (32 - p) \<le> 2 ^ (p - net_prefix n) * (2::nat) ^ (32 - p)"
    using assms(5) by (intro mult_right_mono) auto
  also have "\<dots> = net_size n" using assms(3,4) by (simp add: net_size_def power_add [symmetric])
  finally show ?thesis by (simp add: algebra_simps)
qed

lemma subnet_wf:
  assumes "ipnet_spec ip" "wf_net n" "net_prefix n \<le> p" "p \<le> 32" "i < 2 ^ (p - net_prefix n)"
  shows "wf_net \<lparr>net_addr = network ip n + i * 2 ^ (32 - p), net_prefix = p\<rparr>"
proof -
  have "network ip n + i * 2 ^ (32 - p) + 2 ^ (32 - p) \<le> 2 ^ 32"
    using subnet_in_range [OF assms] network_plus_size_le [OF assms(1,2)] by simp
  moreover have "(0::nat) < 2 ^ (32 - p)" by simp
  ultimately have "network ip n + i * 2 ^ (32 - p) < 2 ^ 32" by linarith
  with assms(4) show ?thesis by (simp add: wf_net_def)
qed

lemma subnet_network:
  assumes "ipnet_spec ip" "wf_net n" "net_prefix n \<le> p" "p \<le> 32" "i < 2 ^ (p - net_prefix n)"
  shows "network ip \<lparr>net_addr = network ip n + i * 2 ^ (32 - p), net_prefix = p\<rparr>
         = network ip n + i * 2 ^ (32 - p)"
proof -
  have "(2::nat) ^ (32 - p) dvd net_size n" using assms(3) by (simp add: net_size_def le_imp_power_dvd)
  then have "2 ^ (32 - p) dvd network ip n" using network_dvd [OF assms(1,2)] by (rule dvd_trans)
  then have "2 ^ (32 - p) dvd network ip n + i * 2 ^ (32 - p)" by simp
  then have "(network ip n + i * 2 ^ (32 - p)) div 2 ^ (32 - p) * 2 ^ (32 - p) = network ip n + i * 2 ^ (32 - p)"
    by (rule dvd_div_mult_self)
  with network_eq [OF assms(1) subnet_wf [OF assms]] show ?thesis
    by (simp only: net_size_def Ipv4Net.select_convs)
qed

lemma subnets_mem:
  assumes "ipnet_spec ip" "wf_net n" "subnets ip n p = Some ss" "s \<in> set ss"
  shows "wf_net s \<and> net_prefix s = p \<and> net_block ip s \<subseteq> net_block ip n"
proof -
  from subnets_Some [OF assms(1-3)] assms(4) obtain i where
    p: "net_prefix n \<le> p" "p \<le> 32" and i: "i < 2 ^ (p - net_prefix n)"
    and s: "s = \<lparr>net_addr = network ip n + i * 2 ^ (32 - p), net_prefix = p\<rparr>" by auto
  note args = assms(1,2) p i
  have "net_size s = 2 ^ (32 - p)" by (simp add: s net_size_def)
  then have "network ip n \<le> network ip s" "network ip s + net_size s \<le> network ip n + net_size n"
    using subnet_network [OF args] subnet_in_range [OF args] by (simp_all add: s)
  moreover have "wf_net s" using subnet_wf [OF args] by (simp add: s)
  ultimately have "net_block ip s \<subseteq> net_block ip n"
    using assms(1,2) by (simp add: net_block_def broadcast_eq) linarith
  with subnet_wf [OF args] show ?thesis by (simp add: s)
qed

end
