(* ===== verification/Db_Rows.thy ===== *)
theory Db_Rows
  imports Ipv4
begin

text \<open>
  The row types of the controller's database (\<open>basis-controller/src/db.rs\<close>) and the values
  they carry.  A column that stores JSON (\<open>gpu_inventory\<close>, \<open>labels\<close>, \<open>storage_disks\<close>) holds the
  value it encodes; an address column holds the address; the empty string in an optional
  address or network column is \<open>None\<close>.  Integer columns are \<open>int\<close> (SQLite and \<open>i64\<close>).
\<close>

type_synonym labels = "string \<rightharpoonup> string"

record GpuInfo =
  gi_pci_address :: string
  gi_model :: string
  gi_iommu_group :: string
  gi_nvlink_group :: nat

record HostRow =
  h_id :: string
  h_hostname :: string
  h_total_cpu :: int
  h_total_memory_mib :: int
  h_rootfs_total_bytes :: int
  h_rootfs_free_bytes :: int
  h_rootfs_metadata_total_bytes :: int
  h_rootfs_metadata_free_bytes :: int
  h_data_total_bytes :: int
  h_data_free_bytes :: int
  h_gpu_inventory :: "GpuInfo list"
  h_vtep_address :: "ipv4 option"
  h_last_heartbeat :: string
  h_healthy :: bool
  h_rank :: int
  h_labels :: labels

record StoredDisk =
  sd_disk_index :: nat
  sd_min_size_gib :: nat
  sd_purpose :: string
  sd_pool :: "string option"
  sd_device_id :: "string option"
  sd_assignment_id :: "string option"
  sd_actual_size_gib :: "nat option"
  sd_device_path :: "string option"

record VmRow =
  vm_id :: string
  vm_name :: string
  vm_cluster_id :: string
  vm_host_id :: string
  vm_ip_address :: ipv4
  vm_state :: int
  vm_cpu :: int
  vm_memory_mib :: int
  vm_disk_gib :: int
  vm_storage_disks :: "StoredDisk list"
  vm_image :: string
  vm_error_message :: string
  vm_created_at :: string
  vm_updated_at :: string

record GpuAssignment =
  ga_vm_id :: string
  ga_host_id :: string
  ga_pci_address :: string
  ga_model :: string
  ga_iommu_group :: string
  ga_nvlink_group :: int

record HostUsage =
  hu_used_cpu :: int
  hu_used_memory_mib :: int
  hu_used_rootfs_gib :: int
  hu_used_data_gib :: int
  hu_assigned_pci :: "string set"
  hu_vms_by_cluster :: "string \<rightharpoonup> nat"

record ClusterRow =
  c_id :: string
  c_name :: string
  c_vni :: int
  c_cidr :: Ipv4Net
  c_bridge_range_start :: ipv4
  c_bridge_range_end :: ipv4
  c_vm_range_start :: ipv4
  c_vm_range_end :: ipv4
  c_prefix_len :: int
  c_control_plane_endpoint :: ipv4
  c_apiserver_visibility :: int
  c_external_pool :: string
  c_service_block_cidr :: "Ipv4Net option"
  c_trust_domain :: string
  c_created_at :: string

record HostPoolRow =
  hp_host_id :: string
  hp_pool :: string
  hp_backend :: string
  hp_labels :: labels
  hp_configured_total_bytes :: int
  hp_ready_total_bytes :: int
  hp_schedulable_total_bytes :: int
  hp_schedulable_free_bytes :: int

record HostPoolDeviceRow =
  hd_host_id :: string
  hd_pool :: string
  hd_device_id :: string
  hd_total_bytes :: int
  hd_free_bytes :: int
  hd_physical :: string
  hd_physical_reason :: string

record DeviceSchedulingStateRow =
  ds_host_id :: string
  ds_pool :: string
  ds_device_id :: string
  ds_state :: string
  ds_reason :: "string option"

text \<open>One gibibyte (\<open>GIB\<close>).\<close>

definition GIB :: int where "GIB = 2 ^ 30"

text \<open>\<open>HostUsage::default()\<close>.\<close>

definition HostUsage_default :: HostUsage where
  "HostUsage_default = \<lparr>hu_used_cpu = 0, hu_used_memory_mib = 0, hu_used_rootfs_gib = 0,
     hu_used_data_gib = 0, hu_assigned_pci = {}, hu_vms_by_cluster = Map.empty\<rparr>"

text \<open>\<open>HostPoolDeviceRow::is_ready\<close>.\<close>

definition is_ready :: "HostPoolDeviceRow \<Rightarrow> bool" where
  "is_ready d \<longleftrightarrow> hd_physical d = ''Ready''"

text \<open>\<open>VmRow::storage_disks_sum_gib\<close>: each size is cast to \<open>i64\<close>, the sum wraps.\<close>

definition storage_disks_sum_gib :: "VmRow \<Rightarrow> int" where
  "storage_disks_sum_gib vm = wrap_i64 (sum_list (map (\<lambda>d. as_i64 (sd_min_size_gib d)) (vm_storage_disks vm)))"

text \<open>
  The CPU over-commit ratio is a finite non-negative \<open>f32\<close>, that is \<open>m / 2 ^ k\<close> for a
  mantissa \<open>m\<close> and a shift \<open>k\<close>.  The product with the core count in \<open>f64\<close> is exact up to
  \<open>2 ^ 29\<close> cores (a 24-bit mantissa times a 29-bit integer fits 53 bits), and both the cast to
  \<open>i64\<close> in the scheduler and SQLite's \<open>CAST (... AS INTEGER)\<close> truncate towards zero.
\<close>

type_synonym f32 = "nat \<times> nat"

definition effective_cpu :: "int \<Rightarrow> f32 \<Rightarrow> int" where
  "effective_cpu n r = clamp_i64 (trunc_div (n * int (fst r)) (2 ^ snd r))"

text \<open>\<open>DiskPurpose\<close> and \<open>DevicePhysicalHealth\<close> with their database strings.\<close>

datatype DiskPurpose = Unspecified | Replicated | GenericData

fun DiskPurpose_try_from :: "int \<Rightarrow> DiskPurpose option" where
  "DiskPurpose_try_from n =
     (if n = 0 then Some Unspecified else if n = 1 then Some Replicated
      else if n = 2 then Some GenericData else None)"

fun DiskPurpose_as_db_str :: "DiskPurpose \<Rightarrow> string" where
  "DiskPurpose_as_db_str Unspecified = ''unspecified''"
| "DiskPurpose_as_db_str Replicated = ''replicated''"
| "DiskPurpose_as_db_str GenericData = ''generic-data''"

datatype DevicePhysicalHealth =
  DeviceHealthUnspecified | DeviceHealthReady | DeviceHealthDegraded | DeviceHealthMissing

fun DevicePhysicalHealth_as_db_str :: "DevicePhysicalHealth \<Rightarrow> string" where
  "DevicePhysicalHealth_as_db_str DeviceHealthUnspecified = ''Unspecified''"
| "DevicePhysicalHealth_as_db_str DeviceHealthReady = ''Ready''"
| "DevicePhysicalHealth_as_db_str DeviceHealthDegraded = ''Degraded''"
| "DevicePhysicalHealth_as_db_str DeviceHealthMissing = ''Missing''"

definition DevicePhysicalHealth_from_db_str :: "string \<Rightarrow> DevicePhysicalHealth" where
  "DevicePhysicalHealth_from_db_str s =
     (if s = ''Ready'' then DeviceHealthReady
      else if s = ''Degraded'' then DeviceHealthDegraded
      else if s = ''Missing'' then DeviceHealthMissing
      else DeviceHealthUnspecified)"

definition DevicePhysicalHealth_try_from :: "int \<Rightarrow> DevicePhysicalHealth option" where
  "DevicePhysicalHealth_try_from n =
     (if n = 0 then Some DeviceHealthUnspecified else if n = 1 then Some DeviceHealthReady
      else if n = 2 then Some DeviceHealthDegraded else if n = 3 then Some DeviceHealthMissing else None)"

text \<open>\<open>physical_health_str\<close>: an unknown enum integer falls back to \<open>Unspecified\<close>.\<close>

definition physical_health_str :: "int \<Rightarrow> string" where
  "physical_health_str p =
     DevicePhysicalHealth_as_db_str
       (case DevicePhysicalHealth_try_from p of Some h \<Rightarrow> h | None \<Rightarrow> DeviceHealthUnspecified)"

lemma DevicePhysicalHealth_roundtrip:
  "DevicePhysicalHealth_from_db_str (DevicePhysicalHealth_as_db_str h) = h"
  by (cases h) (simp_all add: DevicePhysicalHealth_from_db_str_def)

lemma effective_cpu_nonneg: "0 \<le> n \<Longrightarrow> 0 \<le> effective_cpu n r"
  by (simp add: effective_cpu_def clamp_i64_nonneg trunc_div_nonneg pos_imp_zdiv_nonneg_iff)

end
