(* ===== verification/Scheduler.thy ===== *)
theory Scheduler
  imports Db_Rows
begin

text \<open>
  The scheduler (\<open>basis-controller/src/scheduler.rs\<close>): label selectors, per-disk
  \<open>(pool, device)\<close> placement, NVLink-aware GPU selection and the choice of a host.  All of it
  is pure in the source and a function here.  A \<open>BTreeMap\<close> or \<open>HashMap\<close> that is only looked up
  is a map, a \<open>HashSet\<close> is a set; the one iteration over a \<open>HashMap\<close> (the NVLink groups)
  takes the iteration order as a parameter.
\<close>

named_theorems sched_simps \<open>unfolding of the scheduler's records and small helpers\<close>

subsection \<open>Label selectors\<close>

record PlacementRequirement =
  pr_key :: string
  pr_values :: "string list"

record PlacementPreference =
  pp_key :: string
  pp_value :: string
  pp_weight :: nat

record Placement =
  requires :: "PlacementRequirement list"
  prefers :: "PlacementPreference list"

definition Placement_default :: Placement where
  "Placement_default = \<lparr>requires = [], prefers = []\<rparr>"

definition satisfies :: "Placement \<Rightarrow> labels \<Rightarrow> bool" where
  "satisfies p host_labels =
     list_all (\<lambda>req. case host_labels (pr_key req) of
                       Some v \<Rightarrow> v \<in> set (pr_values req)
                     | None \<Rightarrow> False) (requires p)"

text \<open>\<open>Placement::score\<close>: the sum is a \<open>u32\<close>.\<close>

definition score :: "Placement \<Rightarrow> labels \<Rightarrow> nat" where
  "score p host_labels =
     wrap_u32 (sum_list (map pp_weight
       (filter (\<lambda>pf. host_labels (pp_key pf) = Some (pp_value pf)) (prefers p))))"

subsection \<open>The request\<close>

text \<open>
  \<open>StorageDisk\<close> is the wire message; its selector is a \<open>LabelSelector\<close>, whose conversion into
  \<open>Placement\<close> copies the two lists field by field.
\<close>

record StorageDisk =
  dk_purpose :: int
  dk_min_size_gib :: nat
  dk_selector :: "Placement option"

record ScheduleRequest =
  sr_cluster_id :: string
  sr_cpu :: nat
  sr_memory_mib :: nat
  sr_rootfs_gib :: nat
  sr_data_gib :: nat
  sr_gpus :: nat
  sr_min_group_size :: nat
  sr_placement :: Placement
  sr_storage_disks :: "StorageDisk list"

record CreateMachineRequest =
  cm_name :: string
  cm_cluster_id :: string
  cm_cpu :: nat
  cm_memory_mib :: nat
  cm_disk_gib :: nat
  cm_gpus :: nat
  cm_gpu_constraints :: "nat option"
  cm_placement :: "Placement option"
  cm_image :: string
  cm_storage_disks :: "StorageDisk list"

text \<open>
  \<open>From<&CreateMachineRequest>\<close>: each \<open>min_size_gib\<close> (a \<open>u64\<close>) is truncated to \<open>u32\<close> before
  the \<open>u32\<close> sum.
\<close>

definition schedule_request_from :: "CreateMachineRequest \<Rightarrow> ScheduleRequest" where
  "schedule_request_from req = \<lparr>
     sr_cluster_id = cm_cluster_id req,
     sr_cpu = cm_cpu req,
     sr_memory_mib = cm_memory_mib req,
     sr_rootfs_gib = cm_disk_gib req,
     sr_data_gib = wrap_u32 (sum_list (map (\<lambda>d. wrap_u32 (dk_min_size_gib d)) (cm_storage_disks req))),
     sr_gpus = cm_gpus req,
     sr_min_group_size = (case cm_gpu_constraints req of Some g \<Rightarrow> g | None \<Rightarrow> 0),
     sr_placement = (case cm_placement req of Some p \<Rightarrow> p | None \<Rightarrow> Placement_default),
     sr_storage_disks = cm_storage_disks req\<rparr>"

subsection \<open>The storage view of a host\<close>

record DeviceView =
  dv_device_id :: string
  dv_total_bytes :: int
  dv_free_bytes :: int
  dv_schedulable :: bool
  dv_replicated_clusters :: "string set"

record PoolView =
  pv_name :: string
  pv_backend :: string
  pv_labels :: labels
  pv_schedulable_total_bytes :: int
  pv_schedulable_free_bytes :: int
  pv_devices :: "DeviceView list"

record HostStorageView =
  hs_pools :: "PoolView list"

type_synonym device_key = "string \<times> string"

definition device_view ::
  "device_key set \<Rightarrow> (device_key \<rightharpoonup> string set) \<Rightarrow> string \<Rightarrow> HostPoolDeviceRow \<Rightarrow> DeviceView" where
  "device_view drained repl pool_name d = \<lparr>
     dv_device_id = hd_device_id d,
     dv_total_bytes = hd_total_bytes d,
     dv_free_bytes = hd_free_bytes d,
     dv_schedulable = (is_ready d \<and> (pool_name, hd_device_id d) \<notin> drained),
     dv_replicated_clusters = (case repl (pool_name, hd_device_id d) of Some s \<Rightarrow> s | None \<Rightarrow> {})\<rparr>"

definition from_rows ::
  "HostPoolRow list \<Rightarrow> (string \<rightharpoonup> HostPoolDeviceRow list) \<Rightarrow> device_key set \<Rightarrow>
   (device_key \<rightharpoonup> string set) \<Rightarrow> HostStorageView" where
  "from_rows pools devices_by_pool drained repl = \<lparr>hs_pools = map (\<lambda>p. \<lparr>
     pv_name = hp_pool p,
     pv_backend = hp_backend p,
     pv_labels = hp_labels p,
     pv_schedulable_total_bytes = hp_schedulable_total_bytes p,
     pv_schedulable_free_bytes = hp_schedulable_free_bytes p,
     pv_devices = map (device_view drained repl (hp_pool p))
       (case devices_by_pool (hp_pool p) of Some ds \<Rightarrow> ds | None \<Rightarrow> [])\<rparr>) pools\<rparr>"

subsection \<open>Disk placement\<close>

record DiskPlacement =
  dp_disk_index :: nat
  dp_pool :: string
  dp_device_id :: string
  dp_min_size_gib :: nat
  dp_purpose :: DiskPurpose

text \<open>\<open>DiskScore\<close> derives \<open>Ord\<close>: lexicographic in the order of its fields.\<close>

datatype DiskScore = DiskScore
  (pool_prefers_score: nat)
  (negative_same_cluster_on_device: int)
  (negative_same_vm_penalty: int)
  (tie_breaker: int)

fun DiskScore_key :: "DiskScore \<Rightarrow> nat \<times> int \<times> int \<times> int" where
  "DiskScore_key (DiskScore a b c d) = (a, b, c, d)"

instantiation DiskScore :: linorder
begin

definition less_eq_DiskScore :: "DiskScore \<Rightarrow> DiskScore \<Rightarrow> bool" where
  "less_eq_DiskScore s t = (DiskScore_key s \<le> DiskScore_key t)"

definition less_DiskScore :: "DiskScore \<Rightarrow> DiskScore \<Rightarrow> bool" where
  "less_DiskScore s t = (DiskScore_key s < DiskScore_key t)"

instance
proof
  fix x y z :: DiskScore
  show "(x < y) = (x \<le> y \<and> \<not> y \<le> x)"
    by (auto simp: less_eq_DiskScore_def less_DiskScore_def)
  show "x \<le> x" by (simp add: less_eq_DiskScore_def)
  show "x \<le> y \<Longrightarrow> y \<le> z \<Longrightarrow> x \<le> z"
    unfolding less_eq_DiskScore_def by (rule order_trans)
  show "x \<le> y \<Longrightarrow> y \<le> x \<Longrightarrow> x = y"
    unfolding less_eq_DiskScore_def
    by (drule (1) order_antisym) (cases x; cases y; simp)
  show "x \<le> y \<or> y \<le> x" unfolding less_eq_DiskScore_def by (rule linear)
qed

end

record DiskCandidate =
  dc_pool :: string
  dc_device_id :: string
  dc_score :: DiskScore

text \<open>\<open>-(free_bytes - need_bytes)\<close> in \<open>i64\<close> for \<open>lvm-linear\<close>, 0 for every other backend.\<close>

definition backend_tie_breaker :: "string \<Rightarrow> int \<Rightarrow> int \<Rightarrow> int" where
  "backend_tie_breaker backend free_bytes need_bytes =
     (if backend = ''lvm-linear'' then wrap_i64 (- wrap_i64 (free_bytes - need_bytes)) else 0)"

text \<open>The state the loop over the disks carries.\<close>

record disk_acc =
  da_placements :: "DiskPlacement list"
  da_this_vm_devices :: "device_key set"
  da_device_free :: "device_key \<rightharpoonup> int"

definition device_free_init :: "HostStorageView \<Rightarrow> (device_key \<rightharpoonup> int)" where
  "device_free_init view =
     fold (\<lambda>pool m. fold (\<lambda>d m. m((pv_name pool, dv_device_id d) \<mapsto> dv_free_bytes d)) (pv_devices pool) m)
          (hs_pools view) Map.empty"

definition need_bytes :: "StorageDisk \<Rightarrow> int" where
  "need_bytes disk = sat_mul_i64 (as_i64 (dk_min_size_gib disk)) GIB"

definition disk_selector :: "StorageDisk \<Rightarrow> Placement" where
  "disk_selector disk = (case dk_selector disk of Some p \<Rightarrow> p | None \<Rightarrow> Placement_default)"

definition device_avail :: "disk_acc \<Rightarrow> device_key \<Rightarrow> int" where
  "device_avail acc key = (case da_device_free acc key of Some b \<Rightarrow> b | None \<Rightarrow> 0)"

definition disk_candidate ::
  "string \<Rightarrow> disk_acc \<Rightarrow> StorageDisk \<Rightarrow> PoolView \<Rightarrow> DeviceView \<Rightarrow> DiskCandidate" where
  "disk_candidate cluster_id acc disk pool dev = \<lparr>
     dc_pool = pv_name pool,
     dc_device_id = dv_device_id dev,
     dc_score = DiskScore
       (score (disk_selector disk) (pv_labels pool))
       (- (if cluster_id = '''' then 0
           else if cluster_id \<in> dv_replicated_clusters dev then 1 else 0))
       (- (if (pv_name pool, dv_device_id dev) \<in> da_this_vm_devices acc then 1 else 0))
       (backend_tie_breaker (pv_backend pool) (dv_free_bytes dev) (need_bytes disk))\<rparr>"

text \<open>The body of the inner loop, and the two nested loops that pick one disk's device.\<close>

definition consider_device ::
  "string \<Rightarrow> disk_acc \<Rightarrow> StorageDisk \<Rightarrow> PoolView \<Rightarrow> DeviceView \<Rightarrow> DiskCandidate option \<Rightarrow> DiskCandidate option" where
  "consider_device cluster_id acc disk pool dev best =
     (if \<not> dv_schedulable dev then best
      else if device_avail acc (pv_name pool, dv_device_id dev) < need_bytes disk then best
      else let cand = disk_candidate cluster_id acc disk pool dev in
        (case best of
           None \<Rightarrow> Some cand
         | Some b \<Rightarrow> if dc_score b < dc_score cand then Some cand else best))"

definition best_device ::
  "string \<Rightarrow> HostStorageView \<Rightarrow> disk_acc \<Rightarrow> StorageDisk \<Rightarrow> DiskCandidate option" where
  "best_device cluster_id view acc disk =
     fold (\<lambda>pool best.
             if \<not> satisfies (disk_selector disk) (pv_labels pool) then best
             else fold (consider_device cluster_id acc disk pool) (pv_devices pool) best)
          (hs_pools view) None"

definition commit_pick :: "nat \<Rightarrow> StorageDisk \<Rightarrow> DiskPurpose \<Rightarrow> DiskCandidate \<Rightarrow> disk_acc \<Rightarrow> disk_acc" where
  "commit_pick idx disk purpose pick acc =
     (let key = (dc_pool pick, dc_device_id pick) in \<lparr>
        da_placements = da_placements acc @
          [\<lparr>dp_disk_index = wrap_u32 idx, dp_pool = dc_pool pick, dp_device_id = dc_device_id pick,
            dp_min_size_gib = dk_min_size_gib disk, dp_purpose = purpose\<rparr>],
        da_this_vm_devices = insert key (da_this_vm_devices acc),
        da_device_free = (case da_device_free acc key of
            Some b \<Rightarrow> (da_device_free acc)(key \<mapsto> sat_sub_i64 b (need_bytes disk))
          | None \<Rightarrow> da_device_free acc)\<rparr>)"

fun place_disks ::
  "string \<Rightarrow> HostStorageView \<Rightarrow> nat \<Rightarrow> StorageDisk list \<Rightarrow> disk_acc \<Rightarrow> disk_acc option" where
  "place_disks cluster_id view idx [] acc = Some acc"
| "place_disks cluster_id view idx (disk # disks) acc =
     (case DiskPurpose_try_from (dk_purpose disk) of
        None \<Rightarrow> None
      | Some purpose \<Rightarrow>
          (case best_device cluster_id view acc disk of
             None \<Rightarrow> None
           | Some pick \<Rightarrow>
               place_disks cluster_id view (Suc idx) disks (commit_pick idx disk purpose pick acc)))"

definition pick_disk_placements ::
  "string \<Rightarrow> HostStorageView \<Rightarrow> StorageDisk list \<Rightarrow> DiskPlacement list option" where
  "pick_disk_placements cluster_id view disks =
     map_option da_placements
       (place_disks cluster_id view 0 disks
          \<lparr>da_placements = [], da_this_vm_devices = {}, da_device_free = device_free_init view\<rparr>)"

subsection \<open>Capacity of a host\<close>

record Available =
  av_cpu :: nat
  av_memory_mib :: nat
  av_rootfs_gib :: nat
  av_data_gib :: nat

definition Available_from :: "HostRow \<Rightarrow> HostUsage \<Rightarrow> f32 \<Rightarrow> Available" where
  "Available_from host usage ratio = \<lparr>
     av_cpu = as_u32 (max (sat_sub_i64 (effective_cpu (h_total_cpu host) ratio) (hu_used_cpu usage)) 0),
     av_memory_mib = as_u32 (max (sat_sub_i64 (h_total_memory_mib host) (hu_used_memory_mib usage)) 0),
     av_rootfs_gib = as_u32 (max (sat_sub_i64 (trunc_div (h_rootfs_total_bytes host) GIB) (hu_used_rootfs_gib usage)) 0),
     av_data_gib = as_u32 (max (sat_sub_i64 (trunc_div (h_data_total_bytes host) GIB) (hu_used_data_gib usage)) 0)\<rparr>"

definition fits :: "Available \<Rightarrow> ScheduleRequest \<Rightarrow> bool" where
  "fits a req \<longleftrightarrow>
     sr_cpu req \<le> av_cpu a \<and> sr_memory_mib req \<le> av_memory_mib a \<and>
     sr_rootfs_gib req \<le> av_rootfs_gib a \<and> sr_data_gib req \<le> av_data_gib a"

definition remaining_after :: "Available \<Rightarrow> ScheduleRequest \<Rightarrow> nat" where
  "remaining_after a req = (av_cpu a - sr_cpu req) + (av_memory_mib a - sr_memory_mib req)"

subsection \<open>GPU topology\<close>

text \<open>
  The groups are the non-empty buckets by \<open>nvlink_group\<close>, each in inventory order.  The
  \<open>HashMap\<close> yields its keys in an order that \<open>iter\<close> chooses.
\<close>

definition nvlink_bucket :: "GpuInfo list \<Rightarrow> nat \<Rightarrow> GpuInfo list" where
  "nvlink_bucket available g = filter (\<lambda>x. gi_nvlink_group x = g) available"

definition nvlink_keys :: "GpuInfo list \<Rightarrow> nat list" where
  "nvlink_keys available = dedup (map gi_nvlink_group available)"

definition gpu_topology_score ::
  "(nat list \<Rightarrow> nat list) \<Rightarrow> GpuInfo list \<Rightarrow> nat \<Rightarrow> nat \<Rightarrow> int \<times> GpuInfo list" where
  "gpu_topology_score iter available n min_group_size =
     (let keys = iter (nvlink_keys available);
          bucket = nvlink_bucket available in
      if min_group_size > 0 then
        (case find (\<lambda>g. g \<noteq> 0 \<and> n \<le> length (bucket g) \<and> min_group_size \<le> length (bucket g)) keys of
           Some g \<Rightarrow> (3, take n (bucket g))
         | None \<Rightarrow> (0, []))
      else
        (case find (\<lambda>g. g \<noteq> 0 \<and> n \<le> length (bucket g)) keys of
           Some g \<Rightarrow> (3, take n (bucket g))
         | None \<Rightarrow> if n \<le> length available then (1, take n available) else (0, [])))"

subsection \<open>Choosing a host\<close>

text \<open>\<open>CandidateScore\<close> derives \<open>Ord\<close>: lexicographic in the order of its fields.\<close>

datatype CandidateScore = CandidateScore
  (negative_cluster_replicated_mates: int)
  (gpu_score: int)
  (prefers_score: nat)
  (negative_cluster_mates: int)
  (negative_rank: int)
  (negative_remaining_after: int)

fun CandidateScore_key :: "CandidateScore \<Rightarrow> int \<times> int \<times> nat \<times> int \<times> int \<times> int" where
  "CandidateScore_key (CandidateScore a b c d e f) = (a, b, c, d, e, f)"

instantiation CandidateScore :: linorder
begin

definition less_eq_CandidateScore :: "CandidateScore \<Rightarrow> CandidateScore \<Rightarrow> bool" where
  "less_eq_CandidateScore s t = (CandidateScore_key s \<le> CandidateScore_key t)"

definition less_CandidateScore :: "CandidateScore \<Rightarrow> CandidateScore \<Rightarrow> bool" where
  "less_CandidateScore s t = (CandidateScore_key s < CandidateScore_key t)"

instance
proof
  fix x y z :: CandidateScore
  show "(x < y) = (x \<le> y \<and> \<not> y \<le> x)"
    by (auto simp: less_eq_CandidateScore_def less_CandidateScore_def)
  show "x \<le> x" by (simp add: less_eq_CandidateScore_def)
  show "x \<le> y \<Longrightarrow> y \<le> z \<Longrightarrow> x \<le> z"
    unfolding less_eq_CandidateScore_def by (rule order_trans)
  show "x \<le> y \<Longrightarrow> y \<le> x \<Longrightarrow> x = y"
    unfolding less_eq_CandidateScore_def
    by (drule (1) order_antisym) (cases x; cases y; simp)
  show "x \<le> y \<or> y \<le> x" unfolding less_eq_CandidateScore_def by (rule linear)
qed

end

record Candidate =
  ca_host :: HostRow
  ca_score :: CandidateScore
  ca_selected_gpus :: "GpuInfo list"
  ca_disk_placements :: "DiskPlacement list"

record ScheduleDecision =
  de_host_id :: string
  de_gpus :: "GpuInfo list"
  de_disks :: "DiskPlacement list"

text \<open>The two errors, with the request data their messages print.\<close>

datatype SchedulerError =
    NoCapacity nat nat nat nat nat nat
  | UnsatisfiedRequirements "PlacementRequirement list"

definition usage_of :: "(string \<rightharpoonup> HostUsage) \<Rightarrow> HostRow \<Rightarrow> HostUsage" where
  "usage_of usage_by_host host =
     (case usage_by_host (h_id host) of Some u \<Rightarrow> u | None \<Rightarrow> HostUsage_default)"

definition free_gpus :: "HostRow \<Rightarrow> HostUsage \<Rightarrow> GpuInfo list" where
  "free_gpus host usage = filter (\<lambda>g. gi_pci_address g \<notin> hu_assigned_pci usage) (h_gpu_inventory host)"

definition select_gpus ::
  "(nat list \<Rightarrow> nat list) \<Rightarrow> GpuInfo list \<Rightarrow> ScheduleRequest \<Rightarrow> (int \<times> GpuInfo list) option" where
  "select_gpus iter free req =
     (if sr_gpus req > 0 then
        (let r = gpu_topology_score iter free (sr_gpus req) (sr_min_group_size req) in
         if snd r = [] then None else Some r)
      else Some (0, []))"

definition select_disks :: "HostStorageView \<Rightarrow> ScheduleRequest \<Rightarrow> DiskPlacement list option" where
  "select_disks storage req =
     (if sr_storage_disks req = [] then Some []
      else pick_disk_placements (sr_cluster_id req) storage (sr_storage_disks req))"

definition cluster_mates :: "HostUsage \<Rightarrow> ScheduleRequest \<Rightarrow> nat" where
  "cluster_mates usage req =
     (if sr_cluster_id req = '''' then 0
      else case hu_vms_by_cluster usage (sr_cluster_id req) of Some n \<Rightarrow> n | None \<Rightarrow> 0)"

definition replicated_mates :: "(string \<rightharpoonup> int) \<Rightarrow> HostRow \<Rightarrow> ScheduleRequest \<Rightarrow> int" where
  "replicated_mates replicated_count_by_host host req =
     (if list_ex (\<lambda>d. dk_purpose d = 1) (sr_storage_disks req) \<and> sr_cluster_id req \<noteq> ''''
      then (case replicated_count_by_host (h_id host) of Some n \<Rightarrow> n | None \<Rightarrow> 0)
      else 0)"

text \<open>One iteration of the host loop: \<open>None\<close> is \<open>continue\<close>.\<close>

definition host_candidate ::
  "(nat list \<Rightarrow> nat list) \<Rightarrow> (string \<rightharpoonup> HostUsage) \<Rightarrow> (string \<rightharpoonup> HostStorageView) \<Rightarrow>
   (string \<rightharpoonup> int) \<Rightarrow> ScheduleRequest \<Rightarrow> f32 \<Rightarrow> HostRow \<Rightarrow> Candidate option" where
  "host_candidate iter usage_by_host storage_by_host replicated_count_by_host req ratio host =
     (if \<not> satisfies (sr_placement req) (h_labels host) then None
      else
        (let usage = usage_of usage_by_host host;
             avail = Available_from host usage ratio in
         if \<not> fits avail req then None
         else
           (case select_gpus iter (free_gpus host usage) req of
              None \<Rightarrow> None
            | Some (gscore, selected_gpus) \<Rightarrow>
                (case select_disks
                        (case storage_by_host (h_id host) of Some s \<Rightarrow> s | None \<Rightarrow> \<lparr>hs_pools = []\<rparr>) req of
                   None \<Rightarrow> None
                 | Some disks \<Rightarrow> Some \<lparr>
                     ca_host = host,
                     ca_score = CandidateScore
                       (wrap_i64 (- replicated_mates replicated_count_by_host host req))
                       gscore
                       (score (sr_placement req) (h_labels host))
                       (- int (cluster_mates usage req))
                       (wrap_i64 (- h_rank host))
                       (- int (remaining_after avail req)),
                     ca_selected_gpus = selected_gpus,
                     ca_disk_placements = disks\<rparr>))))"

definition schedule ::
  "(nat list \<Rightarrow> nat list) \<Rightarrow> HostRow list \<Rightarrow> (string \<rightharpoonup> HostUsage) \<Rightarrow> (string \<rightharpoonup> HostStorageView) \<Rightarrow>
   (string \<rightharpoonup> int) \<Rightarrow> ScheduleRequest \<Rightarrow> f32 \<Rightarrow> (SchedulerError, ScheduleDecision) res" where
  "schedule iter hosts usage_by_host storage_by_host replicated_count_by_host req ratio =
     (let healthy = filter h_healthy hosts;
          any_passed_requires = list_ex (\<lambda>h. satisfies (sr_placement req) (h_labels h)) healthy;
          candidates = List.map_filter
            (host_candidate iter usage_by_host storage_by_host replicated_count_by_host req ratio) healthy in
      (case pick_last ca_score candidates of
         None \<Rightarrow> Inl (if \<not> any_passed_requires \<and> requires (sr_placement req) \<noteq> []
                      then UnsatisfiedRequirements (requires (sr_placement req))
                      else NoCapacity (sr_cpu req) (sr_memory_mib req) (sr_rootfs_gib req)
                             (sr_data_gib req) (sr_gpus req) (length (sr_storage_disks req)))
       | Some winner \<Rightarrow> Inr \<lparr>
           de_host_id = h_id (ca_host winner),
           de_gpus = ca_selected_gpus winner,
           de_disks = ca_disk_placements winner\<rparr>))"

subsection \<open>Disk placement: what one pick chooses\<close>

text \<open>The devices that survive the hard filters for one disk, in view order.\<close>

definition device_eligible :: "disk_acc \<Rightarrow> StorageDisk \<Rightarrow> PoolView \<Rightarrow> DeviceView \<Rightarrow> bool" where
  "device_eligible acc disk pool dev \<longleftrightarrow>
     dv_schedulable dev \<and> need_bytes disk \<le> device_avail acc (pv_name pool, dv_device_id dev)"

definition eligible_devices ::
  "HostStorageView \<Rightarrow> disk_acc \<Rightarrow> StorageDisk \<Rightarrow> (PoolView \<times> DeviceView) list" where
  "eligible_devices view acc disk =
     concat (map (\<lambda>pool. if satisfies (disk_selector disk) (pv_labels pool)
                         then map (Pair pool) (filter (device_eligible acc disk pool) (pv_devices pool))
                         else []) (hs_pools view))"

lemma fold_consider_device:
  "fold (consider_device cid acc disk pool) ds best =
   fold (pick_first_step dc_score)
        (map (disk_candidate cid acc disk pool) (filter (device_eligible acc disk pool) ds)) best"
  by (induction ds arbitrary: best)
    (auto simp: consider_device_def device_eligible_def pick_first_step_def Let_def not_less
       split: option.splits)

lemma best_device_eq:
  "best_device cid view acc disk =
   pick_first dc_score (map (\<lambda>(pool, dev). disk_candidate cid acc disk pool dev) (eligible_devices view acc disk))"
proof -
  have "fold (\<lambda>pool best. if \<not> satisfies (disk_selector disk) (pv_labels pool) then best
                else fold (consider_device cid acc disk pool) (pv_devices pool) best) ps b
      = fold (pick_first_step dc_score)
          (map (\<lambda>(pool, dev). disk_candidate cid acc disk pool dev)
            (concat (map (\<lambda>pool. if satisfies (disk_selector disk) (pv_labels pool)
               then map (Pair pool) (filter (device_eligible acc disk pool) (pv_devices pool)) else []) ps))) b"
    for ps b
    by (induction ps arbitrary: b) (simp_all add: fold_consider_device comp_def)
  then show ?thesis by (simp add: best_device_def pick_first_def eligible_devices_def)
qed

lemma eligible_devices_mem:
  "(pool, dev) \<in> set (eligible_devices view acc disk) \<longleftrightarrow>
   pool \<in> set (hs_pools view) \<and> dev \<in> set (pv_devices pool) \<and>
   satisfies (disk_selector disk) (pv_labels pool) \<and> device_eligible acc disk pool dev"
  by (auto simp: eligible_devices_def split: if_splits)

lemma best_device_None: "best_device cid view acc disk = None \<longleftrightarrow> eligible_devices view acc disk = []"
  by (simp add: best_device_eq)

lemma best_device_Some:
  assumes "best_device cid view acc disk = Some pick"
  obtains pool dev where "(pool, dev) \<in> set (eligible_devices view acc disk)"
    and "pick = disk_candidate cid acc disk pool dev"
  using pick_first_mem [OF assms [unfolded best_device_eq]] by auto

subsection \<open>Disk placement: capacity\<close>

definition placement_key :: "DiskPlacement \<Rightarrow> device_key" where
  "placement_key p = (dp_pool p, dp_device_id p)"

definition placed_bytes :: "device_key \<Rightarrow> DiskPlacement list \<Rightarrow> int" where
  "placed_bytes k ps = sum_list (map (\<lambda>p. int (dp_min_size_gib p) * GIB) (filter (\<lambda>p. placement_key p = k) ps))"

text \<open>Every key of a view names one device, and sizes are \<open>i64\<close> values.\<close>

definition view_devices :: "HostStorageView \<Rightarrow> (device_key \<times> DeviceView) list" where
  "view_devices view =
     concat (map (\<lambda>pool. map (\<lambda>d. ((pv_name pool, dv_device_id d), d)) (pv_devices pool)) (hs_pools view))"

definition wf_view :: "HostStorageView \<Rightarrow> bool" where
  "wf_view view \<longleftrightarrow> distinct (map fst (view_devices view)) \<and>
     (\<forall>(k, d) \<in> set (view_devices view). i64_min \<le> dv_free_bytes d \<and> dv_free_bytes d \<le> i64_max)"

text \<open>What the placement \<open>p\<close> of the request \<open>disk\<close> must respect.\<close>

definition placement_ok :: "HostStorageView \<Rightarrow> StorageDisk \<Rightarrow> DiskPlacement \<Rightarrow> bool" where
  "placement_ok view disk p \<longleftrightarrow>
     (\<exists>pool \<in> set (hs_pools view). \<exists>dev \<in> set (pv_devices pool).
        dp_pool p = pv_name pool \<and> dp_device_id p = dv_device_id dev \<and> dv_schedulable dev \<and>
        satisfies (disk_selector disk) (pv_labels pool)) \<and>
     dp_min_size_gib p = dk_min_size_gib disk \<and>
     DiskPurpose_try_from (dk_purpose disk) = Some (dp_purpose p)"

lemma fold_map_upd_eq:
  "fold (\<lambda>x m. m(f x \<mapsto> g x)) xs m0 = m0 ++ map_of (rev (map (\<lambda>x. (f x, g x)) xs))"
  by (induction xs arbitrary: m0) (simp_all add: map_add_def fun_eq_iff split: option.splits)

lemma device_free_init_eq:
  "device_free_init view = map_of (rev (map (\<lambda>(k, d). (k, dv_free_bytes d)) (view_devices view)))"
proof -
  have "fold (\<lambda>pool m. fold (\<lambda>d m. m((pv_name pool, dv_device_id d) \<mapsto> dv_free_bytes d)) (pv_devices pool) m) ps m0
      = m0 ++ map_of (rev (map (\<lambda>(k, d). (k, dv_free_bytes d))
          (concat (map (\<lambda>pool. map (\<lambda>d. ((pv_name pool, dv_device_id d), d)) (pv_devices pool)) ps))))" for ps m0
    by (induction ps arbitrary: m0) (simp_all add: fold_map_upd_eq comp_def)
  from this [of "hs_pools view" Map.empty] show ?thesis
    unfolding device_free_init_def view_devices_def by (simp only: empty_map_add)
qed

lemma device_free_init_lookup:
  assumes "wf_view view" "pool \<in> set (hs_pools view)" "dev \<in> set (pv_devices pool)"
  shows "device_free_init view (pv_name pool, dv_device_id dev) = Some (dv_free_bytes dev)"
proof -
  have "((pv_name pool, dv_device_id dev), dev) \<in> set (view_devices view)"
    using assms(2,3) by (auto simp: view_devices_def)
  moreover have "distinct (map fst (rev (map (\<lambda>(k, d). (k, dv_free_bytes d)) (view_devices view))))"
    using assms(1) by (simp add: wf_view_def rev_map [symmetric] comp_def case_prod_beta)
  ultimately show ?thesis unfolding device_free_init_eq by (intro map_of_is_SomeI) force+
qed

lemma device_free_init_range:
  "wf_view view \<Longrightarrow> device_free_init view k = Some b \<Longrightarrow> i64_min \<le> b \<and> b \<le> i64_max"
  unfolding device_free_init_eq by (drule map_of_SomeD) (auto simp: wf_view_def)

text \<open>Sizes below \<open>2 ^ 33\<close> GiB are the ones whose byte count is an \<open>i64\<close>.\<close>

lemma need_bytes_exact: "dk_min_size_gib disk < 2 ^ 33 \<Longrightarrow> need_bytes disk = int (dk_min_size_gib disk) * GIB"
  by (simp add: need_bytes_def sat_mul_i64_def GIB_def clamp_i64_def i64_min_def i64_max_def)

lemma placed_bytes_snoc:
  "placed_bytes k (ps @ [p]) =
     placed_bytes k ps + (if placement_key p = k then int (dp_min_size_gib p) * GIB else 0)"
  by (simp add: placed_bytes_def)

lemma placed_bytes_nonneg [simp]: "0 \<le> placed_bytes k ps"
  by (auto simp: placed_bytes_def GIB_def intro: sum_list_nonneg_int)

text \<open>The loop invariant: free bytes are the initial ones less what has been placed.\<close>

definition acc_inv :: "HostStorageView \<Rightarrow> disk_acc \<Rightarrow> bool" where
  "acc_inv view acc \<longleftrightarrow>
     (\<forall>k. da_device_free acc k = map_option (\<lambda>b. b - placed_bytes k (da_placements acc)) (device_free_init view k)) \<and>
     (\<forall>p \<in> set (da_placements acc). \<exists>b. device_free_init view (placement_key p) = Some b \<and>
        placed_bytes (placement_key p) (da_placements acc) \<le> b)"

lemma commit_pick_acc_inv:
  assumes wf: "wf_view view" and inv: "acc_inv view acc" and sz: "dk_min_size_gib disk < 2 ^ 33"
    and pick: "best_device cid view acc disk = Some pick"
  shows "acc_inv view (commit_pick idx disk purpose pick acc)"
proof -
  let ?k = "(dc_pool pick, dc_device_id pick)"
  let ?acc = "commit_pick idx disk purpose pick acc"
  let ?n = "int (dk_min_size_gib disk) * GIB"
  from pick obtain pool dev where el: "(pool, dev) \<in> set (eligible_devices view acc disk)"
    and c: "pick = disk_candidate cid acc disk pool dev" by (rule best_device_Some)
  have k: "?k = (pv_name pool, dv_device_id dev)" by (simp add: c disk_candidate_def)
  have init: "device_free_init view ?k = Some (dv_free_bytes dev)"
    unfolding k using el by (intro device_free_init_lookup [OF wf]) (auto simp: eligible_devices_mem)
  have need: "need_bytes disk = ?n" using sz by (rule need_bytes_exact)
  have n0: "0 \<le> ?n" by (simp add: GIB_def)
  let ?b = "dv_free_bytes dev - placed_bytes ?k (da_placements acc)"
  have free: "da_device_free acc ?k = Some ?b" using inv init by (simp add: acc_inv_def)
  have fit: "?n \<le> ?b"
    using el need free by (simp add: eligible_devices_mem device_eligible_def device_avail_def k)
  have le: "dv_free_bytes dev \<le> i64_max" using device_free_init_range [OF wf init] by simp
  have sub: "sat_sub_i64 ?b (need_bytes disk) = ?b - ?n"
    unfolding need sat_sub_i64_def
  proof (rule clamp_i64_id)
    show "i64_min \<le> ?b - ?n" using fit by (simp add: i64_min_def)
    show "?b - ?n \<le> i64_max" using le n0 placed_bytes_nonneg [of ?k "da_placements acc"] by linarith
  qed
  have pl: "da_placements ?acc = da_placements acc @ [\<lparr>dp_disk_index = wrap_u32 idx, dp_pool = dc_pool pick,
      dp_device_id = dc_device_id pick, dp_min_size_gib = dk_min_size_gib disk, dp_purpose = purpose\<rparr>]"
    by (simp add: commit_pick_def Let_def)
  have pb: "placed_bytes k (da_placements ?acc) = placed_bytes k (da_placements acc) + (if ?k = k then ?n else 0)" for k
    by (simp add: pl placed_bytes_snoc placement_key_def)
  have df: "da_device_free ?acc = (da_device_free acc)(?k \<mapsto> ?b - ?n)"
    using free sub by (simp add: commit_pick_def Let_def)
  have "da_device_free ?acc k = map_option (\<lambda>b. b - placed_bytes k (da_placements ?acc)) (device_free_init view k)" for k
    using inv init unfolding df pb by (cases k) (auto simp: acc_inv_def)
  moreover have "\<exists>b. device_free_init view (placement_key p) = Some b \<and>
      placed_bytes (placement_key p) (da_placements ?acc) \<le> b" if "p \<in> set (da_placements ?acc)" for p
  proof (cases "placement_key p = ?k")
    case True
    with init fit show ?thesis by (simp add: pb)
  next
    case False
    with that have "p \<in> set (da_placements acc)" by (auto simp: pl placement_key_def)
    with inv False show ?thesis by (auto simp: pb acc_inv_def)
  qed
  ultimately show ?thesis by (simp add: acc_inv_def)
qed

lemma commit_pick_placement_ok:
  assumes "best_device cid view acc disk = Some pick" "DiskPurpose_try_from (dk_purpose disk) = Some purpose"
  shows "placement_ok view disk \<lparr>dp_disk_index = i, dp_pool = dc_pool pick, dp_device_id = dc_device_id pick,
     dp_min_size_gib = dk_min_size_gib disk, dp_purpose = purpose\<rparr>"
proof -
  from assms(1) obtain pool dev where "(pool, dev) \<in> set (eligible_devices view acc disk)"
    and "pick = disk_candidate cid acc disk pool dev" by (rule best_device_Some)
  with assms(2) show ?thesis
    by (auto simp: placement_ok_def eligible_devices_mem device_eligible_def disk_candidate_def
        simp del: DiskPurpose_try_from.simps)
qed

lemma place_disks_sound:
  assumes "place_disks cid view idx disks acc = Some acc'"
  shows "\<exists>ps. da_placements acc' = da_placements acc @ ps \<and> list_all2 (placement_ok view) disks ps \<and>
    map dp_disk_index ps = map wrap_u32 [idx ..< idx + length disks]"
  using assms
proof (induction disks arbitrary: idx acc)
  case Nil
  then show ?case by simp
next
  case (Cons disk disks)
  from Cons.prems obtain purpose pick where
    pu: "DiskPurpose_try_from (dk_purpose disk) = Some purpose" and
    bd: "best_device cid view acc disk = Some pick" and
    rec: "place_disks cid view (Suc idx) disks (commit_pick idx disk purpose pick acc) = Some acc'"
    by (auto split: option.splits simp del: DiskPurpose_try_from.simps)
  from Cons.IH [OF rec] obtain ps where ps:
    "da_placements acc' = da_placements (commit_pick idx disk purpose pick acc) @ ps"
    "list_all2 (placement_ok view) disks ps"
    "map dp_disk_index ps = map wrap_u32 [Suc idx ..< Suc idx + length disks]" by blast
  let ?p = "\<lparr>dp_disk_index = wrap_u32 idx, dp_pool = dc_pool pick, dp_device_id = dc_device_id pick,
     dp_min_size_gib = dk_min_size_gib disk, dp_purpose = purpose\<rparr>"
  have upt: "[idx ..< idx + length (disk # disks)] = idx # [Suc idx ..< Suc idx + length disks]"
    by (simp add: upt_rec)
  show ?case
    by (rule exI [of _ "?p # ps"], unfold upt)
      (use ps commit_pick_placement_ok [OF bd pu] in \<open>simp add: commit_pick_def Let_def\<close>)
qed

lemma place_disks_acc_inv:
  assumes "place_disks cid view idx disks acc = Some acc'" "wf_view view" "acc_inv view acc"
    "\<forall>d \<in> set disks. dk_min_size_gib d < 2 ^ 33"
  shows "acc_inv view acc'"
  using assms
proof (induction disks arbitrary: idx acc)
  case Nil
  then show ?case by simp
next
  case (Cons disk disks)
  from Cons.prems(1) obtain purpose pick where
    bd: "best_device cid view acc disk = Some pick" and
    rec: "place_disks cid view (Suc idx) disks (commit_pick idx disk purpose pick acc) = Some acc'"
    by (auto split: option.splits simp del: DiskPurpose_try_from.simps)
  have "acc_inv view (commit_pick idx disk purpose pick acc)"
    using Cons.prems(2-4) bd by (intro commit_pick_acc_inv) auto
  with rec Cons.prems(2,4) show ?case by (intro Cons.IH) auto
qed

lemma acc_inv_init:
  "acc_inv view \<lparr>da_placements = [], da_this_vm_devices = {}, da_device_free = device_free_init view\<rparr>"
  by (simp add: acc_inv_def placed_bytes_def option.map_ident)

subsection \<open>GPU selection\<close>

text \<open>A \<open>HashMap\<close> yields each of its keys once, in some order.\<close>

definition hash_iteration :: "(nat list \<Rightarrow> nat list) \<Rightarrow> bool" where
  "hash_iteration iter \<longleftrightarrow> (\<forall>ks. distinct (iter ks) = distinct ks \<and> set (iter ks) = set ks)"

lemma find_None_set: "set xs = set ys \<Longrightarrow> (find P xs = None) = (find P ys = None)"
  by (simp add: find_None_iff)

lemma nvlink_bucket_subset: "set (nvlink_bucket available g) \<subseteq> set available"
  by (auto simp: nvlink_bucket_def)

lemma gpu_topology_score_length:
  "snd (gpu_topology_score iter available n m) = [] \<or> length (snd (gpu_topology_score iter available n m)) = n"
  by (auto simp: gpu_topology_score_def Let_def dest: find_Some_mem split: option.splits)

lemma gpu_topology_score_subset: "set (snd (gpu_topology_score iter available n m)) \<subseteq> set available"
  by (auto simp: gpu_topology_score_def Let_def nvlink_bucket_def split: option.splits if_splits
      dest: in_set_takeD)

lemma gpu_topology_score_distinct:
  "distinct (map f available) \<Longrightarrow> distinct (map f (snd (gpu_topology_score iter available n m)))"
  by (auto simp: gpu_topology_score_def Let_def nvlink_bucket_def take_map [symmetric] split: option.splits)

lemma nvlink_key_of_bucket: "n \<le> length (nvlink_bucket available g) \<Longrightarrow> 0 < n \<Longrightarrow> g \<in> set (nvlink_keys available)"
proof -
  assume "n \<le> length (nvlink_bucket available g)" "0 < n"
  then have "nvlink_bucket available g \<noteq> []" by auto
  then obtain x where "x \<in> set (nvlink_bucket available g)" by (metis ex_in_conv set_empty)
  then show ?thesis by (auto simp: nvlink_bucket_def nvlink_keys_def)
qed

lemma first_group:
  assumes "hash_iteration iter" "0 < n" "\<And>g. P g \<Longrightarrow> n \<le> length (nvlink_bucket av g)"
  shows "find P (iter (nvlink_keys av)) = None \<longleftrightarrow> \<not> (\<exists>g. P g)"
proof -
  have "set (iter (nvlink_keys av)) = set (nvlink_keys av)" using assms(1) by (simp add: hash_iteration_def)
  then show ?thesis using nvlink_key_of_bucket [OF _ assms(2)] assms(3) by (auto simp: find_None_iff)
qed

lemma hash_iteration_id: "hash_iteration id"
  by (simp add: hash_iteration_def)

lemma gpu_topology_score_hard:
  assumes "hash_iteration iter" "0 < n" "0 < m"
  shows "if \<exists>g. g \<noteq> 0 \<and> n \<le> length (nvlink_bucket av g) \<and> m \<le> length (nvlink_bucket av g)
    then \<exists>g. g \<noteq> 0 \<and> n \<le> length (nvlink_bucket av g) \<and>
       gpu_topology_score iter av n m = (3, take n (nvlink_bucket av g))
    else gpu_topology_score iter av n m = (0, [])"
proof -
  let ?P = "\<lambda>g. g \<noteq> 0 \<and> n \<le> length (nvlink_bucket av g) \<and> m \<le> length (nvlink_bucket av g)"
  have eq: "gpu_topology_score iter av n m =
     (case find ?P (iter (nvlink_keys av)) of Some g \<Rightarrow> (3, take n (nvlink_bucket av g)) | None \<Rightarrow> (0, []))"
    using assms(3) by (simp add: gpu_topology_score_def Let_def)
  note none = first_group [OF assms(1,2), of ?P av]
  show ?thesis
  proof (cases "find ?P (iter (nvlink_keys av))")
    case None
    with none eq show ?thesis by simp
  next
    case (Some g)
    with find_Some_mem [OF Some] eq show ?thesis by auto
  qed
qed

lemma gpu_topology_score_soft:
  assumes "hash_iteration iter" "0 < n"
  shows "if \<exists>g. g \<noteq> 0 \<and> n \<le> length (nvlink_bucket av g)
    then \<exists>g. g \<noteq> 0 \<and> n \<le> length (nvlink_bucket av g) \<and>
       gpu_topology_score iter av n 0 = (3, take n (nvlink_bucket av g))
    else gpu_topology_score iter av n 0 = (if n \<le> length av then (1, take n av) else (0, []))"
proof -
  let ?P = "\<lambda>g. g \<noteq> 0 \<and> n \<le> length (nvlink_bucket av g)"
  have eq: "gpu_topology_score iter av n 0 =
     (case find ?P (iter (nvlink_keys av)) of Some g \<Rightarrow> (3, take n (nvlink_bucket av g))
        | None \<Rightarrow> if n \<le> length av then (1, take n av) else (0, []))"
    by (simp only: gpu_topology_score_def Let_def less_irrefl if_False)
  note none = first_group [OF assms(1,2), of ?P av]
  show ?thesis
  proof (cases "find ?P (iter (nvlink_keys av))")
    case None
    with none eq show ?thesis by simp
  next
    case (Some g)
    with find_Some_mem [OF Some] eq show ?thesis by auto
  qed
qed

lemma take_bucket_group: "x \<in> set (take n (nvlink_bucket av g)) \<Longrightarrow> gi_nvlink_group x = g"
  by (auto simp: nvlink_bucket_def dest: in_set_takeD)

lemma gpu_topology_score_fst:
  assumes "hash_iteration iter" "0 < n"
  shows "fst (gpu_topology_score iter av n m) =
    (if \<exists>g. g \<noteq> 0 \<and> n \<le> length (nvlink_bucket av g) \<and> m \<le> length (nvlink_bucket av g) then 3
     else if m = 0 \<and> n \<le> length av then 1 else 0)"
  using gpu_topology_score_hard [OF assms, of m av] gpu_topology_score_soft [OF assms, of av]
  by (cases "m = 0") (auto split: if_splits)

subsection \<open>Host selection\<close>

lemma map_filter_mem: "y \<in> set (List.map_filter f xs) \<longleftrightarrow> (\<exists>x \<in> set xs. f x = Some y)"
  by (induction xs) (auto simp: List.map_filter_simps split: option.splits)

lemma map_filter_Nil: "List.map_filter f xs = [] \<longleftrightarrow> (\<forall>x \<in> set xs. f x = None)"
  by (induction xs) (auto simp: List.map_filter_simps split: option.splits)

lemma host_candidate_Some:
  assumes "host_candidate iter us ss rs req ratio h = Some c"
  shows "ca_host c = h \<and> satisfies (sr_placement req) (h_labels h) \<and>
    fits (Available_from h (usage_of us h) ratio) req \<and>
    (\<exists>g. select_gpus iter (free_gpus h (usage_of us h)) req = Some (g, ca_selected_gpus c)) \<and>
    select_disks (case ss (h_id h) of Some s \<Rightarrow> s | None \<Rightarrow> \<lparr>hs_pools = []\<rparr>) req = Some (ca_disk_placements c)"
  using assms by (auto simp: host_candidate_def Let_def split: if_splits option.splits)

lemma schedule_Inr:
  assumes "schedule iter hosts us ss rs req ratio = Inr d"
  obtains h c where "h \<in> set hosts" "h_healthy h" "host_candidate iter us ss rs req ratio h = Some c"
    "de_host_id d = h_id h" "de_gpus d = ca_selected_gpus c" "de_disks d = ca_disk_placements c"
    "\<And>h' c'. h' \<in> set hosts \<Longrightarrow> h_healthy h' \<Longrightarrow> host_candidate iter us ss rs req ratio h' = Some c' \<Longrightarrow>
       ca_score c' \<le> ca_score c"
proof -
  let ?cs = "List.map_filter (host_candidate iter us ss rs req ratio) (filter h_healthy hosts)"
  from assms obtain c where c: "pick_last ca_score ?cs = Some c"
    and d: "d = \<lparr>de_host_id = h_id (ca_host c), de_gpus = ca_selected_gpus c, de_disks = ca_disk_placements c\<rparr>"
    by (auto simp: schedule_def Let_def split: option.splits)
  from pick_last_mem [OF c] obtain h where h: "h \<in> set hosts" "h_healthy h"
    "host_candidate iter us ss rs req ratio h = Some c" by (auto simp: map_filter_mem)
  have "ca_host c = h" using host_candidate_Some [OF h(3)] by simp
  moreover have "ca_score c' \<le> ca_score c"
    if "h' \<in> set hosts" "h_healthy h'" "host_candidate iter us ss rs req ratio h' = Some c'" for h' c'
    using that by (intro pick_last_ge [OF c]) (auto simp: map_filter_mem)
  ultimately show ?thesis using that [OF h] d by simp
qed

lemma select_gpus_sound:
  assumes "select_gpus iter free req = Some (g, sel)" "distinct (map gi_pci_address free)"
  shows "length sel = sr_gpus req \<and> set sel \<subseteq> set free \<and> distinct (map gi_pci_address sel)"
  using assms gpu_topology_score_length [of iter free "sr_gpus req" "sr_min_group_size req"]
    gpu_topology_score_subset [of iter free "sr_gpus req" "sr_min_group_size req"]
    gpu_topology_score_distinct [of gi_pci_address free iter "sr_gpus req" "sr_min_group_size req"]
  by (auto simp: select_gpus_def Let_def split: if_splits)

lemma select_disks_None:
  "select_disks v req = None \<longleftrightarrow>
   sr_storage_disks req \<noteq> [] \<and> pick_disk_placements (sr_cluster_id req) v (sr_storage_disks req) = None"
  by (simp add: select_disks_def)

lemma host_candidate_None:
  "host_candidate iter us ss rs req ratio h = None \<longleftrightarrow>
   \<not> (satisfies (sr_placement req) (h_labels h) \<and> fits (Available_from h (usage_of us h) ratio) req \<and>
      select_gpus iter (free_gpus h (usage_of us h)) req \<noteq> None \<and>
      select_disks (case ss (h_id h) of Some s \<Rightarrow> s | None \<Rightarrow> \<lparr>hs_pools = []\<rparr>) req \<noteq> None)"
  by (auto simp: host_candidate_def Let_def split: option.splits prod.splits)

lemma schedule_Inl:
  "schedule iter hosts us ss rs req ratio = Inl e \<longleftrightarrow>
     (\<forall>h \<in> set hosts. h_healthy h \<longrightarrow> host_candidate iter us ss rs req ratio h = None) \<and>
     e = (if (\<forall>h \<in> set hosts. h_healthy h \<longrightarrow> \<not> satisfies (sr_placement req) (h_labels h)) \<and>
             requires (sr_placement req) \<noteq> []
          then UnsatisfiedRequirements (requires (sr_placement req))
          else NoCapacity (sr_cpu req) (sr_memory_mib req) (sr_rootfs_gib req)
                 (sr_data_gib req) (sr_gpus req) (length (sr_storage_disks req)))"
proof (cases "pick_last ca_score (List.map_filter (host_candidate iter us ss rs req ratio) (filter h_healthy hosts))")
  case None
  then have "\<forall>h \<in> set hosts. h_healthy h \<longrightarrow> host_candidate iter us ss rs req ratio h = None"
    by (auto simp: map_filter_Nil)
  with None show ?thesis by (auto simp: schedule_def Let_def list_ex_iff)
next
  case (Some c)
  then have "\<not> (\<forall>h \<in> set hosts. h_healthy h \<longrightarrow> host_candidate iter us ss rs req ratio h = None)"
    by (fastforce dest!: pick_last_mem simp: map_filter_mem)
  with Some show ?thesis by (simp add: schedule_def Let_def)
qed

text \<open>
  \<open>prefers_score\<close> is compared before \<open>negative_cluster_mates\<close>: a soft label preference always
  wins over spreading the cluster's machines.
\<close>

lemma prefers_outranks_anti_affinity:
  assumes "negative_cluster_replicated_mates s = negative_cluster_replicated_mates t"
    "gpu_score s = gpu_score t" "prefers_score t < prefers_score s"
  shows "t < s"
  using assms by (cases s; cases t) (simp add: less_CandidateScore_def)

subsection \<open>Properties\<close>

text \<open>
  C4.  The disk placement of a host never overcommits a device.  If \<open>pick_disk_placements\<close>
  succeeds on a view whose device keys are unique, for disks of less than \<open>2 ^ 33\<close> GiB, then
  the i-th placement belongs to the i-th disk, names a schedulable device of a pool whose
  labels satisfy that disk's selector, and the sizes of all disks placed on one device sum to
  at most the free bytes the device had.
\<close>

theorem pick_disk_placements_capacity:
  assumes "wf_view view"
    and "\<forall>d \<in> set disks. dk_min_size_gib d < 2 ^ 33"
    and "pick_disk_placements cid view disks = Some ps"
  shows "list_all2 (placement_ok view) disks ps \<and>
    map dp_disk_index ps = map wrap_u32 [0 ..< length disks] \<and>
    (\<forall>pool \<in> set (hs_pools view). \<forall>dev \<in> set (pv_devices pool).
       (pv_name pool, dv_device_id dev) \<in> placement_key ` set ps \<longrightarrow>
       placed_bytes (pv_name pool, dv_device_id dev) ps \<le> dv_free_bytes dev)"
proof -
  let ?acc0 = "\<lparr>da_placements = [], da_this_vm_devices = {}, da_device_free = device_free_init view\<rparr>"
  from assms(3) obtain acc where acc: "place_disks cid view 0 disks ?acc0 = Some acc" and ps: "ps = da_placements acc"
    by (auto simp: pick_disk_placements_def)
  have "acc_inv view acc" by (rule place_disks_acc_inv [OF acc assms(1) acc_inv_init assms(2)])
  then have "placed_bytes (pv_name pool, dv_device_id dev) ps \<le> dv_free_bytes dev"
    if "pool \<in> set (hs_pools view)" "dev \<in> set (pv_devices pool)"
      "(pv_name pool, dv_device_id dev) \<in> placement_key ` set ps" for pool dev
    using that device_free_init_lookup [OF assms(1) that(1,2)] by (auto simp: acc_inv_def ps)
  with place_disks_sound [OF acc] show ?thesis by (auto simp: ps)
qed

definition example_view :: HostStorageView where
  "example_view = \<lparr>hs_pools = [\<lparr>pv_name = ''p'', pv_backend = ''lvm-linear'', pv_labels = [''tier'' \<mapsto> ''fast''],
     pv_schedulable_total_bytes = 0, pv_schedulable_free_bytes = 0,
     pv_devices = [
       \<lparr>dv_device_id = ''d0'', dv_total_bytes = 20 * GIB, dv_free_bytes = 10 * GIB, dv_schedulable = True, dv_replicated_clusters = {}\<rparr>,
       \<lparr>dv_device_id = ''d1'', dv_total_bytes = 20 * GIB, dv_free_bytes = 20 * GIB, dv_schedulable = True, dv_replicated_clusters = {}\<rparr>]\<rparr>]\<rparr>"

definition example_disk :: "nat \<Rightarrow> StorageDisk" where
  "example_disk n = \<lparr>dk_purpose = 1, dk_min_size_gib = n,
     dk_selector = Some \<lparr>requires = [\<lparr>pr_key = ''tier'', pr_values = [''fast'']\<rparr>], prefers = []\<rparr>\<rparr>"

definition example_placement :: "nat \<Rightarrow> string \<Rightarrow> nat \<Rightarrow> DiskPlacement" where
  "example_placement i dev n = \<lparr>dp_disk_index = i, dp_pool = ''p'', dp_device_id = dev, dp_min_size_gib = n, dp_purpose = Replicated\<rparr>"

lemmas disk_eval_simps =
  pick_disk_placements_def device_free_init_def best_device_def consider_device_def disk_candidate_def
  device_avail_def commit_pick_def disk_selector_def satisfies_def score_def backend_tie_breaker_def
  need_bytes_def example_view_def example_disk_def example_placement_def GIB_def Let_def machine_int_simps
  less_DiskScore_def

lemma example_pick:
  "pick_disk_placements ''c'' example_view [example_disk 8, example_disk 8] =
     Some [example_placement 0 ''d0'' 8, example_placement 1 ''d1'' 8]"
  by (simp add: disk_eval_simps)

lemma example_view_wf: "wf_view example_view"
  by (simp add: wf_view_def view_devices_def example_view_def GIB_def i64_min_def i64_max_def)

text \<open>Witness of C4: two 8 GiB disks land on the two devices of an example pool.\<close>

theorem pick_disk_placements_capacity_witness:
  "placed_bytes (''p'', ''d0'') [example_placement 0 ''d0'' 8, example_placement 1 ''d1'' 8] \<le> 10 * GIB"
  using pick_disk_placements_capacity [OF example_view_wf _ example_pick]
  by (simp add: example_view_def example_disk_def example_placement_def placement_key_def)

text \<open>
  C2.  A placement decision is sound: the chosen host is one of the given hosts, healthy,
  satisfies the request's required labels and has room for its CPU, memory, rootfs and data
  sizes; the GPUs handed out are exactly as many as requested, distinct, in that host's
  inventory and not assigned to another machine; the disks are a placement on that host's view.
\<close>

theorem schedule_sound:
  assumes "schedule iter hosts us ss rs req ratio = Inr d"
    and "\<forall>h \<in> set hosts. distinct (map gi_pci_address (h_gpu_inventory h))"
  shows "\<exists>h \<in> set hosts. h_id h = de_host_id d \<and> h_healthy h \<and>
    satisfies (sr_placement req) (h_labels h) \<and>
    fits (Available_from h (usage_of us h) ratio) req \<and>
    length (de_gpus d) = sr_gpus req \<and> distinct (map gi_pci_address (de_gpus d)) \<and>
    set (de_gpus d) \<subseteq> set (h_gpu_inventory h) \<and>
    (\<forall>g \<in> set (de_gpus d). gi_pci_address g \<notin> hu_assigned_pci (usage_of us h)) \<and>
    (if sr_storage_disks req = [] then de_disks d = []
     else pick_disk_placements (sr_cluster_id req)
            (case ss (h_id h) of Some s \<Rightarrow> s | None \<Rightarrow> \<lparr>hs_pools = []\<rparr>) (sr_storage_disks req) = Some (de_disks d))"
proof -
  from assms(1) obtain h c where h: "h \<in> set hosts" "h_healthy h"
    and c: "host_candidate iter us ss rs req ratio h = Some c"
    and d: "de_host_id d = h_id h" "de_gpus d = ca_selected_gpus c" "de_disks d = ca_disk_placements c"
    by (rule schedule_Inr) blast
  note c = host_candidate_Some [OF c]
  from c obtain g where g: "select_gpus iter (free_gpus h (usage_of us h)) req = Some (g, ca_selected_gpus c)" by blast
  have "distinct (map gi_pci_address (free_gpus h (usage_of us h)))"
    using assms(2) h by (simp add: free_gpus_def)
  from select_gpus_sound [OF g this] have gpus: "length (de_gpus d) = sr_gpus req"
    "distinct (map gi_pci_address (de_gpus d))" "set (de_gpus d) \<subseteq> set (free_gpus h (usage_of us h))"
    by (simp_all add: d)
  show ?thesis
    using h c d gpus by (intro bexI [of _ h]) (auto simp: select_disks_def free_gpus_def split: if_splits)
qed

definition example_host :: "string \<Rightarrow> labels \<Rightarrow> GpuInfo list \<Rightarrow> HostRow" where
  "example_host n ls gs = \<lparr>h_id = n, h_hostname = n, h_total_cpu = 16, h_total_memory_mib = 65536,
     h_rootfs_total_bytes = 1000 * GIB, h_rootfs_free_bytes = 1000 * GIB,
     h_rootfs_metadata_total_bytes = 0, h_rootfs_metadata_free_bytes = 0,
     h_data_total_bytes = 1000 * GIB, h_data_free_bytes = 1000 * GIB,
     h_gpu_inventory = gs, h_vtep_address = None, h_last_heartbeat = '''', h_healthy = True,
     h_rank = 0, h_labels = ls\<rparr>"

definition example_gpu :: "string \<Rightarrow> nat \<Rightarrow> GpuInfo" where
  "example_gpu pci g = \<lparr>gi_pci_address = pci, gi_model = '''', gi_iommu_group = '''', gi_nvlink_group = g\<rparr>"

definition example_req :: "nat \<Rightarrow> Placement \<Rightarrow> ScheduleRequest" where
  "example_req n pl = \<lparr>sr_cluster_id = ''c1'', sr_cpu = 4, sr_memory_mib = 8192, sr_rootfs_gib = 100,
     sr_data_gib = 0, sr_gpus = n, sr_min_group_size = n, sr_placement = pl, sr_storage_disks = []\<rparr>"

definition example_hosts :: "HostRow list" where
  "example_hosts =
     [example_host ''h1'' Map.empty [example_gpu ''a'' 7, example_gpu ''b'' 8],
      example_host ''h2'' Map.empty [example_gpu ''a'' 7, example_gpu ''b'' 7]]"

lemma example_avail:
  "Available_from (example_host n ls gs) HostUsage_default (4, 2) =
     \<lparr>av_cpu = 16, av_memory_mib = 65536, av_rootfs_gib = 1000, av_data_gib = 1000\<rparr>"
  by (simp add: Available_from_def example_host_def HostUsage_default_def effective_cpu_def GIB_def machine_int_simps)

lemma example_host_sel:
  "h_id (example_host n ls gs) = n" "h_healthy (example_host n ls gs)" "h_labels (example_host n ls gs) = ls"
  "h_gpu_inventory (example_host n ls gs) = gs" "h_rank (example_host n ls gs) = 0"
  by (simp_all add: example_host_def)

lemma usage_default_sel:
  "hu_assigned_pci HostUsage_default = {}" "hu_vms_by_cluster HostUsage_default = Map.empty"
  by (simp_all add: HostUsage_default_def)

lemmas cand_eval_simps = usage_default_sel
  host_candidate_def satisfies_def score_def usage_of_def fits_def
  remaining_after_def free_gpus_def select_gpus_def select_disks_def gpu_topology_score_def nvlink_keys_def
  nvlink_bucket_def cluster_mates_def replicated_mates_def Placement_default_def example_gpu_def example_req_def
  Let_def wrap_u32_def example_avail example_host_sel

lemma example_schedule:
  "schedule id example_hosts Map.empty Map.empty Map.empty (example_req 2 Placement_default) (4, 2) =
     Inr \<lparr>de_host_id = ''h2'', de_gpus = [example_gpu ''a'' 7, example_gpu ''b'' 7], de_disks = []\<rparr>"
proof -
  have 1: "host_candidate id Map.empty Map.empty Map.empty (example_req 2 Placement_default) (4, 2)
     (example_host ''h1'' Map.empty [example_gpu ''a'' 7, example_gpu ''b'' 8]) = None"
    by (simp add: cand_eval_simps)
  obtain s where 2: "host_candidate id Map.empty Map.empty Map.empty (example_req 2 Placement_default) (4, 2)
     (example_host ''h2'' Map.empty [example_gpu ''a'' 7, example_gpu ''b'' 7]) =
       Some \<lparr>ca_host = example_host ''h2'' Map.empty [example_gpu ''a'' 7, example_gpu ''b'' 7], ca_score = s,
          ca_selected_gpus = [example_gpu ''a'' 7, example_gpu ''b'' 7], ca_disk_placements = []\<rparr>"
    by (simp add: cand_eval_simps)
  show ?thesis
    by (simp add: schedule_def example_hosts_def example_host_sel List.map_filter_simps 1 2 pick_last_def pick_last_step_def)
qed
text \<open>Witness of C2: two hosts, of which only the second has two GPUs in one NVLink group.\<close>

theorem schedule_sound_witness:
  "\<exists>h \<in> set example_hosts. h_id h = ''h2'' \<and> h_healthy h \<and>
     set [example_gpu ''a'' 7, example_gpu ''b'' 7] \<subseteq> set (h_gpu_inventory h)"
  using schedule_sound [OF example_schedule]
  by (simp add: example_hosts_def example_host_def example_gpu_def)


definition example_usage :: HostUsage where
  "example_usage = HostUsage_default\<lparr>hu_used_cpu := 4, hu_used_memory_mib := 8192, hu_used_rootfs_gib := 100,
     hu_vms_by_cluster := [''c1'' \<mapsto> 1]\<rparr>"

definition example_pref :: Placement where
  "example_pref = \<lparr>requires = [], prefers = [\<lparr>pp_key = ''tier'', pp_value = ''fast'', pp_weight = 100\<rparr>]\<rparr>"

definition example_pref_hosts :: "HostRow list" where
  "example_pref_hosts = [example_host ''fast'' [''tier'' \<mapsto> ''fast''] [], example_host ''bulk'' Map.empty []]"

lemma example_usage_avail:
  "Available_from (example_host n ls gs) example_usage (4, 2) =
     \<lparr>av_cpu = 12, av_memory_mib = 57344, av_rootfs_gib = 900, av_data_gib = 1000\<rparr>"
  by (simp add: Available_from_def example_host_def example_usage_def HostUsage_default_def effective_cpu_def
      GIB_def machine_int_simps)

lemma example_usage_sel:
  "hu_assigned_pci example_usage = {}" "hu_vms_by_cluster example_usage = [''c1'' \<mapsto> 1]"
  by (simp_all add: example_usage_def HostUsage_default_def)

lemma example_pref_fast:
  "host_candidate id [''fast'' \<mapsto> example_usage] Map.empty Map.empty (example_req 0 example_pref) (4, 2)
     (example_host ''fast'' [''tier'' \<mapsto> ''fast''] []) =
   Some \<lparr>ca_host = example_host ''fast'' [''tier'' \<mapsto> ''fast''] [],
     ca_score = CandidateScore 0 0 100 (-1) 0 (-49160), ca_selected_gpus = [], ca_disk_placements = []\<rparr>"
  by (simp add: cand_eval_simps example_usage_avail example_usage_sel example_pref_def wrap_i64_def)

lemma example_pref_bulk:
  "host_candidate id [''fast'' \<mapsto> example_usage] Map.empty Map.empty (example_req 0 example_pref) (4, 2)
     (example_host ''bulk'' Map.empty []) =
   Some \<lparr>ca_host = example_host ''bulk'' Map.empty [],
     ca_score = CandidateScore 0 0 0 0 0 (-57356), ca_selected_gpus = [], ca_disk_placements = []\<rparr>"
  by (simp add: cand_eval_simps example_pref_def wrap_i64_def)

lemma example_prefers_schedule:
  "schedule id example_pref_hosts [''fast'' \<mapsto> example_usage] Map.empty Map.empty (example_req 0 example_pref) (4, 2) =
     Inr \<lparr>de_host_id = ''fast'', de_gpus = [], de_disks = []\<rparr>"
  by (simp add: schedule_def example_pref_hosts_def example_host_sel List.map_filter_simps example_pref_fast
      example_pref_bulk pick_last_def pick_last_step_def less_CandidateScore_def)


text \<open>
  C18.  The scheduler fails exactly when no host is feasible, and it names the right cause.  A
  decision exists iff some healthy host satisfies the required labels, fits the request, and
  has the GPUs and the disks; \<open>UnsatisfiedRequirements\<close> is returned iff requirements were
  given and no healthy host satisfies them.
\<close>

theorem schedule_complete:
  "((\<exists>d. schedule iter hosts us ss rs req ratio = Inr d) \<longleftrightarrow>
      (\<exists>h \<in> set hosts. h_healthy h \<and> satisfies (sr_placement req) (h_labels h) \<and>
         fits (Available_from h (usage_of us h) ratio) req \<and>
         select_gpus iter (free_gpus h (usage_of us h)) req \<noteq> None \<and>
         select_disks (case ss (h_id h) of Some s \<Rightarrow> s | None \<Rightarrow> \<lparr>hs_pools = []\<rparr>) req \<noteq> None)) \<and>
   ((\<exists>r. schedule iter hosts us ss rs req ratio = Inl (UnsatisfiedRequirements r)) \<longleftrightarrow>
      requires (sr_placement req) \<noteq> [] \<and>
      \<not> (\<exists>h \<in> set hosts. h_healthy h \<and> satisfies (sr_placement req) (h_labels h)))"
proof -
  have "(\<exists>d. schedule iter hosts us ss rs req ratio = Inr d) \<longleftrightarrow>
        \<not> (\<exists>e. schedule iter hosts us ss rs req ratio = Inl e)"
    by (cases "schedule iter hosts us ss rs req ratio") auto
  then have "(\<exists>d. schedule iter hosts us ss rs req ratio = Inr d) \<longleftrightarrow>
        (\<exists>h \<in> set hosts. h_healthy h \<and> host_candidate iter us ss rs req ratio h \<noteq> None)"
    by (simp only: schedule_Inl) auto
  then have 1: "(\<exists>d. schedule iter hosts us ss rs req ratio = Inr d) \<longleftrightarrow>
      (\<exists>h \<in> set hosts. h_healthy h \<and> satisfies (sr_placement req) (h_labels h) \<and>
         fits (Available_from h (usage_of us h) ratio) req \<and>
         select_gpus iter (free_gpus h (usage_of us h)) req \<noteq> None \<and>
         select_disks (case ss (h_id h) of Some s \<Rightarrow> s | None \<Rightarrow> \<lparr>hs_pools = []\<rparr>) req \<noteq> None)"
    unfolding host_candidate_None by blast
  have "host_candidate iter us ss rs req ratio h = None" if "\<not> satisfies (sr_placement req) (h_labels h)" for h
    using that by (simp add: host_candidate_None)
  then have 2: "(\<exists>r. schedule iter hosts us ss rs req ratio = Inl (UnsatisfiedRequirements r)) \<longleftrightarrow>
      requires (sr_placement req) \<noteq> [] \<and>
      \<not> (\<exists>h \<in> set hosts. h_healthy h \<and> satisfies (sr_placement req) (h_labels h))"
    unfolding schedule_Inl by (auto split: if_splits)
  from 1 2 show ?thesis by (rule conjI)
qed

text \<open>
  C25.  GPU selection honours NVLink.  For a positive count and any iteration order of the
  groups: with a hard group size, GPUs are found iff some non-zero NVLink group has both the
  count and the size free, and then all selected GPUs share one non-zero group; without it the
  score is 3 exactly when a single non-zero group can serve the request.  In both cases the
  score does not depend on the iteration order.
\<close>

theorem gpu_topology_score_nvlink:
  assumes "hash_iteration iter" and "0 < n"
  shows "(0 < m \<longrightarrow>
      (snd (gpu_topology_score iter av n m) \<noteq> [] \<longleftrightarrow>
         (\<exists>g. g \<noteq> 0 \<and> n \<le> length (nvlink_bucket av g) \<and> m \<le> length (nvlink_bucket av g)))) \<and>
    (fst (gpu_topology_score iter av n m) = 3 \<longrightarrow>
       (\<exists>g. g \<noteq> 0 \<and> (\<forall>x \<in> set (snd (gpu_topology_score iter av n m)). gi_nvlink_group x = g))) \<and>
    (fst (gpu_topology_score iter av n 0) = 3 \<longleftrightarrow> (\<exists>g. g \<noteq> 0 \<and> n \<le> length (nvlink_bucket av g))) \<and>
    fst (gpu_topology_score iter av n m) = fst (gpu_topology_score id av n m)"
proof -
  have hard: "snd (gpu_topology_score iter av n m) \<noteq> [] \<longleftrightarrow>
      (\<exists>g. g \<noteq> 0 \<and> n \<le> length (nvlink_bucket av g) \<and> m \<le> length (nvlink_bucket av g))" if "0 < m"
    using gpu_topology_score_hard [OF assms that, of av] assms(2) by (auto split: if_splits)
  have same: "\<exists>g. g \<noteq> 0 \<and> (\<forall>x \<in> set (snd (gpu_topology_score iter av n m)). gi_nvlink_group x = g)"
    if "fst (gpu_topology_score iter av n m) = 3"
  proof -
    from that obtain g where "g \<noteq> 0" "gpu_topology_score iter av n m = (3, take n (nvlink_bucket av g))"
      using gpu_topology_score_hard [OF assms, of m av] gpu_topology_score_soft [OF assms, of av]
      by (cases "m = 0") (auto split: if_splits)
    then show ?thesis by (intro exI [of _ g]) (auto dest: take_bucket_group)
  qed
  have "fst (gpu_topology_score iter av n 0) = 3 \<longleftrightarrow> (\<exists>g. g \<noteq> 0 \<and> n \<le> length (nvlink_bucket av g))"
    "fst (gpu_topology_score iter av n m) = fst (gpu_topology_score id av n m)"
    using gpu_topology_score_fst [OF assms] gpu_topology_score_fst [OF hash_iteration_id assms(2)] by auto
  with hard same show ?thesis by blast
qed

text \<open>Witness of C25: three GPUs, two of them linked.\<close>

theorem gpu_topology_score_nvlink_witness:
  "fst (gpu_topology_score rev [example_gpu ''a'' 0, example_gpu ''b'' 1, example_gpu ''c'' 1] 2 2) = 3 \<and>
   (\<exists>g. g \<noteq> 0 \<and> (\<forall>x \<in> set (snd (gpu_topology_score rev
      [example_gpu ''a'' 0, example_gpu ''b'' 1, example_gpu ''c'' 1] 2 2)). gi_nvlink_group x = g))"
proof -
  have "hash_iteration rev" by (simp add: hash_iteration_def)
  moreover have "fst (gpu_topology_score rev [example_gpu ''a'' 0, example_gpu ''b'' 1, example_gpu ''c'' 1] 2 2) = 3"
    by (simp add: gpu_topology_score_def nvlink_keys_def nvlink_bucket_def example_gpu_def Let_def)
  ultimately show ?thesis
    using gpu_topology_score_nvlink [of rev 2 2 "[example_gpu ''a'' 0, example_gpu ''b'' 1, example_gpu ''c'' 1]"]
    by simp
qed

end
