(* ===== verification/Net_Config.thy ===== *)
theory Net_Config
  imports Ipv4
begin

text \<open>
  The controller's network configuration (\<open>basis-controller/src/config.rs\<close>) and its
  validation.  CIDR fields are the networks their text denotes: parsing the text is the
  \<open>ipnet\<close> crate's, and its failures are not modelled.
\<close>

datatype PoolScope = Lan | Tree

record Pool =
  p_name :: string
  p_cidr :: Ipv4Net
  p_scope :: PoolScope

record VniRange =
  vr_start :: nat
  vr_end :: nat

record NetworkConfig =
  n_cluster_supernet :: Ipv4Net
  n_cluster_prefix :: nat
  n_bridge_reserve :: nat
  n_default_external_service_ips :: nat
  n_vni_range :: VniRange
  n_pools :: "Pool list"

record BgpConfig =
  b_asn :: nat
  b_router_id :: "ipv4 option"

text \<open>The parts of \<open>BasisControllerSpec\<close> that \<open>validate\<close> reads; \<open>cs_ratio\<close> is \<open>None\<close> when not finite.\<close>

record BasisControllerSpec =
  cs_ratio :: "(nat \<times> nat) option"
  cs_network :: NetworkConfig
  cs_bgp :: BgpConfig

datatype ConfigError =
    OvercommitRatio
  | ClusterPrefixRange
  | NoVmCapacity
  | VniRangeInvalid
  | VniTooLarge
  | ServiceIpsNotPowerOfTwo
  | NoPools
  | NoLanPool
  | DuplicatePool string
  | PoolNameEmpty
  | PoolTooNarrow string
  | SupernetOverlap string
  | PoolOverlap string string
  | ServiceBlockTooWide string
  | BgpAsnZero
  | BgpRouterIdInvalid

definition default_cluster_prefix :: nat where "default_cluster_prefix = 24"
definition default_bridge_reserve :: nat where "default_bridge_reserve = 32"
definition default_external_service_ips :: nat where "default_external_service_ips = 16"
definition default_vni_range :: VniRange where
  "default_vni_range = \<lparr>vr_start = 10000, vr_end = 16000000\<rparr>"

definition is_tree :: "Pool \<Rightarrow> bool" where
  "is_tree p \<longleftrightarrow> p_scope p = Tree"

definition pool_by_name :: "NetworkConfig \<Rightarrow> string \<Rightarrow> Pool option" where
  "pool_by_name net name = find (\<lambda>p. p_name p = name) (n_pools net)"

definition Pool_validate :: "Pool \<Rightarrow> (ConfigError, unit) res" where
  "Pool_validate p =
     (if p_name p = '''' then Inl PoolNameEmpty
      else if 31 \<le> net_prefix (p_cidr p) then Inl (PoolTooNarrow (p_name p))
      else Inr ())"

definition service_prefix :: "nat \<Rightarrow> nat" where
  "service_prefix n = 32 - trailing_zeros n"

text \<open>The loop over the pools: \<open>seen\<close> are the pools already accepted, in order.\<close>

fun validate_pools :: "ipnet \<Rightarrow> NetworkConfig \<Rightarrow> Pool list \<Rightarrow> Pool list \<Rightarrow> (ConfigError, unit) res" where
  "validate_pools ip net seen [] = Inr ()"
| "validate_pools ip net seen (pool # pools) =
     (if p_name pool \<in> p_name ` set seen then Inl (DuplicatePool (p_name pool))
      else case Pool_validate pool of
        Inl e \<Rightarrow> Inl e
      | Inr _ \<Rightarrow>
          if cidrs_overlap ip (n_cluster_supernet net) (p_cidr pool) then Inl (SupernetOverlap (p_name pool))
          else (case find (\<lambda>other. cidrs_overlap ip (p_cidr pool) (p_cidr other)) seen of
              Some other \<Rightarrow> Inl (PoolOverlap (p_name pool) (p_name other))
            | None \<Rightarrow>
                if service_prefix (n_default_external_service_ips net) < 32 \<and>
                   service_prefix (n_default_external_service_ips net) < net_prefix (p_cidr pool) + 2
                then Inl (ServiceBlockTooWide (p_name pool))
                else validate_pools ip net (seen @ [pool]) pools))"

text \<open>\<open>saturating_add\<close> on \<open>u32\<close>; a shift by 32 is a shift by 0.\<close>

definition addrs_per_cluster :: "nat \<Rightarrow> nat" where
  "addrs_per_cluster prefix = 2 ^ ((32 - prefix) mod 32)"

definition NetworkConfig_validate :: "ipnet \<Rightarrow> NetworkConfig \<Rightarrow> (ConfigError, unit) res" where
  "NetworkConfig_validate ip net =
     (if n_cluster_prefix net < net_prefix (n_cluster_supernet net) \<or> 30 < n_cluster_prefix net
      then Inl ClusterPrefixRange
      else if addrs_per_cluster (n_cluster_prefix net) \<le> min u32_max (n_bridge_reserve net + 2)
      then Inl NoVmCapacity
      else if vr_start (n_vni_range net) = 0 \<or> vr_end (n_vni_range net) < vr_start (n_vni_range net)
      then Inl VniRangeInvalid
      else if 2 ^ 24 \<le> vr_end (n_vni_range net) then Inl VniTooLarge
      else if \<not> is_power_of_two (n_default_external_service_ips net) then Inl ServiceIpsNotPowerOfTwo
      else if n_pools net = [] then Inl NoPools
      else if list_all is_tree (n_pools net) then Inl NoLanPool
      else validate_pools ip net [] (n_pools net))"

definition BgpConfig_validate :: "BgpConfig \<Rightarrow> (ConfigError, unit) res" where
  "BgpConfig_validate b =
     (if b_asn b = 0 then Inl BgpAsnZero
      else case b_router_id b of None \<Rightarrow> Inl BgpRouterIdInvalid | Some _ \<Rightarrow> Inr ())"

definition BasisControllerSpec_validate :: "ipnet \<Rightarrow> BasisControllerSpec \<Rightarrow> (ConfigError, unit) res" where
  "BasisControllerSpec_validate ip cs =
     (case cs_ratio cs of
        None \<Rightarrow> Inl OvercommitRatio
      | Some (m, k) \<Rightarrow>
          if m < 2 ^ k then Inl OvercommitRatio
          else and_then (NetworkConfig_validate ip (cs_network cs)) (\<lambda>_. BgpConfig_validate (cs_bgp cs)))"

subsection \<open>What a validated configuration guarantees\<close>

definition wf_config :: "NetworkConfig \<Rightarrow> bool" where
  "wf_config net \<longleftrightarrow> wf_net (n_cluster_supernet net) \<and> (\<forall>p \<in> set (n_pools net). wf_net (p_cidr p)) \<and>
     n_default_external_service_ips net \<le> u32_max"

definition pool_valid :: "ipnet \<Rightarrow> NetworkConfig \<Rightarrow> Pool \<Rightarrow> bool" where
  "pool_valid ip net p \<longleftrightarrow> p_name p \<noteq> '''' \<and> net_prefix (p_cidr p) < 31 \<and>
     \<not> cidrs_overlap ip (n_cluster_supernet net) (p_cidr p) \<and>
     (service_prefix (n_default_external_service_ips net) < 32 \<longrightarrow>
        net_prefix (p_cidr p) + 2 \<le> service_prefix (n_default_external_service_ips net))"

lemma validate_pools_Inr:
  "validate_pools ip net seen pools = Inr u \<Longrightarrow>
     (\<forall>p \<in> set pools. pool_valid ip net p) \<and> distinct (map p_name pools) \<and>
     p_name ` set seen \<inter> p_name ` set pools = {} \<and>
     pairwise (\<lambda>p q. \<not> cidrs_overlap ip (p_cidr p) (p_cidr q)) (set pools) \<and>
     (\<forall>p \<in> set pools. \<forall>q \<in> set seen. \<not> cidrs_overlap ip (p_cidr p) (p_cidr q))"
proof (induction pools arbitrary: seen)
  case Nil
  then show ?case by simp
next
  case (Cons pool pools)
  have nm: "p_name pool \<notin> p_name ` set seen" using Cons.prems by (auto split: if_splits)
  have pv: "Pool_validate pool = Inr ()" using Cons.prems nm by (cases "Pool_validate pool") simp_all
  have sn: "\<not> cidrs_overlap ip (n_cluster_supernet net) (p_cidr pool)"
    using Cons.prems nm pv by (auto split: if_splits)
  have no: "find (\<lambda>other. cidrs_overlap ip (p_cidr pool) (p_cidr other)) seen = None"
    using Cons.prems nm pv sn by (auto split: option.splits)
  have rec: "validate_pools ip net (seen @ [pool]) pools = Inr u" and
    sp: "service_prefix (n_default_external_service_ips net) < 32 \<Longrightarrow>
      net_prefix (p_cidr pool) + 2 \<le> service_prefix (n_default_external_service_ips net)"
    using Cons.prems nm pv sn no by (auto split: if_splits)
  have valid: "pool_valid ip net pool"
    using pv sn sp by (auto simp: pool_valid_def Pool_validate_def split: if_splits)
  note ih = Cons.IH [OF rec]
  have "\<not> cidrs_overlap ip (p_cidr pool) (p_cidr q)" if "q \<in> set pools" for q
    using ih that by (subst cidrs_overlap_sym) auto
  then have "pairwise (\<lambda>p q. \<not> cidrs_overlap ip (p_cidr p) (p_cidr q)) (set (pool # pools))"
    using ih by (auto simp: pairwise_insert)
  with ih valid nm no show ?case by (auto simp: find_None_iff)
qed

lemma addrs_per_cluster_le: "addrs_per_cluster x \<le> u32_max"
proof -
  have "(2::nat) ^ ((32 - x) mod 32) \<le> 2 ^ 31" by (rule power_increasing) auto
  then show ?thesis unfolding addrs_per_cluster_def u32_max_def by (rule order_trans) simp
qed

text \<open>The validated facts, one per branch of \<open>validate\<close>.\<close>

lemma NetworkConfig_validate_Inr:
  assumes "NetworkConfig_validate ip net = Inr u"
  shows "net_prefix (n_cluster_supernet net) \<le> n_cluster_prefix net \<and> n_cluster_prefix net \<le> 30 \<and>
    n_bridge_reserve net + 2 < addrs_per_cluster (n_cluster_prefix net) \<and>
    0 < vr_start (n_vni_range net) \<and> vr_start (n_vni_range net) \<le> vr_end (n_vni_range net) \<and>
    vr_end (n_vni_range net) < 2 ^ 24 \<and>
    is_power_of_two (n_default_external_service_ips net) \<and>
    (\<exists>p \<in> set (n_pools net). \<not> is_tree p) \<and>
    (\<forall>p \<in> set (n_pools net). pool_valid ip net p) \<and> distinct (map p_name (n_pools net)) \<and>
    pairwise (\<lambda>p q. \<not> cidrs_overlap ip (p_cidr p) (p_cidr q)) (set (n_pools net))"
proof -
  note split_ifs = assms [unfolded NetworkConfig_validate_def]
  have 1: "\<not> (n_cluster_prefix net < net_prefix (n_cluster_supernet net) \<or> 30 < n_cluster_prefix net)"
    using split_ifs by (rule contrapos_pn) simp
  note split_ifs = split_ifs [unfolded if_not_P [OF 1]]
  have 2: "\<not> addrs_per_cluster (n_cluster_prefix net) \<le> min u32_max (n_bridge_reserve net + 2)"
    using split_ifs by (rule contrapos_pn) simp
  note split_ifs = split_ifs [unfolded if_not_P [OF 2]]
  have 3: "\<not> (vr_start (n_vni_range net) = 0 \<or> vr_end (n_vni_range net) < vr_start (n_vni_range net))"
    using split_ifs by (rule contrapos_pn) simp
  note split_ifs = split_ifs [unfolded if_not_P [OF 3]]
  have 4: "\<not> 2 ^ 24 \<le> vr_end (n_vni_range net)"
    using split_ifs by (rule contrapos_pn) (simp only: if_True sum.distinct not_False_eq_True)
  note split_ifs = split_ifs [unfolded if_not_P [OF 4]]
  have p: "validate_pools ip net [] (n_pools net) = Inr u"
    and 5: "is_power_of_two (n_default_external_service_ips net)" "\<not> list_all is_tree (n_pools net)"
    using split_ifs by (auto split: if_splits)
  have "n_bridge_reserve net + 2 < addrs_per_cluster (n_cluster_prefix net)"
    using 2 addrs_per_cluster_le [of "n_cluster_prefix net"] by linarith
  moreover have "vr_end (n_vni_range net) < 2 ^ 24" using 4 by (simp only: not_le)
  moreover have "\<exists>p \<in> set (n_pools net). \<not> is_tree p" using 5(2) by (simp add: list_all_iff)
  moreover note validate_pools_Inr [OF p]
  ultimately show ?thesis using 1 3 5(1) by (simp only: not_less de_Morgan_disj neq0_conv) simp
qed

lemma addrs_per_cluster_eq: "0 < p \<Longrightarrow> p \<le> 32 \<Longrightarrow> addrs_per_cluster p = 2 ^ (32 - p)"
  by (simp add: addrs_per_cluster_def)

end
