(* ===== verification/Db_State.thy ===== *)
theory Db_State
  imports Scheduler Net_Config
begin

text \<open>
  The controller's SQLite database (\<open>basis-controller/src/db.rs\<close>) as a record of tables, each a
  list of rows in insertion order.  The schema's \<open>PRIMARY KEY\<close>, \<open>UNIQUE\<close>, \<open>REFERENCES\<close> and
  \<open>CHECK\<close> clauses are collected in \<open>db_schema\<close>; an \<open>INSERT\<close> that would violate one returns an
  error and changes nothing.  A statement or transaction is one function: it returns the error,
  or its result with the new database.  Errors carry the identifier their message prints.
\<close>

subsection \<open>Tables\<close>

record HostClusterRow =
  hc_cluster_id :: string
  hc_host_id :: string
  hc_ip_address :: ipv4
  hc_state :: int

record IpAllocationRow =
  ia_ip_address :: ipv4
  ia_scope :: string
  ia_vm_id :: "string option"
  ia_cluster_id :: "string option"

record PoolDiskAssignmentRow =
  pa_assignment_id :: string
  pa_host_id :: string
  pa_pool :: string
  pa_device_id :: string
  pa_vm_id :: string
  pa_disk_index :: int
  pa_cluster_id :: string
  pa_purpose :: string
  pa_min_size_gib :: int
  pa_actual_size_gib :: "int option"
  pa_state :: string

record PendingCommandRow =
  pc_id :: nat
  pc_host_id :: string
  pc_vm_id :: string
  pc_payload :: "nat list"
  pc_state :: string

record LanVipOwnerRow =
  lo_cluster_id :: string
  lo_host_id :: string

record db =
  hosts :: "HostRow list"
  clusters :: "ClusterRow list"
  host_clusters :: "HostClusterRow list"
  vms :: "VmRow list"
  vm_gpus :: "GpuAssignment list"
  ip_allocations :: "IpAllocationRow list"
  host_pools :: "HostPoolRow list"
  host_pool_devices :: "HostPoolDeviceRow list"
  pool_disk_assignment :: "PoolDiskAssignmentRow list"
  device_scheduling_state :: "DeviceSchedulingStateRow list"
  pending_command :: "PendingCommandRow list"
  cluster_lan_vip_owner :: "LanVipOwnerRow list"
  next_command_id :: nat
  cpu_overcommit_ratio :: f32

definition empty_db :: "f32 \<Rightarrow> db" where
  "empty_db ratio = \<lparr>hosts = [], clusters = [], host_clusters = [], vms = [], vm_gpus = [],
     ip_allocations = [], host_pools = [], host_pool_devices = [], pool_disk_assignment = [],
     device_scheduling_state = [], pending_command = [], cluster_lan_vip_owner = [],
     next_command_id = 1, cpu_overcommit_ratio = ratio\<rparr>"

text \<open>Errors.  \<open>Sqlx\<close> carries which kind of constraint the statement violated.\<close>

datatype sql_error = ForeignKey | Unique | Check

datatype DbError =
    Sqlx sql_error
  | NotFound string
  | Conflict string
  | Exhausted string
  | HostUnavailable string
  | CapacityRaced string
  | AllocationRaced string
  | Malformed string

subsection \<open>The schema\<close>

text \<open>Keys: every \<open>PRIMARY KEY\<close> and \<open>UNIQUE\<close> clause of \<open>migrate\<close>.\<close>

definition db_keys :: "db \<Rightarrow> bool" where
  "db_keys d \<longleftrightarrow>
     distinct (map h_id (hosts d)) \<and> distinct (map h_hostname (hosts d)) \<and>
     distinct (map c_id (clusters d)) \<and> distinct (map c_name (clusters d)) \<and> distinct (map c_vni (clusters d)) \<and>
     distinct (map (\<lambda>r. (hc_cluster_id r, hc_host_id r)) (host_clusters d)) \<and>
     distinct (map (\<lambda>r. (hc_cluster_id r, hc_ip_address r)) (host_clusters d)) \<and>
     distinct (map vm_id (vms d)) \<and> distinct (map (\<lambda>r. (vm_cluster_id r, vm_name r)) (vms d)) \<and>
     distinct (map (\<lambda>r. (ga_vm_id r, ga_pci_address r)) (vm_gpus d)) \<and>
     distinct (map (\<lambda>r. (ga_host_id r, ga_pci_address r)) (vm_gpus d)) \<and>
     distinct (map ia_ip_address (ip_allocations d)) \<and>
     distinct (map pa_assignment_id (pool_disk_assignment d)) \<and>
     distinct (map (\<lambda>r. (pa_vm_id r, pa_disk_index r)) (pool_disk_assignment d)) \<and>
     distinct (map lo_cluster_id (cluster_lan_vip_owner d)) \<and>
     distinct (map (\<lambda>r. (hp_host_id r, hp_pool r)) (host_pools d)) \<and>
     distinct (map (\<lambda>r. (hd_host_id r, hd_pool r, hd_device_id r)) (host_pool_devices d)) \<and>
     distinct (map (\<lambda>r. (ds_host_id r, ds_pool r, ds_device_id r)) (device_scheduling_state d)) \<and>
     distinct (map pc_id (pending_command d)) \<and> (\<forall>r \<in> set (pending_command d). pc_id r < next_command_id d)"

text \<open>References: every \<open>REFERENCES\<close> clause, and the \<open>CHECK\<close> on \<open>ip_allocations\<close>.\<close>

definition db_refs :: "db \<Rightarrow> bool" where
  "db_refs d \<longleftrightarrow>
     (\<forall>r \<in> set (host_clusters d). hc_cluster_id r \<in> c_id ` set (clusters d) \<and> hc_host_id r \<in> h_id ` set (hosts d)) \<and>
     (\<forall>r \<in> set (vms d). vm_cluster_id r \<in> c_id ` set (clusters d) \<and> vm_host_id r \<in> h_id ` set (hosts d)) \<and>
     (\<forall>r \<in> set (vm_gpus d). ga_vm_id r \<in> vm_id ` set (vms d)) \<and>
     (\<forall>r \<in> set (cluster_lan_vip_owner d). lo_cluster_id r \<in> c_id ` set (clusters d)) \<and>
     (\<forall>r \<in> set (host_pools d). hp_host_id r \<in> h_id ` set (hosts d)) \<and>
     (\<forall>r \<in> set (host_pool_devices d). (hd_host_id r, hd_pool r) \<in> (\<lambda>p. (hp_host_id p, hp_pool p)) ` set (host_pools d)) \<and>
     (\<forall>r \<in> set (ip_allocations d). (ia_vm_id r = None) \<noteq> (ia_cluster_id r = None))"

definition db_schema :: "db \<Rightarrow> bool" where
  "db_schema d \<longleftrightarrow> db_keys d \<and> db_refs d"

subsection \<open>Machine states\<close>

definition STATE_PENDING :: int where "STATE_PENDING = 0"
definition STATE_CREATING :: int where "STATE_CREATING = 1"
definition STATE_RUNNING :: int where "STATE_RUNNING = 2"
definition STATE_STOPPED :: int where "STATE_STOPPED = 4"
definition STATE_FAILED :: int where "STATE_FAILED = 5"
definition VM_STATE_PENDING_TEARDOWN :: int where "VM_STATE_PENDING_TEARDOWN = 6"

lemmas machine_state_defs =
  STATE_PENDING_def STATE_CREATING_def STATE_RUNNING_def STATE_STOPPED_def STATE_FAILED_def
  VM_STATE_PENDING_TEARDOWN_def

subsection \<open>Clusters\<close>

definition get_cluster :: "db \<Rightarrow> string \<Rightarrow> (DbError, ClusterRow) res" where
  "get_cluster d i = (case find (\<lambda>c. c_id c = i) (clusters d) of Some c \<Rightarrow> Inr c | None \<Rightarrow> Inl (NotFound i))"

definition get_cluster_by_name :: "db \<Rightarrow> string \<Rightarrow> ClusterRow option" where
  "get_cluster_by_name d name = find (\<lambda>c. c_name c = name) (clusters d)"

text \<open>
  A unique violation on \<open>clusters.vni\<close> is an allocation race, one on the id or the name a
  conflict.  SQLite checks the unique indexes from the last declared to the first, so the
  message names \<open>clusters.vni\<close> whenever the VNI is taken.
\<close>

definition insert_cluster :: "db \<Rightarrow> ClusterRow \<Rightarrow> (DbError, db) res" where
  "insert_cluster d c =
     (if c_vni c \<in> c_vni ` set (clusters d) then Inl (AllocationRaced (c_id c))
      else if c_id c \<in> c_id ` set (clusters d) \<or> c_name c \<in> c_name ` set (clusters d)
      then Inl (Conflict (c_name c))
      else Inr (d\<lparr>clusters := clusters d @ [c]\<rparr>))"

definition update_cluster_trust_domain :: "db \<Rightarrow> string \<Rightarrow> string \<Rightarrow> db" where
  "update_cluster_trust_domain d i td =
     d\<lparr>clusters := upd_rows (\<lambda>c. c_id c = i) (\<lambda>c. c\<lparr>c_trust_domain := td\<rparr>) (clusters d)\<rparr>"

text \<open>\<open>DELETE FROM clusters\<close>: refused while a host or a machine references the row; the LAN owner cascades.\<close>

definition delete_cluster :: "db \<Rightarrow> string \<Rightarrow> (DbError, db) res" where
  "delete_cluster d i =
     (if i \<in> c_id ` set (clusters d) \<and>
         (i \<in> hc_cluster_id ` set (host_clusters d) \<or> i \<in> vm_cluster_id ` set (vms d))
      then Inl (Sqlx ForeignKey)
      else Inr (d\<lparr>clusters := del_rows (\<lambda>c. c_id c = i) (clusters d),
                  cluster_lan_vip_owner := del_rows (\<lambda>r. lo_cluster_id r = i) (cluster_lan_vip_owner d)\<rparr>))"

definition list_cluster_vteps :: "db \<Rightarrow> string \<Rightarrow> ipv4 list" where
  "list_cluster_vteps d cid =
     dedup (concat (map (\<lambda>hc. if hc_cluster_id hc = cid \<and> hc_state hc = 0
        then List.map_filter (\<lambda>h. if h_id h = hc_host_id hc then h_vtep_address h else None) (hosts d)
        else []) (host_clusters d)))"

definition list_hosts_in_cluster :: "db \<Rightarrow> string \<Rightarrow> string list" where
  "list_hosts_in_cluster d cid = dedup (map vm_host_id (filter (\<lambda>v. vm_cluster_id v = cid) (vms d)))"

text \<open>Active carriers: an ACTIVE row joined with a healthy host, ordered by host id.\<close>

definition list_active_carriers :: "db \<Rightarrow> string \<Rightarrow> string list" where
  "list_active_carriers d cid =
     sort (map hc_host_id (filter (\<lambda>hc. hc_cluster_id hc = cid \<and> hc_state hc = 0 \<and>
        list_ex (\<lambda>h. h_id h = hc_host_id hc \<and> h_healthy h) (hosts d)) (host_clusters d)))"

text \<open>\<open>INSERT OR REPLACE\<close> of the first carrier; without carriers nothing is written.\<close>

definition replace_lan_vip_owner :: "db \<Rightarrow> string \<Rightarrow> string list \<Rightarrow> (DbError, string \<times> db) res" where
  "replace_lan_vip_owner d cid carriers =
     (case carriers of
        [] \<Rightarrow> Inr ('''', d)
      | h # _ \<Rightarrow> if cid \<in> c_id ` set (clusters d)
          then Inr (h, d\<lparr>cluster_lan_vip_owner := del_rows (\<lambda>r. lo_cluster_id r = cid) (cluster_lan_vip_owner d)
                 @ [\<lparr>lo_cluster_id = cid, lo_host_id = h\<rparr>]\<rparr>)
          else Inl (Sqlx ForeignKey))"

definition elect_lan_vip_owner :: "db \<Rightarrow> string \<Rightarrow> string list \<Rightarrow> (DbError, string \<times> db) res" where
  "elect_lan_vip_owner d cid carriers =
     (case find (\<lambda>r. lo_cluster_id r = cid) (cluster_lan_vip_owner d) of
        Some r \<Rightarrow> if lo_host_id r \<in> set carriers then Inr (lo_host_id r, d)
                  else replace_lan_vip_owner d cid carriers
      | None \<Rightarrow> replace_lan_vip_owner d cid carriers)"

subsection \<open>Membership of hosts in clusters and its tombstones\<close>

definition mark_host_cluster_pending_teardown :: "db \<Rightarrow> string \<Rightarrow> string \<Rightarrow> db" where
  "mark_host_cluster_pending_teardown d cid hid =
     d\<lparr>host_clusters := upd_rows (\<lambda>r. hc_cluster_id r = cid \<and> hc_host_id r = hid \<and>
         \<not> list_ex (\<lambda>v. vm_host_id v = hid \<and> vm_cluster_id v = cid \<and> vm_state v \<noteq> VM_STATE_PENDING_TEARDOWN) (vms d))
       (\<lambda>r. r\<lparr>hc_state := 1\<rparr>) (host_clusters d)\<rparr>"

definition mark_cluster_pending_teardown_all_hosts :: "db \<Rightarrow> string \<Rightarrow> string list \<times> db" where
  "mark_cluster_pending_teardown_all_hosts d cid =
     (map hc_host_id (filter (\<lambda>r. hc_cluster_id r = cid) (host_clusters d)),
      d\<lparr>host_clusters := upd_rows (\<lambda>r. hc_cluster_id r = cid) (\<lambda>r. r\<lparr>hc_state := 1\<rparr>) (host_clusters d)\<rparr>)"

definition list_active_host_clusters :: "db \<Rightarrow> string \<Rightarrow> (ClusterRow \<times> ipv4) list" where
  "list_active_host_clusters d hid =
     concat (map (\<lambda>c. map (\<lambda>hc. (c, hc_ip_address hc))
        (filter (\<lambda>hc. hc_cluster_id hc = c_id c \<and> hc_host_id hc = hid \<and> hc_state hc = 0) (host_clusters d)))
      (clusters d))"

definition list_pending_cluster_tombstones :: "db \<Rightarrow> string \<Rightarrow> (string \<times> int \<times> Ipv4Net) list" where
  "list_pending_cluster_tombstones d hid =
     concat (map (\<lambda>c. map (\<lambda>hc. (c_id c, c_vni c, c_cidr c))
        (filter (\<lambda>hc. hc_cluster_id hc = c_id c \<and> hc_host_id hc = hid \<and> hc_state hc = 1) (host_clusters d)))
      (clusters d))"

subsection \<open>Hosts\<close>

definition upsert_host :: "db \<Rightarrow> HostRow \<Rightarrow> (DbError, db) res" where
  "upsert_host d h =
     (if list_ex (\<lambda>r. h_hostname r = h_hostname h \<and> h_id r \<noteq> h_id h) (hosts d) then Inl (Sqlx Unique)
      else if list_ex (\<lambda>r. h_id r = h_id h) (hosts d)
      then Inr (d\<lparr>hosts := upd_rows (\<lambda>r. h_id r = h_id h) (\<lambda>_. h) (hosts d)\<rparr>)
      else Inr (d\<lparr>hosts := hosts d @ [h]\<rparr>))"

definition get_host :: "db \<Rightarrow> string \<Rightarrow> (DbError, HostRow) res" where
  "get_host d i = (case find (\<lambda>h. h_id h = i) (hosts d) of Some h \<Rightarrow> Inr h | None \<Rightarrow> Inl (NotFound i))"

definition get_host_by_hostname :: "db \<Rightarrow> string \<Rightarrow> HostRow option" where
  "get_host_by_hostname d n = find (\<lambda>h. h_hostname h = n) (hosts d)"

definition list_healthy_hosts :: "db \<Rightarrow> HostRow list" where
  "list_healthy_hosts d = filter h_healthy (hosts d)"

definition mark_host_unhealthy :: "db \<Rightarrow> string \<Rightarrow> db" where
  "mark_host_unhealthy d i = d\<lparr>hosts := upd_rows (\<lambda>h. h_id h = i) (\<lambda>h. h\<lparr>h_healthy := False\<rparr>) (hosts d)\<rparr>"

definition mark_stale_hosts_unhealthy :: "db \<Rightarrow> string \<Rightarrow> string list \<times> db" where
  "mark_stale_hosts_unhealthy d cutoff =
     (map h_id (filter (\<lambda>h. h_healthy h \<and> h_last_heartbeat h < cutoff) (hosts d)),
      d\<lparr>hosts := upd_rows (\<lambda>h. h_healthy h \<and> h_last_heartbeat h < cutoff) (\<lambda>h. h\<lparr>h_healthy := False\<rparr>) (hosts d)\<rparr>)"

record StorageCapacityBytes =
  sc_rootfs_total_bytes :: int
  sc_rootfs_free_bytes :: int
  sc_rootfs_metadata_total_bytes :: int
  sc_rootfs_metadata_free_bytes :: int
  sc_data_total_bytes :: int
  sc_data_free_bytes :: int

text \<open>The wire messages a heartbeat carries.\<close>

record PoolDeviceCapacity =
  pd_device_id :: string
  pd_total_bytes :: nat
  pd_free_bytes :: nat
  pd_physical :: int
  pd_physical_reason :: string

record PoolCapacity =
  pl_pool :: string
  pl_backend :: string
  pl_labels :: labels
  pl_configured_total_bytes :: nat
  pl_ready_total_bytes :: nat
  pl_schedulable_total_bytes :: nat
  pl_schedulable_free_bytes :: nat
  pl_devices :: "PoolDeviceCapacity list"

record RootfsCapacity =
  rc_total_bytes :: nat
  rc_free_bytes :: nat
  rc_metadata_total_bytes :: nat
  rc_metadata_free_bytes :: nat

record StorageCapacity =
  st_rootfs :: "RootfsCapacity option"
  st_pools :: "PoolCapacity list"

definition StorageCapacityBytes_from_proto :: "StorageCapacity \<Rightarrow> StorageCapacityBytes" where
  "StorageCapacityBytes_from_proto c =
     (let rootfs = (\<lambda>f. case st_rootfs c of Some r \<Rightarrow> as_i64 (f r) | None \<Rightarrow> 0) in \<lparr>
        sc_rootfs_total_bytes = rootfs rc_total_bytes,
        sc_rootfs_free_bytes = rootfs rc_free_bytes,
        sc_rootfs_metadata_total_bytes = rootfs rc_metadata_total_bytes,
        sc_rootfs_metadata_free_bytes = rootfs rc_metadata_free_bytes,
        sc_data_total_bytes = as_i64 (wrap_u64 (sum_list (map pl_schedulable_total_bytes (st_pools c)))),
        sc_data_free_bytes = as_i64 (wrap_u64 (sum_list (map pl_schedulable_free_bytes (st_pools c))))\<rparr>)"

definition pool_row :: "string \<Rightarrow> PoolCapacity \<Rightarrow> HostPoolRow" where
  "pool_row hid p = \<lparr>hp_host_id = hid, hp_pool = pl_pool p, hp_backend = pl_backend p, hp_labels = pl_labels p,
     hp_configured_total_bytes = as_i64 (pl_configured_total_bytes p),
     hp_ready_total_bytes = as_i64 (pl_ready_total_bytes p),
     hp_schedulable_total_bytes = as_i64 (pl_schedulable_total_bytes p),
     hp_schedulable_free_bytes = as_i64 (pl_schedulable_free_bytes p)\<rparr>"

definition device_row :: "string \<Rightarrow> PoolCapacity \<Rightarrow> PoolDeviceCapacity \<Rightarrow> HostPoolDeviceRow" where
  "device_row hid p dev = \<lparr>hd_host_id = hid, hd_pool = pl_pool p, hd_device_id = pd_device_id dev,
     hd_total_bytes = as_i64 (pd_total_bytes dev), hd_free_bytes = as_i64 (pd_free_bytes dev),
     hd_physical = physical_health_str (pd_physical dev), hd_physical_reason = pd_physical_reason dev\<rparr>"

text \<open>
  \<open>record_heartbeat\<close>: one transaction.  A heartbeat that lists a pool or a device of a pool
  twice violates the primary key of \<open>host_pools\<close> or \<open>host_pool_devices\<close> and is rolled back.
\<close>

definition record_heartbeat ::
  "db \<Rightarrow> string \<Rightarrow> string \<Rightarrow> StorageCapacityBytes \<Rightarrow> PoolCapacity list \<Rightarrow> (DbError, db) res" where
  "record_heartbeat d hid now cap pools =
     (if \<not> list_ex (\<lambda>h. h_id h = hid) (hosts d) then Inl (NotFound hid)
      else if \<not> distinct (map pl_pool pools) \<or> list_ex (\<lambda>p. \<not> distinct (map pd_device_id (pl_devices p))) pools
      then Inl (Sqlx Unique)
      else Inr (d\<lparr>
        hosts := upd_rows (\<lambda>h. h_id h = hid) (\<lambda>h. h\<lparr>
            h_last_heartbeat := now, h_healthy := True,
            h_rootfs_total_bytes := sc_rootfs_total_bytes cap,
            h_rootfs_free_bytes := sc_rootfs_free_bytes cap,
            h_rootfs_metadata_total_bytes := sc_rootfs_metadata_total_bytes cap,
            h_rootfs_metadata_free_bytes := sc_rootfs_metadata_free_bytes cap,
            h_data_total_bytes := sc_data_total_bytes cap,
            h_data_free_bytes := sc_data_free_bytes cap\<rparr>) (hosts d),
        host_pools := del_rows (\<lambda>r. hp_host_id r = hid) (host_pools d) @ map (pool_row hid) pools,
        host_pool_devices := del_rows (\<lambda>r. hd_host_id r = hid) (host_pool_devices d) @
           concat (map (\<lambda>p. map (device_row hid p) (pl_devices p)) pools)\<rparr>))"

end
