(* ===== verification/Db_Ipam.thy ===== *)
theory Db_Ipam
  imports Db_State
begin

text \<open>
  Address management of \<open>basis-controller/src/db.rs\<close>: carving a cluster's VNI and network,
  the find-next-free allocators over \<open>ip_allocations\<close>, the aligned Service block, the per-host
  bridge addresses and the releases.  Each allocator is one transaction on the single writer
  connection.
\<close>

subsection \<open>Ranges and cluster networks\<close>

record ParsedRange =
  r_start :: ipv4
  r_end :: ipv4

definition parse_pool_range :: "ipnet \<Rightarrow> Pool \<Rightarrow> ParsedRange" where
  "parse_pool_range ip pool =
     \<lparr>r_start = wrap_u32 (network ip (p_cidr pool) + 1), r_end = broadcast ip (p_cidr pool) - 1\<rparr>"

record ClusterNetwork =
  cn_vni :: nat
  cn_cidr :: Ipv4Net
  cn_prefix_len :: nat
  cn_bridge_start :: ipv4
  cn_bridge_end :: ipv4
  cn_vm_start :: ipv4
  cn_vm_end :: ipv4

definition carve :: "ipnet \<Rightarrow> nat \<Rightarrow> Ipv4Net \<Rightarrow> nat \<Rightarrow> nat \<Rightarrow> ClusterNetwork" where
  "carve ip vni cidr prefix_len bridge_reserve =
     (let net = network ip cidr;
          bcast = broadcast ip cidr;
          bridge_start = wrap_u32 (net + 1);
          bridge_end = wrap_u32 (net + bridge_reserve);
          vm_start = wrap_u32 (bridge_end + 1);
          vm_end = bcast - 1 in
      \<lparr>cn_vni = vni, cn_cidr = cidr, cn_prefix_len = prefix_len, cn_bridge_start = bridge_start,
       cn_bridge_end = bridge_end, cn_vm_start = vm_start, cn_vm_end = vm_end\<rparr>)"

definition private_apiserver_ip :: "ipnet \<Rightarrow> ClusterNetwork \<Rightarrow> ipv4" where
  "private_apiserver_ip ip n = broadcast ip (cn_cidr n) - 1"

record ClusterIdentity =
  ci_id :: string
  ci_name :: string
  ci_control_plane_endpoint :: ipv4
  ci_apiserver_visibility :: int
  ci_external_pool :: string
  ci_service_block_cidr :: "Ipv4Net option"
  ci_trust_domain :: string
  ci_created_at :: string

definition from_network :: "ClusterIdentity \<Rightarrow> ClusterNetwork \<Rightarrow> ClusterRow" where
  "from_network i n = \<lparr>c_id = ci_id i, c_name = ci_name i, c_vni = int (cn_vni n), c_cidr = cn_cidr n,
     c_bridge_range_start = cn_bridge_start n, c_bridge_range_end = cn_bridge_end n,
     c_vm_range_start = cn_vm_start n, c_vm_range_end = cn_vm_end n, c_prefix_len = int (cn_prefix_len n),
     c_control_plane_endpoint = ci_control_plane_endpoint i, c_apiserver_visibility = ci_apiserver_visibility i,
     c_external_pool = ci_external_pool i, c_service_block_cidr = ci_service_block_cidr i,
     c_trust_domain = ci_trust_domain i, c_created_at = ci_created_at i\<rparr>"

definition is_apiserver_public :: "ClusterRow \<Rightarrow> bool" where
  "is_apiserver_public c \<longleftrightarrow> c_apiserver_visibility c = 0"

definition bridge_range :: "ClusterRow \<Rightarrow> ParsedRange" where
  "bridge_range c = \<lparr>r_start = c_bridge_range_start c, r_end = c_bridge_range_end c\<rparr>"

definition vm_range :: "ClusterRow \<Rightarrow> ParsedRange" where
  "vm_range c = \<lparr>r_start = c_vm_range_start c, r_end = c_vm_range_end c\<rparr>"

definition allocate_cluster_network :: "ipnet \<Rightarrow> db \<Rightarrow> NetworkConfig \<Rightarrow> (DbError, ClusterNetwork) res" where
  "allocate_cluster_network ip d net =
     (let used_vnis = as_u32 ` c_vni ` set (clusters d);
          used_cidrs = map c_cidr (clusters d) in
      case find (\<lambda>v. v \<notin> used_vnis) [vr_start (n_vni_range net) ..< Suc (vr_end (n_vni_range net))] of
        None \<Rightarrow> Inl (Exhausted ''vni'')
      | Some vni \<Rightarrow>
          (case subnets ip (n_cluster_supernet net) (n_cluster_prefix net) of
             None \<Rightarrow> Inl (Malformed ''cluster_prefix'')
           | Some candidates \<Rightarrow>
               (case find (\<lambda>c. \<not> list_ex (\<lambda>u. cidrs_overlap ip u c) used_cidrs) candidates of
                  None \<Rightarrow> Inl (Exhausted ''supernet'')
                | Some candidate \<Rightarrow>
                    Inr (carve ip vni candidate (n_cluster_prefix net) (n_bridge_reserve net)))))"

subsection \<open>Single addresses\<close>

text \<open>
  The recursive query \<open>SELECT start UNION ALL SELECT n + 1 ... WHERE n < end\<close>: its first row is
  \<open>start\<close> even when the range is empty.
\<close>

definition candidates :: "ParsedRange \<Rightarrow> ipv4 list" where
  "candidates r = [r_start r ..< Suc (max (r_start r) (r_end r))]"

definition scope_ips :: "db \<Rightarrow> string \<Rightarrow> ipv4 set" where
  "scope_ips d scope = ia_ip_address ` set (filter (\<lambda>r. ia_scope r = scope) (ip_allocations d))"

definition host_vteps :: "db \<Rightarrow> ipv4 set" where
  "host_vteps d = set (List.map_filter h_vtep_address (hosts d))"

definition ip_free :: "db \<Rightarrow> string \<Rightarrow> ipv4 \<Rightarrow> bool" where
  "ip_free d scope n \<longleftrightarrow> n \<notin> scope_ips d scope \<and> n \<notin> host_vteps d"

definition insert_ip :: "db \<Rightarrow> IpAllocationRow \<Rightarrow> (DbError, db) res" where
  "insert_ip d r =
     (if (ia_vm_id r = None) = (ia_cluster_id r = None) then Inl (Sqlx Check)
      else if ia_ip_address r \<in> ia_ip_address ` set (ip_allocations d) then Inl (Sqlx Unique)
      else Inr (d\<lparr>ip_allocations := ip_allocations d @ [r]\<rparr>))"

definition allocate_from_range ::
  "db \<Rightarrow> string \<Rightarrow> ParsedRange \<Rightarrow> string option \<Rightarrow> string option \<Rightarrow> (DbError, ipv4 \<times> db) res" where
  "allocate_from_range d scope rg vm cl =
     (case find (ip_free d scope) (candidates rg) of
        None \<Rightarrow> Inl (Exhausted scope)
      | Some n \<Rightarrow>
          (case insert_ip d \<lparr>ia_ip_address = n, ia_scope = scope, ia_vm_id = vm, ia_cluster_id = cl\<rparr> of
             Inl e \<Rightarrow> Inl e
           | Inr d' \<Rightarrow> Inr (n, d')))"

definition allocate_pool_vip :: "ipnet \<Rightarrow> db \<Rightarrow> Pool \<Rightarrow> string \<Rightarrow> (DbError, ipv4 \<times> db) res" where
  "allocate_pool_vip ip d pool cid = allocate_from_range d (p_name pool) (parse_pool_range ip pool) None (Some cid)"

definition cluster_scope :: "string \<Rightarrow> string" where
  "cluster_scope cid = ''cluster:'' @ cid"

definition allocate_cluster_vm_ip :: "db \<Rightarrow> ClusterRow \<Rightarrow> string \<Rightarrow> (DbError, ipv4 \<times> db) res" where
  "allocate_cluster_vm_ip d c vmid = allocate_from_range d (cluster_scope (c_id c)) (vm_range c) (Some vmid) None"

definition reserve_specific_ip ::
  "db \<Rightarrow> string \<Rightarrow> ipv4 \<Rightarrow> string option \<Rightarrow> string option \<Rightarrow> (DbError, db) res" where
  "reserve_specific_ip d scope n vm cl =
     (case insert_ip d \<lparr>ia_ip_address = n, ia_scope = scope, ia_vm_id = vm, ia_cluster_id = cl\<rparr> of
        Inl (Sqlx Unique) \<Rightarrow> Inl (Conflict scope)
      | r \<Rightarrow> r)"

definition release_vm_ips :: "db \<Rightarrow> string \<Rightarrow> db" where
  "release_vm_ips d vmid = d\<lparr>ip_allocations := del_rows (\<lambda>r. ia_vm_id r = Some vmid) (ip_allocations d)\<rparr>"

definition release_cluster_ips :: "db \<Rightarrow> string \<Rightarrow> db" where
  "release_cluster_ips d cid = d\<lparr>ip_allocations := del_rows (\<lambda>r. ia_cluster_id r = Some cid) (ip_allocations d)\<rparr>"

subsection \<open>Bridge addresses\<close>

definition cluster_bridge_ips :: "db \<Rightarrow> string \<Rightarrow> ipv4 set" where
  "cluster_bridge_ips d cid = hc_ip_address ` set (filter (\<lambda>r. hc_cluster_id r = cid) (host_clusters d))"

definition ensure_host_cluster_active :: "db \<Rightarrow> ClusterRow \<Rightarrow> string \<Rightarrow> (DbError, ipv4 \<times> db) res" where
  "ensure_host_cluster_active d c hid =
     (case find (\<lambda>r. hc_cluster_id r = c_id c \<and> hc_host_id r = hid) (host_clusters d) of
        Some r \<Rightarrow> Inr (hc_ip_address r,
          d\<lparr>host_clusters := upd_rows (\<lambda>r. hc_cluster_id r = c_id c \<and> hc_host_id r = hid)
               (\<lambda>r. r\<lparr>hc_state := 0\<rparr>) (host_clusters d)\<rparr>)
      | None \<Rightarrow>
          (case find (\<lambda>n. n \<notin> cluster_bridge_ips d (c_id c)) (candidates (bridge_range c)) of
             None \<Rightarrow> Inl (Exhausted (c_id c))
           | Some n \<Rightarrow>
               if c_id c \<in> c_id ` set (clusters d) \<and> hid \<in> h_id ` set (hosts d)
               then Inr (n, d\<lparr>host_clusters := host_clusters d @
                      [\<lparr>hc_cluster_id = c_id c, hc_host_id = hid, hc_ip_address = n, hc_state = 0\<rparr>]\<rparr>)
               else Inl (Sqlx ForeignKey)))"

subsection \<open>Service blocks\<close>

text \<open>\<open>(start + (count - 1)) & !(count - 1)\<close> in \<open>u32\<close>, for \<open>count\<close> a power of two.\<close>

definition align_up :: "ipv4 \<Rightarrow> nat \<Rightarrow> ipv4" where
  "align_up start n = wrap_u32 (start + (n - 1)) div n * n"

text \<open>
  The search loop.  It is entered with a positive \<open>count\<close> only; the guard makes the recursion
  total.  It stops because the start address grows until the addition overflows.
\<close>

function find_block :: "ipv4 set \<Rightarrow> nat \<Rightarrow> ipv4 \<Rightarrow> ipv4 \<Rightarrow> ipv4 option" where
  "find_block used n lst start =
     (if n = 0 then None
      else case checked_add_u32 start (n - 1) of
        None \<Rightarrow> None
      | Some e \<Rightarrow>
          if \<not> e \<le> lst then None
          else if list_all (\<lambda>a. a \<notin> used) [start ..< Suc e] then Some start
          else (case checked_add_u32 start n of
                  None \<Rightarrow> None
                | Some s \<Rightarrow> find_block used n lst s))"
  by pat_completeness auto
termination
  by (relation "measure (\<lambda>(used, n, lst, start). Suc u32_max - start)")
    (auto simp: checked_add_u32_def split: if_splits)

declare find_block.simps [simp del]

definition service_used :: "db \<Rightarrow> string \<Rightarrow> ipv4 set" where
  "service_used d scope = scope_ips d scope \<union> host_vteps d"

definition reserve_block :: "db \<Rightarrow> string \<Rightarrow> string \<Rightarrow> ipv4 list \<Rightarrow> (DbError, db) res" where
  "reserve_block d scope cid ns =
     fold_res (\<lambda>n d. insert_ip d \<lparr>ia_ip_address = n, ia_scope = scope, ia_vm_id = None, ia_cluster_id = Some cid\<rparr>) ns d"

definition allocate_service_block ::
  "db \<Rightarrow> string \<Rightarrow> ParsedRange \<Rightarrow> string \<Rightarrow> nat \<Rightarrow> (DbError, Ipv4Net \<times> db) res" where
  "allocate_service_block d scope rg cid n =
     (if \<not> is_power_of_two n then Inl (Malformed ''service block'')
      else case find_block (service_used d scope) n (r_end rg) (align_up (r_start rg) n) of
        None \<Rightarrow> Inl (Exhausted scope)
      | Some start \<Rightarrow>
          (case reserve_block d scope cid [start ..< start + n] of
             Inl e \<Rightarrow> Inl e
           | Inr d' \<Rightarrow> Inr (\<lparr>net_addr = start, net_prefix = 32 - trailing_zeros n\<rparr>, d')))"

subsection \<open>The allocator interface\<close>

text \<open>
  Runs of an allocator: one allocation per request, stopping at the first error.
\<close>

fun alloc_all :: "('a \<Rightarrow> 's \<Rightarrow> ('e, nat \<times> 's) res) \<Rightarrow> 'a list \<Rightarrow> 's \<Rightarrow> ('e, nat list \<times> 's) res" where
  "alloc_all alloc [] s = Inr ([], s)"
| "alloc_all alloc (x # xs) s =
     (case alloc x s of
        Inl e \<Rightarrow> Inl e
      | Inr (n, s') \<Rightarrow> (case alloc_all alloc xs s' of Inl e \<Rightarrow> Inl e | Inr (ns, s'') \<Rightarrow> Inr (n # ns, s'')))"

text \<open>
  What an address allocator promises: it hands out an address of its range that is not taken,
  and afterwards exactly that address is taken in addition.
\<close>

locale address_allocator =
  fixes alloc :: "'a \<Rightarrow> 's \<Rightarrow> ('e, nat \<times> 's) res"
    and taken :: "'s \<Rightarrow> nat set"
    and pool :: "nat set"
  assumes alloc_fresh: "alloc x s = Inr (n, s') \<Longrightarrow> n \<in> pool \<and> n \<notin> taken s"
    and alloc_taken: "alloc x s = Inr (n, s') \<Longrightarrow> taken s' = insert n (taken s)"
begin

lemma alloc_all_distinct:
  "alloc_all alloc xs s = Inr (ns, s') \<Longrightarrow>
     length ns = length xs \<and> distinct ns \<and> set ns \<subseteq> pool \<and> set ns \<inter> taken s = {} \<and>
     taken s' = taken s \<union> set ns"
proof (induction xs arbitrary: s ns)
  case Nil
  then show ?case by simp
next
  case (Cons x xs)
  then obtain n t ms where a: "alloc x s = Inr (n, t)" and r: "alloc_all alloc xs t = Inr (ms, s')" and "ns = n # ms"
    by (cases "alloc x s") (auto split: sum.split_asm prod.split_asm)
  with Cons.IH [OF r] alloc_fresh [OF a] alloc_taken [OF a] show ?case by auto
qed

end

subsection \<open>Lemmas on the single-address allocators\<close>

lemma insert_ip_Inr:
  "insert_ip d r = Inr d' \<Longrightarrow> d' = d\<lparr>ip_allocations := ip_allocations d @ [r]\<rparr> \<and>
     ia_ip_address r \<notin> ia_ip_address ` set (ip_allocations d) \<and> (ia_vm_id r = None) \<noteq> (ia_cluster_id r = None)"
  by (auto simp: insert_ip_def split: if_splits)

lemma allocate_from_range_Inr:
  assumes "allocate_from_range d scope rg vm cl = Inr (n, d')"
  shows "find (ip_free d scope) (candidates rg) = Some n \<and>
    d' = d\<lparr>ip_allocations := ip_allocations d @ [\<lparr>ia_ip_address = n, ia_scope = scope, ia_vm_id = vm, ia_cluster_id = cl\<rparr>]\<rparr> \<and>
    n \<notin> ia_ip_address ` set (ip_allocations d) \<and> (vm = None) \<noteq> (cl = None)"
  using assms by (auto simp: allocate_from_range_def dest!: insert_ip_Inr split: option.splits sum.splits)

lemma scope_ips_append:
  "scope_ips (d\<lparr>ip_allocations := ip_allocations d @ [r]\<rparr>) scope =
     (if ia_scope r = scope then insert (ia_ip_address r) (scope_ips d scope) else scope_ips d scope)"
  by (simp add: scope_ips_def)

interpretation range_alloc: address_allocator
  "\<lambda>x d. allocate_from_range d scope rg (fst x) (snd x)" "\<lambda>d. scope_ips d scope" "set (candidates rg)"
  for scope rg
proof
  fix x d n d'
  assume a: "allocate_from_range d scope rg (fst x) (snd x) = Inr (n, d')"
  note a = allocate_from_range_Inr [OF a]
  from a find_Some_mem show "n \<in> set (candidates rg) \<and> n \<notin> scope_ips d scope"
    by (fastforce simp: ip_free_def)
  from a show "scope_ips d' scope = insert n (scope_ips d scope)" by (simp add: scope_ips_append)
qed

lemma candidates_least:
  assumes "find P (candidates rg) = Some n"
  shows "r_start rg \<le> n \<and> n \<le> max (r_start rg) (r_end rg) \<and> P n \<and> (\<forall>m. r_start rg \<le> m \<longrightarrow> m < n \<longrightarrow> \<not> P m)"
  using find_upt_least [OF assms [unfolded candidates_def]] by auto

lemma candidates_none:
  "find P (candidates rg) = None \<longleftrightarrow> (\<forall>m. r_start rg \<le> m \<longrightarrow> m \<le> max (r_start rg) (r_end rg) \<longrightarrow> \<not> P m)"
  unfolding candidates_def find_upt_None by (simp add: less_Suc_eq_le)

subsection \<open>Lemmas on the block search\<close>

definition block_free :: "ipv4 set \<Rightarrow> nat \<Rightarrow> ipv4 \<Rightarrow> bool" where
  "block_free used n s \<longleftrightarrow> {s ..< s + n} \<inter> used = {}"

lemma aligned_gap: "(n::nat) dvd a \<Longrightarrow> n dvd b \<Longrightarrow> a < b \<Longrightarrow> a + n \<le> b"
  by (metis add.commute dvd_minus_self dvd_imp_le dvd_diff_nat less_imp_le_nat le_add_diff_inverse
      add_le_mono1 zero_less_diff)

lemma find_block_step:
  assumes "0 < n"
  shows "find_block used n lst start =
    (if start + n \<le> Suc (min lst u32_max)
     then (if block_free used n start then Some start
           else if start + n \<le> u32_max then find_block used n lst (start + n) else None)
     else None)"
proof -
  have "list_all (\<lambda>a. a \<notin> used) [start ..< Suc (start + (n - 1))] \<longleftrightarrow> block_free used n start"
    using assms by (auto simp: list_all_iff block_free_def)
  with assms show ?thesis
    by (subst find_block.simps) (auto simp: checked_add_u32_def)
qed

lemma find_block_sound:
  "find_block used n lst start = Some s \<Longrightarrow> 0 < n \<Longrightarrow> n dvd start \<Longrightarrow>
     n dvd s \<and> start \<le> s \<and> s + n \<le> Suc (min lst u32_max) \<and> block_free used n s \<and>
     (\<forall>t. n dvd t \<longrightarrow> start \<le> t \<longrightarrow> t < s \<longrightarrow> \<not> block_free used n t)"
proof (induction used n lst start rule: find_block.induct)
  case (1 used n lst start)
  show ?case
  proof (cases "block_free used n start")
    case True
    with 1 show ?thesis by (auto simp: find_block_step [of n used lst start] split: if_splits)
  next
    case False
    with 1 have fits: "start + n \<le> Suc (min lst u32_max)" "start + n \<le> u32_max"
      and rec: "find_block used n lst (start + n) = Some s"
      by (auto simp: find_block_step [of n used lst start] split: if_splits)
    have nf: "\<not> list_all (\<lambda>a. a \<notin> used) [start ..< Suc (start + (n - 1))]"
      using False \<open>0 < n\<close> by (auto simp: list_all_iff block_free_def)
    have "n dvd s \<and> start + n \<le> s \<and> s + n \<le> Suc (min lst u32_max) \<and> block_free used n s \<and>
      (\<forall>t. n dvd t \<longrightarrow> start + n \<le> t \<longrightarrow> t < s \<longrightarrow> \<not> block_free used n t)"
      using fits nf 1(2-4) rec by (intro 1(1) [of "start + (n - 1)"]) (auto simp: checked_add_u32_def)
    moreover have "\<not> block_free used n t" if "n dvd t" "start \<le> t" "t < start + n" for t
      using that False aligned_gap [of n start t] 1(4) by (cases "t = start") auto
    ultimately show ?thesis by (metis le_add1 le_trans not_less)
  qed
qed

lemma find_block_complete:
  "find_block used n lst start = None \<Longrightarrow> 0 < n \<Longrightarrow> n dvd start \<Longrightarrow>
     n dvd t \<Longrightarrow> start \<le> t \<Longrightarrow> t + n \<le> Suc (min lst u32_max) \<Longrightarrow> \<not> block_free used n t"
proof (induction used n lst start rule: find_block.induct)
  case (1 used n lst start)
  have fits: "start + n \<le> Suc (min lst u32_max)" using 1(6,7) by simp
  have nf: "\<not> block_free used n start"
    using 1(2,3) fits by (auto simp: find_block_step [of n used lst start] split: if_splits)
  show ?case
  proof (cases "t = start")
    case True
    with nf show ?thesis by simp
  next
    case False
    with 1(4-6) have ge: "start + n \<le> t" by (intro aligned_gap) auto
    with 1(3,7) have le: "start + n \<le> u32_max" by auto
    with 1(2,3) fits nf have rec: "find_block used n lst (start + n) = None"
      by (auto simp: find_block_step [of n used lst start] split: if_splits)
    have nl: "\<not> list_all (\<lambda>a. a \<notin> used) [start ..< Suc (start + (n - 1))]"
      using nf 1(3) by (auto simp: list_all_iff block_free_def)
    show ?thesis
      using fits nl rec ge le 1(3-7)
      by (intro 1(1) [of "start + (n - 1)" "start + n"]) (auto simp: checked_add_u32_def)
  qed
qed

lemma align_up_props:
  assumes "0 < n" "start + (n - 1) \<le> u32_max"
  shows "n dvd align_up start n \<and> start \<le> align_up start n \<and>
    (\<forall>t. n dvd t \<longrightarrow> start \<le> t \<longrightarrow> align_up start n \<le> t)"
proof -
  have e: "align_up start n = (start + (n - 1)) div n * n"
    using assms(2) by (simp add: align_up_def u32_max_def)
  have le: "(start + (n - 1)) div n * n \<le> start + (n - 1)" by simp
  have "start + (n - 1) < (start + (n - 1)) div n * n + n"
    using assms(1) by (metis add.commute div_mult_mod_eq mod_less_divisor nat_add_left_cancel_less)
  then have "start \<le> (start + (n - 1)) div n * n" using assms(1) by linarith
  moreover have "(start + (n - 1)) div n * n \<le> t" if "n dvd t" "start \<le> t" for t
  proof (rule ccontr)
    assume "\<not> ?thesis"
    then have "t + n \<le> (start + (n - 1)) div n * n" using that by (intro aligned_gap) auto
    with le that(2) assms(1) show False by linarith
  qed
  ultimately show ?thesis by (simp add: e)
qed

lemma reserve_block_Inr:
  "reserve_block d scope cid ns = Inr d' \<Longrightarrow>
     d' = d\<lparr>ip_allocations := ip_allocations d @
        map (\<lambda>n. \<lparr>ia_ip_address = n, ia_scope = scope, ia_vm_id = None, ia_cluster_id = Some cid\<rparr>) ns\<rparr>"
proof (induction ns arbitrary: d)
  case Nil
  then show ?case by (simp add: reserve_block_def)
next
  case (Cons n ns)
  let ?r = "\<lparr>ia_ip_address = n, ia_scope = scope, ia_vm_id = None, ia_cluster_id = Some cid\<rparr>"
  from Cons.prems obtain e where e: "insert_ip d ?r = Inr e" "reserve_block e scope cid ns = Inr d'"
    by (cases "insert_ip d ?r") (auto simp: reserve_block_def)
  from Cons.IH [OF e(2)] insert_ip_Inr [OF e(1)] show ?case by simp
qed

subsection \<open>Lemmas on cluster networks\<close>

definition subnet :: "ipnet \<Rightarrow> NetworkConfig \<Rightarrow> nat \<Rightarrow> Ipv4Net" where
  "subnet ip net i =
     \<lparr>net_addr = network ip (n_cluster_supernet net) + i * 2 ^ (32 - n_cluster_prefix net),
      net_prefix = n_cluster_prefix net\<rparr>"

definition subnet_count :: "NetworkConfig \<Rightarrow> nat" where
  "subnet_count net = 2 ^ (n_cluster_prefix net - net_prefix (n_cluster_supernet net))"

definition good_config :: "ipnet \<Rightarrow> NetworkConfig \<Rightarrow> bool" where
  "good_config ip net \<longleftrightarrow> ipnet_spec ip \<and> wf_config net \<and> NetworkConfig_validate ip net = Inr ()"

lemma good_config_facts:
  assumes "good_config ip net"
  shows "ipnet_spec ip" "wf_net (n_cluster_supernet net)"
    "net_prefix (n_cluster_supernet net) \<le> n_cluster_prefix net" "n_cluster_prefix net \<le> 30"
    "n_cluster_prefix net \<le> 32"
    "n_bridge_reserve net + 2 < addrs_per_cluster (n_cluster_prefix net)"
    "vr_start (n_vni_range net) \<le> vr_end (n_vni_range net)" "vr_end (n_vni_range net) < 2 ^ 24"
  using assms NetworkConfig_validate_Inr [of ip net "()"] by (auto simp: good_config_def wf_config_def)

lemma config_subnets:
  assumes "good_config ip net"
  shows "subnets ip (n_cluster_supernet net) (n_cluster_prefix net) = Some (map (subnet ip net) [0 ..< subnet_count net])"
  using good_config_facts [OF assms]
  by (simp add: ipnet_spec_def subnet_def subnet_count_def fun_eq_iff)

lemma subnet_facts:
  assumes "good_config ip net" "i < subnet_count net"
  shows "wf_net (subnet ip net i)"
    and "network ip (subnet ip net i) = network ip (n_cluster_supernet net) + i * 2 ^ (32 - n_cluster_prefix net)"
    and "broadcast ip (subnet ip net i) = network ip (subnet ip net i) + 2 ^ (32 - n_cluster_prefix net) - 1"
    and "net_block ip (subnet ip net i) \<subseteq> net_block ip (n_cluster_supernet net)"
proof -
  note f = good_config_facts [OF assms(1)]
  note args = f(1,2,3,5) assms(2) [unfolded subnet_count_def]
  show wf: "wf_net (subnet ip net i)" using subnet_wf [OF args] by (simp add: subnet_def)
  show "network ip (subnet ip net i) = network ip (n_cluster_supernet net) + i * 2 ^ (32 - n_cluster_prefix net)"
    using subnet_network [OF args] by (simp add: subnet_def)
  show "broadcast ip (subnet ip net i) = network ip (subnet ip net i) + 2 ^ (32 - n_cluster_prefix net) - 1"
    unfolding broadcast_eq [OF f(1) wf] net_size_def by (simp only: subnet_def Ipv4Net.select_convs)
  show "net_block ip (subnet ip net i) \<subseteq> net_block ip (n_cluster_supernet net)"
    by (rule conjunct2 [OF conjunct2 [OF subnets_mem [OF f(1,2) config_subnets [OF assms(1)]]]])
      (use assms(2) in \<open>simp only: set_map set_upt\<close>, rule imageI, simp)
qed

lemma subnet_disjoint:
  assumes "good_config ip net" "i < subnet_count net" "j < subnet_count net"
  shows "cidrs_overlap ip (subnet ip net i) (subnet ip net j) \<longleftrightarrow> i = j"
proof
  assume "i = j"
  have "network ip (subnet ip net j) \<in> net_block ip (subnet ip net j)"
    using network_le_broadcast [OF good_config_facts(1) [OF assms(1)] subnet_facts(1) [OF assms(1,3)]]
    by (simp add: net_block_def)
  then show "cidrs_overlap ip (subnet ip net i) (subnet ip net j)"
    using \<open>i = j\<close> contains_iff [OF good_config_facts(1) [OF assms(1)] subnet_facts(1) [OF assms(1,3)]]
    by (simp add: cidrs_overlap_def)
next
  assume ov: "cidrs_overlap ip (subnet ip net i) (subnet ip net j)"
  let ?s = "2 ^ (32 - n_cluster_prefix net) :: nat"
  have s: "0 < ?s" by simp
  from ov have "net_block ip (subnet ip net i) \<inter> net_block ip (subnet ip net j) \<noteq> {}"
    using cidrs_overlap_iff [OF good_config_facts(1) [OF assms(1)] subnet_facts(1) [OF assms(1,2)] subnet_facts(1) [OF assms(1,3)]]
    by simp
  then obtain a where "i * ?s \<le> a" "a < i * ?s + ?s" "j * ?s \<le> a" "a < j * ?s + ?s"
  proof -
    assume hyp: "\<And>a. i * ?s \<le> a \<Longrightarrow> a < i * ?s + ?s \<Longrightarrow> j * ?s \<le> a \<Longrightarrow> a < j * ?s + ?s \<Longrightarrow> thesis"
      and ne: "net_block ip (subnet ip net i) \<inter> net_block ip (subnet ip net j) \<noteq> {}"
    let ?b = "network ip (n_cluster_supernet net)"
    from ne obtain x where x: "x \<in> net_block ip (subnet ip net i)" "x \<in> net_block ip (subnet ip net j)" by auto
    have "?b + i * ?s \<le> x" "x \<le> ?b + i * ?s + ?s - 1" "?b + j * ?s \<le> x" "x \<le> ?b + j * ?s + ?s - 1"
      using x subnet_facts(2,3) [OF assms(1,2)] subnet_facts(2,3) [OF assms(1,3)] by (auto simp: net_block_def)
    then show thesis using s by (intro hyp [of "x - ?b"]) linarith+
  qed
  then have "a div ?s = i" "a div ?s = j"
    using s by (auto intro!: div_nat_eqI simp: algebra_simps)
  then show "i = j" by simp
qed

text \<open>
  Allocation keeps VNIs and networks in lock step: the cluster with the i-th VNI of the range
  holds the i-th slice of the supernet.
\<close>

definition lockstep :: "ipnet \<Rightarrow> NetworkConfig \<Rightarrow> db \<Rightarrow> bool" where
  "lockstep ip net d \<longleftrightarrow> (\<forall>c \<in> set (clusters d). \<exists>i < subnet_count net.
     c_vni c = int (vr_start (n_vni_range net) + i) \<and> c_cidr c = subnet ip net i \<and>
     vr_start (n_vni_range net) + i \<le> vr_end (n_vni_range net))"

definition taken_idx :: "NetworkConfig \<Rightarrow> db \<Rightarrow> nat set" where
  "taken_idx net d = {i. \<exists>c \<in> set (clusters d). c_vni c = int (vr_start (n_vni_range net) + i)}"

lemma as_u32_int: "n < 2 ^ 32 \<Longrightarrow> as_u32 (int n) = n"
  unfolding as_u32_def by (subst mod_pos_pos_trivial) auto

lemma allocate_cluster_network_vni:
  assumes "good_config ip net" "lockstep ip net d" "allocate_cluster_network ip d net = Inr n"
  shows "\<exists>i. cn_vni n = vr_start (n_vni_range net) + i \<and> cn_vni n \<le> vr_end (n_vni_range net) \<and>
    i \<notin> taken_idx net d \<and> (\<forall>j < i. j \<in> taken_idx net d)"
proof -
  let ?s = "vr_start (n_vni_range net)" and ?e = "vr_end (n_vni_range net)"
  let ?u = "as_u32 ` c_vni ` set (clusters d)"
  note f = good_config_facts [OF assms(1)]
  have e32: "?e < 2 ^ 32" using f(8) by simp
  have used: "?s + i \<in> ?u \<longleftrightarrow> i \<in> taken_idx net d" if "?s + i \<le> ?e" for i
  proof
    assume "?s + i \<in> ?u"
    then obtain c where c: "c \<in> set (clusters d)" "as_u32 (c_vni c) = ?s + i" by auto
    with assms(2) obtain k where "c_vni c = int (?s + k)" "?s + k \<le> ?e" by (auto simp: lockstep_def)
    with c e32 as_u32_int [of "?s + k"] show "i \<in> taken_idx net d" by (auto simp: taken_idx_def)
  next
    assume "i \<in> taken_idx net d"
    then obtain c where "c \<in> set (clusters d)" "c_vni c = int (?s + i)" by (auto simp: taken_idx_def)
    then show "?s + i \<in> ?u" using that e32 as_u32_int [of "?s + i"] by (metis image_eqI le_less_trans)
  qed
  from assms(3) obtain v where v: "find (\<lambda>v. v \<notin> ?u) [?s ..< Suc ?e] = Some v" and n: "cn_vni n = v"
    by (auto simp: allocate_cluster_network_def carve_def Let_def split: option.split_asm)
  note v = find_upt_least [OF v]
  then obtain i where i: "v = ?s + i" by (metis le_iff_add)
  have "i \<notin> taken_idx net d" using v used [of i] i by (simp add: less_Suc_eq_le)
  moreover have "j \<in> taken_idx net d" if "j < i" for j
    using v used [of j] i that by (metis add_le_cancel_left le_add1 less_Suc_eq_le less_imp_le_nat nat_add_left_cancel_less order_trans)
  ultimately show ?thesis using v i n by auto
qed

lemma allocate_cluster_network_cidr:
  assumes "good_config ip net" "lockstep ip net d" "allocate_cluster_network ip d net = Inr n"
  shows "\<exists>k < subnet_count net. cn_cidr n = subnet ip net k \<and>
    k \<notin> taken_idx net d \<and> (\<forall>j < k. j \<in> taken_idx net d)"
proof -
  let ?s = "vr_start (n_vni_range net)"
  let ?P = "\<lambda>c. \<not> list_ex (\<lambda>u. cidrs_overlap ip u c) (map c_cidr (clusters d))"
  have free: "?P (subnet ip net k) \<longleftrightarrow> k \<notin> taken_idx net d" if k: "k < subnet_count net" for k
  proof -
    have "cidrs_overlap ip (c_cidr c) (subnet ip net k) \<longleftrightarrow> c_vni c = int (?s + k)" if c: "c \<in> set (clusters d)" for c
    proof -
      from assms(2) c obtain i where "i < subnet_count net" "c_vni c = int (?s + i)" "c_cidr c = subnet ip net i"
        by (auto simp: lockstep_def)
      with subnet_disjoint [OF assms(1) _ k] show ?thesis by simp
    qed
    then show ?thesis by (auto simp: list_ex_iff taken_idx_def)
  qed
  from assms(3) obtain c where c: "find ?P (map (subnet ip net) [0 ..< subnet_count net]) = Some c" and n: "cn_cidr n = c"
    unfolding allocate_cluster_network_def Let_def config_subnets [OF assms(1)]
    by (auto simp: carve_def Let_def split: option.split_asm)
  from c obtain k where k: "find (?P \<circ> subnet ip net) [0 ..< subnet_count net] = Some k" and ck: "c = subnet ip net k"
    by (auto simp: find_map)
  note k = find_upt_least [OF k]
  have "j \<in> taken_idx net d" if "j < k" for j using k free [of j] that by auto
  with k free [of k] n ck show ?thesis by auto
qed

lemma allocate_cluster_network_lockstep:
  assumes "good_config ip net" "lockstep ip net d" "allocate_cluster_network ip d net = Inr n"
  shows "\<exists>i < subnet_count net. cn_vni n = vr_start (n_vni_range net) + i \<and> cn_vni n \<le> vr_end (n_vni_range net) \<and>
    cn_cidr n = subnet ip net i \<and> n = carve ip (cn_vni n) (cn_cidr n) (n_cluster_prefix net) (n_bridge_reserve net)"
proof -
  from allocate_cluster_network_vni [OF assms] obtain i where i: "cn_vni n = vr_start (n_vni_range net) + i"
    "cn_vni n \<le> vr_end (n_vni_range net)" "i \<notin> taken_idx net d" "\<forall>j < i. j \<in> taken_idx net d" by blast
  from allocate_cluster_network_cidr [OF assms] obtain k where k: "k < subnet_count net" "cn_cidr n = subnet ip net k"
    "k \<notin> taken_idx net d" "\<forall>j < k. j \<in> taken_idx net d" by blast
  from i k have "i = k" by (metis linorder_neqE_nat)
  moreover have "n = carve ip (cn_vni n) (cn_cidr n) (n_cluster_prefix net) (n_bridge_reserve net)"
    using assms(3) by (auto simp: allocate_cluster_network_def carve_def Let_def split: option.splits)
  ultimately show ?thesis using i k by auto
qed

lemma lockstep_disjoint:
  assumes "good_config ip net" "lockstep ip net d" "db_keys d" "a \<in> set (clusters d)" "b \<in> set (clusters d)" "a \<noteq> b"
  shows "net_block ip (c_cidr a) \<inter> net_block ip (c_cidr b) = {}"
proof -
  let ?s = "vr_start (n_vni_range net)"
  from assms(2,4,5) obtain i j where i: "i < subnet_count net" "c_vni a = int (?s + i)" "c_cidr a = subnet ip net i"
    and j: "j < subnet_count net" "c_vni b = int (?s + j)" "c_cidr b = subnet ip net j" unfolding lockstep_def by blast
  have "c_vni a \<noteq> c_vni b"
    using assms(3-6) distinct_map_eq [of c_vni "clusters d" a b] by (auto simp: db_keys_def)
  with i j have "i \<noteq> j" by auto
  then have "\<not> cidrs_overlap ip (subnet ip net i) (subnet ip net j)"
    using subnet_disjoint [OF assms(1) i(1) j(1)] by simp
  then show ?thesis
    using cidrs_overlap_iff [OF good_config_facts(1) [OF assms(1)] subnet_facts(1) [OF assms(1) i(1)]
        subnet_facts(1) [OF assms(1) j(1)]] i j by simp
qed

lemma carve_layout:
  assumes "good_config ip net" "i < subnet_count net" "0 < n_cluster_prefix net"
    "n = carve ip vni (subnet ip net i) (n_cluster_prefix net) (n_bridge_reserve net)"
  shows "cn_bridge_start n = network ip (subnet ip net i) + 1 \<and>
    cn_bridge_end n = network ip (subnet ip net i) + n_bridge_reserve net \<and>
    cn_vm_start n = cn_bridge_end n + 1 \<and> cn_vm_end n = broadcast ip (subnet ip net i) - 1 \<and>
    cn_vm_start n \<le> cn_vm_end n"
proof -
  note f = good_config_facts [OF assms(1)]
  let ?a = "network ip (subnet ip net i)" and ?b = "broadcast ip (subnet ip net i)"
  have sz: "n_bridge_reserve net + 2 < 2 ^ (32 - n_cluster_prefix net)"
    using f(5,6) assms(3) by (simp add: addrs_per_cluster_eq)
  have b: "?b = ?a + 2 ^ (32 - n_cluster_prefix net) - 1" by (rule subnet_facts(3) [OF assms(1,2)])
  have le: "?b \<le> u32_max" by (rule broadcast_le_u32 [OF f(1) subnet_facts(1) [OF assms(1,2)]])
  have "?a + n_bridge_reserve net + 1 < ?b" using sz b by linarith
  with le have w: "wrap_u32 (?a + 1) = ?a + 1" "wrap_u32 (?a + n_bridge_reserve net) = ?a + n_bridge_reserve net"
    "wrap_u32 (?a + n_bridge_reserve net + 1) = ?a + n_bridge_reserve net + 1"
    by (auto simp: u32_max_def intro!: wrap_u32_id)
  show ?thesis
    using w \<open>?a + n_bridge_reserve net + 1 < ?b\<close> unfolding assms(4) carve_def Let_def
    by simp
qed

interpretation vm_alloc: address_allocator
  "\<lambda>vmid d. allocate_cluster_vm_ip d c vmid" "\<lambda>d. scope_ips d (cluster_scope (c_id c))" "set (candidates (vm_range c))"
  for c
proof
  fix x d n d'
  assume "allocate_cluster_vm_ip d c x = Inr (n, d')"
  then have a: "allocate_from_range d (cluster_scope (c_id c)) (vm_range c) (fst (Some x, None)) (snd (Some x, None)) = Inr (n, d')"
    by (simp add: allocate_cluster_vm_ip_def)
  show "n \<in> set (candidates (vm_range c)) \<and> n \<notin> scope_ips d (cluster_scope (c_id c))"
    by (rule range_alloc.alloc_fresh [OF a])
  show "scope_ips d' (cluster_scope (c_id c)) = insert n (scope_ips d (cluster_scope (c_id c)))"
    by (rule range_alloc.alloc_taken [OF a])
qed

lemma set_candidates: "set (candidates rg) = {r_start rg .. max (r_start rg) (r_end rg)}"
  by (auto simp: candidates_def)

lemma reserve_block_ok:
  "distinct ns \<Longrightarrow> set ns \<inter> ia_ip_address ` set (ip_allocations d) = {} \<Longrightarrow> \<exists>d'. reserve_block d scope cid ns = Inr d'"
proof (induction ns arbitrary: d)
  case Nil
  then show ?case by (simp add: reserve_block_def)
next
  case (Cons n ns)
  let ?r = "\<lparr>ia_ip_address = n, ia_scope = scope, ia_vm_id = None, ia_cluster_id = Some cid\<rparr>"
  have "insert_ip d ?r = Inr (d\<lparr>ip_allocations := ip_allocations d @ [?r]\<rparr>)"
    using Cons.prems by (simp add: insert_ip_def)
  moreover have "\<exists>d'. reserve_block (d\<lparr>ip_allocations := ip_allocations d @ [?r]\<rparr>) scope cid ns = Inr d'"
    using Cons.prems by (intro Cons.IH) auto
  ultimately show ?case by (simp add: reserve_block_def)
qed

lemma insert_ip_error: "insert_ip d r = Inl e \<Longrightarrow> e = Sqlx Check \<or> e = Sqlx Unique"
  by (auto simp: insert_ip_def split: if_splits)

lemma reserve_block_error: "reserve_block d scope cid ns = Inl e \<Longrightarrow> e = Sqlx Check \<or> e = Sqlx Unique"
proof (induction ns arbitrary: d)
  case Nil
  then show ?case by (simp add: reserve_block_def)
next
  case (Cons n ns)
  let ?r = "\<lparr>ia_ip_address = n, ia_scope = scope, ia_vm_id = None, ia_cluster_id = Some cid\<rparr>"
  show ?case
  proof (cases "insert_ip d ?r")
    case (Inl e')
    with Cons.prems have "e = e'" by (simp add: reserve_block_def)
    with insert_ip_error [OF Inl] show ?thesis by simp
  next
    case (Inr d')
    with Cons.prems have "reserve_block d' scope cid ns = Inl e" by (simp add: reserve_block_def)
    then show ?thesis by (rule Cons.IH)
  qed
qed

lemma allocate_service_block_Inr:
  assumes "allocate_service_block d scope rg cid n = Inr (b, d')"
  obtains s where "find_block (service_used d scope) n (r_end rg) (align_up (r_start rg) n) = Some s"
    "reserve_block d scope cid [s ..< s + n] = Inr d'" "b = \<lparr>net_addr = s, net_prefix = 32 - trailing_zeros n\<rparr>"
proof (cases "find_block (service_used d scope) n (r_end rg) (align_up (r_start rg) n)")
  case None
  with assms show ?thesis by (simp add: allocate_service_block_def split: if_splits)
next
  case (Some s)
  with assms show ?thesis
    by (cases "reserve_block d scope cid [s ..< s + n]")
      (auto simp: allocate_service_block_def split: if_splits intro: that)
qed

lemma ensure_host_cluster_active_cases:
  assumes "ensure_host_cluster_active d c hid = Inr (n, d')" "db_keys d"
  shows "(\<exists>r \<in> set (host_clusters d). hc_cluster_id r = c_id c \<and> hc_host_id r = hid \<and> hc_ip_address r = n \<and>
       d' = d\<lparr>host_clusters := upd_rows (\<lambda>r. hc_cluster_id r = c_id c \<and> hc_host_id r = hid)
               (\<lambda>r. r\<lparr>hc_state := 0\<rparr>) (host_clusters d)\<rparr>) \<or>
     ((\<forall>r \<in> set (host_clusters d). \<not> (hc_cluster_id r = c_id c \<and> hc_host_id r = hid)) \<and>
       find (\<lambda>n. n \<notin> cluster_bridge_ips d (c_id c)) (candidates (bridge_range c)) = Some n \<and>
       d' = d\<lparr>host_clusters := host_clusters d @
               [\<lparr>hc_cluster_id = c_id c, hc_host_id = hid, hc_ip_address = n, hc_state = 0\<rparr>]\<rparr>)"
proof (cases "find (\<lambda>r. hc_cluster_id r = c_id c \<and> hc_host_id r = hid) (host_clusters d)")
  case None
  with assms(1) show ?thesis
    by (auto simp: ensure_host_cluster_active_def find_None_iff split: option.split_asm if_splits)
next
  case (Some r)
  with assms(1) find_Some_mem [OF Some] show ?thesis
    by (auto simp: ensure_host_cluster_active_def)
qed

lemma service_block_fits:
  assumes "pool_valid ip net pool" "n_default_external_service_ips net = 2 ^ k"
  shows "4 * n_default_external_service_ips net \<le> net_size (p_cidr pool) \<and> k \<le> 32 - net_prefix (p_cidr pool)"
proof -
  let ?p = "net_prefix (p_cidr pool)"
  have "k + 2 \<le> 32 - ?p"
  proof (cases "k = 0")
    case True
    moreover have "?p < 31" using assms(1) by (simp add: pool_valid_def)
    ultimately show ?thesis by linarith
  next
    case False
    with assms have "?p + 2 \<le> 32 - k" by (simp add: pool_valid_def service_prefix_def)
    then show ?thesis by linarith
  qed
  then have "(2::nat) ^ (k + 2) \<le> 2 ^ (32 - ?p)" by (rule power_increasing) simp
  with \<open>k + 2 \<le> 32 - ?p\<close> assms(2) show ?thesis by (simp add: net_size_def)
qed

subsection \<open>Properties\<close>

text \<open>
  C26.  The find-next-free allocator returns the lowest address of its range that is neither
  allocated in the scope nor a host's underlay address, records exactly that allocation, and
  never hands out an address that any scope already holds.  It reports exhaustion iff every
  address of the range is taken.
\<close>

theorem allocate_from_range_lowest:
  "(allocate_from_range d scope rg vm cl = Inl (Exhausted scope) \<longleftrightarrow>
      (\<forall>m. r_start rg \<le> m \<and> m \<le> max (r_start rg) (r_end rg) \<longrightarrow> m \<in> scope_ips d scope \<or> m \<in> host_vteps d)) \<and>
   (\<forall>n d'. allocate_from_range d scope rg vm cl = Inr (n, d') \<longrightarrow>
      r_start rg \<le> n \<and> n \<le> max (r_start rg) (r_end rg) \<and>
      n \<notin> ia_ip_address ` set (ip_allocations d) \<and> n \<notin> host_vteps d \<and>
      (\<forall>m. r_start rg \<le> m \<and> m < n \<longrightarrow> m \<in> scope_ips d scope \<or> m \<in> host_vteps d) \<and>
      d' = d\<lparr>ip_allocations := ip_allocations d @
             [\<lparr>ia_ip_address = n, ia_scope = scope, ia_vm_id = vm, ia_cluster_id = cl\<rparr>]\<rparr>)"
proof (intro conjI allI impI)
  have "allocate_from_range d scope rg vm cl = Inl (Exhausted scope) \<longleftrightarrow> find (ip_free d scope) (candidates rg) = None"
    by (auto simp: allocate_from_range_def insert_ip_def split: option.split)
  then show "allocate_from_range d scope rg vm cl = Inl (Exhausted scope) \<longleftrightarrow>
      (\<forall>m. r_start rg \<le> m \<and> m \<le> max (r_start rg) (r_end rg) \<longrightarrow> m \<in> scope_ips d scope \<or> m \<in> host_vteps d)"
    unfolding candidates_none by (auto simp: ip_free_def)
next
  fix n d'
  assume "allocate_from_range d scope rg vm cl = Inr (n, d')"
  note a = allocate_from_range_Inr [OF this]
  note l = candidates_least [OF conjunct1 [OF a]]
  from a l show "r_start rg \<le> n" "n \<le> max (r_start rg) (r_end rg)"
    "n \<notin> ia_ip_address ` set (ip_allocations d)" "n \<notin> host_vteps d"
    "d' = d\<lparr>ip_allocations := ip_allocations d @
             [\<lparr>ia_ip_address = n, ia_scope = scope, ia_vm_id = vm, ia_cluster_id = cl\<rparr>]\<rparr>"
    by (simp_all add: ip_free_def)
  fix m
  assume "r_start rg \<le> m \<and> m < n"
  with l show "m \<in> scope_ips d scope \<or> m \<in> host_vteps d" by (auto simp: ip_free_def)
qed

definition example_db :: db where
  "example_db = (empty_db (4, 2))\<lparr>hosts := [example_host ''h1'' Map.empty [] \<lparr>h_vtep_address := Some 11\<rparr>],
     ip_allocations := [\<lparr>ia_ip_address = 10, ia_scope = ''lan'', ia_vm_id = None, ia_cluster_id = Some ''c0''\<rparr>]\<rparr>"

lemma example_alloc:
  "allocate_from_range example_db ''lan'' \<lparr>r_start = 10, r_end = 14\<rparr> None (Some ''c1'') =
     Inr (12, example_db\<lparr>ip_allocations := ip_allocations example_db @
       [\<lparr>ia_ip_address = 12, ia_scope = ''lan'', ia_vm_id = None, ia_cluster_id = Some ''c1''\<rparr>]\<rparr>)"
  by (simp add: allocate_from_range_def candidates_def ip_free_def scope_ips_def host_vteps_def insert_ip_def
      example_db_def empty_db_def example_host_def List.map_filter_simps upt_rec)

text \<open>Witness of C26: 10 is allocated and 11 is a host's address, so 12 is handed out.\<close>

theorem allocate_from_range_lowest_witness:
  "11 \<in> scope_ips example_db ''lan'' \<or> 11 \<in> host_vteps example_db"
  using allocate_from_range_lowest [of example_db "''lan''" "\<lparr>r_start = 10, r_end = 14\<rparr>" None "Some ''c1''"]
  unfolding example_alloc by simp

text \<open>
  C27.  Successive allocations of machine addresses in one cluster return pairwise distinct
  addresses, all inside the cluster's machine range and none allocated in the cluster before.
\<close>

theorem cluster_vm_ips_distinct:
  assumes "alloc_all (\<lambda>vmid d. allocate_cluster_vm_ip d c vmid) vmids d = Inr (ips, d')"
  shows "length ips = length vmids \<and> distinct ips \<and>
    set ips \<subseteq> {c_vm_range_start c .. max (c_vm_range_start c) (c_vm_range_end c)} \<and>
    set ips \<inter> scope_ips d (cluster_scope (c_id c)) = {} \<and>
    scope_ips d' (cluster_scope (c_id c)) = scope_ips d (cluster_scope (c_id c)) \<union> set ips"
  using vm_alloc.alloc_all_distinct [OF assms] by (simp add: set_candidates vm_range_def)

text \<open>
  C28.  Service block allocation.  For a power-of-two count whose alignment does not overflow, a
  returned block is aligned to its size, lies inside the range, was entirely free, is the
  lowest such block, and every one of its addresses is now reserved for the cluster; the
  allocator reports exhaustion iff the range contains no aligned free block.
\<close>

theorem allocate_service_block_correct:
  assumes "is_power_of_two n" and "r_start rg + (n - 1) \<le> u32_max" and "r_end rg \<le> u32_max"
  shows "(allocate_service_block d scope rg cid n = Inl (Exhausted scope) \<longleftrightarrow>
      \<not> (\<exists>s. n dvd s \<and> r_start rg \<le> s \<and> s + n \<le> Suc (r_end rg) \<and> block_free (service_used d scope) n s)) \<and>
    (\<forall>b d'. allocate_service_block d scope rg cid n = Inr (b, d') \<longrightarrow>
      n dvd net_addr b \<and> r_start rg \<le> net_addr b \<and> net_addr b + n \<le> Suc (r_end rg) \<and>
      2 ^ (32 - net_prefix b) = n \<and>
      block_free (service_used d scope) n (net_addr b) \<and>
      (\<forall>t. n dvd t \<and> r_start rg \<le> t \<and> t < net_addr b \<longrightarrow> \<not> block_free (service_used d scope) n t) \<and>
      ip_allocations d' = ip_allocations d @ map (\<lambda>a. \<lparr>ia_ip_address = a, ia_scope = scope,
         ia_vm_id = None, ia_cluster_id = Some cid\<rparr>) [net_addr b ..< net_addr b + n])"
proof -
  let ?u = "service_used d scope" and ?a = "align_up (r_start rg) n"
  have n0: "0 < n" using assms(1) by (auto simp: is_power_of_two_def)
  obtain k where k: "n = 2 ^ k" using assms(1) by (auto simp: is_power_of_two_iff)
  have "Suc u32_max = 2 ^ 32" by (simp add: u32_max_def)
  then have "n \<le> 2 ^ 32" using assms(2) by linarith
  then have k32: "k \<le> 32" unfolding k by (rule power_le_imp_le_exp [rotated]) simp
  note al = align_up_props [OF n0 assms(2)]
  have m: "min (r_end rg) u32_max = r_end rg" using assms(3) by simp
  have ex: "allocate_service_block d scope rg cid n = Inl (Exhausted scope) \<longleftrightarrow> find_block ?u n (r_end rg) ?a = None"
  proof -
    have "allocate_service_block d scope rg cid n \<noteq> Inl (Exhausted scope)" if "find_block ?u n (r_end rg) ?a = Some s" for s
      using assms(1) that reserve_block_error [of d scope cid "[s ..< s + n]"]
      by (cases "reserve_block d scope cid [s ..< s + n]") (auto simp: allocate_service_block_def)
    moreover have "allocate_service_block d scope rg cid n = Inl (Exhausted scope)" if "find_block ?u n (r_end rg) ?a = None"
      using assms(1) that by (simp add: allocate_service_block_def)
    ultimately show ?thesis by (cases "find_block ?u n (r_end rg) ?a") auto
  qed
  show ?thesis
  proof (intro conjI allI impI)
    show "allocate_service_block d scope rg cid n = Inl (Exhausted scope) \<longleftrightarrow>
      \<not> (\<exists>s. n dvd s \<and> r_start rg \<le> s \<and> s + n \<le> Suc (r_end rg) \<and> block_free ?u n s)"
    proof (cases "find_block ?u n (r_end rg) ?a")
      case None
      with find_block_complete [OF None n0] al m ex show ?thesis by auto
    next
      case (Some s)
      with find_block_sound [OF Some n0] al m ex show ?thesis by (auto intro: order_trans)
    qed
  next
    fix b d'
    assume "allocate_service_block d scope rg cid n = Inr (b, d')"
    then obtain s where s: "find_block ?u n (r_end rg) ?a = Some s"
      and r: "reserve_block d scope cid [s ..< s + n] = Inr d'" and b: "b = \<lparr>net_addr = s, net_prefix = 32 - trailing_zeros n\<rparr>"
      by (rule allocate_service_block_Inr)
    note fs = find_block_sound [OF s n0 conjunct1 [OF al]]
    show "n dvd net_addr b" "r_start rg \<le> net_addr b" "net_addr b + n \<le> Suc (r_end rg)"
      "block_free ?u n (net_addr b)" using fs al m b by auto
    show "2 ^ (32 - net_prefix b) = n" using k k32 b by simp
    show "ip_allocations d' = ip_allocations d @ map (\<lambda>a. \<lparr>ia_ip_address = a, ia_scope = scope,
         ia_vm_id = None, ia_cluster_id = Some cid\<rparr>) [net_addr b ..< net_addr b + n]"
      using reserve_block_Inr [OF r] b by simp
    fix t
    assume "n dvd t \<and> r_start rg \<le> t \<and> t < net_addr b"
    with fs al b show "\<not> block_free ?u n t" by auto
  qed
qed

definition example_cluster :: ClusterRow where
  "example_cluster = \<lparr>c_id = ''c1'', c_name = ''demo'', c_vni = 10000, c_cidr = \<lparr>net_addr = 167772160, net_prefix = 24\<rparr>,
     c_bridge_range_start = 167772161, c_bridge_range_end = 167772192,
     c_vm_range_start = 167772193, c_vm_range_end = 167772414, c_prefix_len = 24,
     c_control_plane_endpoint = 0, c_apiserver_visibility = 0, c_external_pool = ''lan'',
     c_service_block_cidr = None, c_trust_domain = '''', c_created_at = ''''\<rparr>"

lemma example_vm_ips:
  "\<exists>d'. alloc_all (\<lambda>vmid d. allocate_cluster_vm_ip d example_cluster vmid) [''vm0'', ''vm1''] example_db =
     Inr ([167772193, 167772194], d')"
  by (simp add: allocate_cluster_vm_ip_def allocate_from_range_def candidates_def vm_range_def ip_free_def
      scope_ips_def cluster_scope_def host_vteps_def insert_ip_def example_db_def empty_db_def example_host_def
      example_cluster_def List.map_filter_simps upt_rec [of "167772193"] upt_rec [of "167772194"] del: set_filter)

text \<open>Witness of C27: the first two addresses of the example cluster's machine range.\<close>

theorem cluster_vm_ips_distinct_witness:
  "distinct [167772193, 167772194 :: ipv4] \<and>
   set [167772193, 167772194] \<inter> scope_ips example_db (cluster_scope ''c1'') = {}"
proof -
  obtain d' where "alloc_all (\<lambda>vmid d. allocate_cluster_vm_ip d example_cluster vmid) [''vm0'', ''vm1''] example_db =
     Inr ([167772193, 167772194], d')" using example_vm_ips by blast
  from cluster_vm_ips_distinct [OF this] show ?thesis by (simp add: example_cluster_def)
qed

text \<open>Witness of C28: a block of four from the range 10 to 30, where 10 and 11 are taken.\<close>

theorem allocate_service_block_correct_witness:
  "block_free (service_used example_db ''lan'') 4 12 \<and>
   (\<nexists>t. 4 dvd t \<and> 10 \<le> t \<and> t < 12 \<and> block_free (service_used example_db ''lan'') 4 t)"
proof -
  have p2: "is_power_of_two 4" by (auto simp: is_power_of_two_iff intro: exI [of _ 2])
  have "find_block (service_used example_db ''lan'') 4 30 12 = Some 12"
    by (simp add: find_block_step block_free_def service_used_def scope_ips_def host_vteps_def example_db_def
        empty_db_def example_host_def List.map_filter_simps u32_max_def atLeastLessThan_def)
  moreover have "align_up 10 4 = 12" by (simp add: align_up_def wrap_u32_def)
  ultimately have "\<exists>b d'. allocate_service_block example_db ''lan'' \<lparr>r_start = 10, r_end = 30\<rparr> ''c1'' 4 = Inr (b, d') \<and> net_addr b = 12"
    using p2 by (simp add: allocate_service_block_def reserve_block_def insert_ip_def example_db_def empty_db_def upt_rec)
  then obtain b d' where b: "allocate_service_block example_db ''lan'' \<lparr>r_start = 10, r_end = 30\<rparr> ''c1'' 4 = Inr (b, d')"
    and "net_addr b = 12" by blast
  have "10 + (4 - 1) \<le> u32_max" "30 \<le> u32_max" by (simp_all add: u32_max_def)
  with allocate_service_block_correct [OF p2, of "\<lparr>r_start = 10, r_end = 30\<rparr>" example_db "''lan''" "''c1''"] b \<open>net_addr b = 12\<close>
  show ?thesis by auto
qed

text \<open>
  C10.  Fresh cluster networks.  Under a validated configuration, an allocation on a database
  that keeps VNIs and networks in lock step returns an unused VNI of the configured range and a
  slice of the supernet that overlaps no existing cluster's network; the bridge addresses
  and the machine addresses are disjoint, non-empty ranges inside the slice that exclude
  its network and broadcast address.
\<close>

theorem allocate_cluster_network_fresh:
  assumes "good_config ip net" and "0 < n_cluster_prefix net" and "lockstep ip net d"
    and "allocate_cluster_network ip d net = Inr n"
  shows "vr_start (n_vni_range net) \<le> cn_vni n \<and> cn_vni n \<le> vr_end (n_vni_range net) \<and>
    int (cn_vni n) \<notin> c_vni ` set (clusters d) \<and>
    net_block ip (cn_cidr n) \<subseteq> net_block ip (n_cluster_supernet net) \<and>
    (\<forall>c \<in> set (clusters d). net_block ip (cn_cidr n) \<inter> net_block ip (c_cidr c) = {}) \<and>
    network ip (cn_cidr n) < cn_bridge_start n \<and> cn_bridge_end n < cn_vm_start n \<and>
    cn_vm_start n \<le> cn_vm_end n \<and> cn_vm_end n < broadcast ip (cn_cidr n)"
proof -
  let ?s = "vr_start (n_vni_range net)"
  from allocate_cluster_network_lockstep [OF assms(1,3,4)] obtain i where i: "i < subnet_count net" "cn_vni n = ?s + i"
    "cn_vni n \<le> vr_end (n_vni_range net)" "cn_cidr n = subnet ip net i"
    "n = carve ip (cn_vni n) (subnet ip net i) (n_cluster_prefix net) (n_bridge_reserve net)" by metis
  from allocate_cluster_network_vni [OF assms(1,3,4)] i(2) have nt: "i \<notin> taken_idx net d" by auto
  have "net_block ip (cn_cidr n) \<inter> net_block ip (c_cidr c) = {}" if c: "c \<in> set (clusters d)" for c
  proof -
    from assms(3) c obtain j where j: "j < subnet_count net" "c_vni c = int (?s + j)" "c_cidr c = subnet ip net j"
      by (auto simp: lockstep_def)
    with nt c have "i \<noteq> j" by (auto simp: taken_idx_def)
    with subnet_disjoint [OF assms(1) i(1) j(1)] show ?thesis
      using cidrs_overlap_iff [OF good_config_facts(1) [OF assms(1)] subnet_facts(1) [OF assms(1) i(1)]
          subnet_facts(1) [OF assms(1) j(1)]] i(4) j(3) by simp
  qed
  moreover have "int (cn_vni n) \<notin> c_vni ` set (clusters d)" using nt i(2) by (auto simp: taken_idx_def)
  moreover note subnet_facts(4) [OF assms(1) i(1)] carve_layout [OF assms(1) i(1) assms(2) i(5)]
  moreover have "2 < (2::nat) ^ (32 - n_cluster_prefix net)"
    using good_config_facts(5,6) [OF assms(1)] assms(2) by (simp add: addrs_per_cluster_eq)
  ultimately show ?thesis using i(2-4) subnet_facts(3) [OF assms(1) i(1)] by auto
qed

text \<open>
  C11.  The unique VNI protects the network too.  Two concurrent creations may allocate from
  different database states; if an allocation made from any earlier lock-step state \<open>d0\<close> is
  inserted into the current lock-step state \<open>d\<close> and the insertion succeeds, then the new state
  is in lock step again and all clusters' networks are pairwise disjoint, although the schema
  has no uniqueness constraint on \<open>cidr\<close>.
\<close>

theorem insert_cluster_keeps_disjoint:
  assumes "good_config ip net" and "lockstep ip net d0" and "allocate_cluster_network ip d0 net = Inr n"
    and "lockstep ip net d" and "db_keys d" and "insert_cluster d (from_network i n) = Inr d'"
  shows "lockstep ip net d' \<and>
    (\<forall>a \<in> set (clusters d'). \<forall>b \<in> set (clusters d'). a \<noteq> b \<longrightarrow>
       net_block ip (c_cidr a) \<inter> net_block ip (c_cidr b) = {})"
proof -
  from assms(6) have d': "d' = d\<lparr>clusters := clusters d @ [from_network i n]\<rparr>"
    and new: "c_vni (from_network i n) \<notin> c_vni ` set (clusters d)" "c_id (from_network i n) \<notin> c_id ` set (clusters d)"
      "c_name (from_network i n) \<notin> c_name ` set (clusters d)"
    by (auto simp: insert_cluster_def split: if_splits)
  from allocate_cluster_network_lockstep [OF assms(1-3)] have ls: "lockstep ip net d'"
    using assms(4) by (auto simp: lockstep_def d' from_network_def)
  have "db_keys d'" using assms(5) new by (auto simp: db_keys_def d')
  with lockstep_disjoint [OF assms(1) ls] ls show ?thesis by blast
qed

definition example_config :: NetworkConfig where
  "example_config = \<lparr>n_cluster_supernet = \<lparr>net_addr = 167772160, net_prefix = 22\<rparr>, n_cluster_prefix = 24,
     n_bridge_reserve = 32, n_default_external_service_ips = 16, n_vni_range = \<lparr>vr_start = 10000, vr_end = 10003\<rparr>,
     n_pools = [\<lparr>p_name = ''lan'', p_cidr = \<lparr>net_addr = 3232235520, net_prefix = 24\<rparr>, p_scope = Lan\<rparr>]\<rparr>"

lemma example_config_good: "good_config ipnet_ref example_config"
proof -
  have "is_power_of_two 16" by (auto simp: is_power_of_two_iff intro: exI [of _ 4])
  moreover have "trailing_zeros 16 = 4" by (simp add: trailing_zeros.simps)
  ultimately have "wf_config example_config" "NetworkConfig_validate ipnet_ref example_config = Inr ()"
    by (simp_all add: wf_config_def example_config_def wf_net_def NetworkConfig_validate_def
        addrs_per_cluster_def u32_max_def is_tree_def Pool_validate_def cidrs_overlap_def ipnet_ref_def net_size_def
        service_prefix_def)
  with ipnet_ref_spec show ?thesis by (simp add: good_config_def)
qed

lemma example_empty_lockstep: "lockstep ip net (empty_db r)" "db_keys (empty_db r)"
  by (simp_all add: lockstep_def db_keys_def empty_db_def)

lemma example_network:
  "allocate_cluster_network ipnet_ref (empty_db (4, 2)) example_config =
     Inr (carve ipnet_ref 10000 \<lparr>net_addr = 167772160, net_prefix = 24\<rparr> 24 32)"
  by (simp add: allocate_cluster_network_def empty_db_def example_config_def ipnet_ref_def net_size_def upt_rec)

text \<open>Witness of C10: the first network of an example supernet.\<close>

theorem allocate_cluster_network_fresh_witness:
  "cn_vm_start (carve ipnet_ref 10000 \<lparr>net_addr = 167772160, net_prefix = 24\<rparr> 24 32) \<le>
   cn_vm_end (carve ipnet_ref 10000 \<lparr>net_addr = 167772160, net_prefix = 24\<rparr> 24 32)"
  using allocate_cluster_network_fresh [OF example_config_good _ example_empty_lockstep(1) example_network]
  by (simp add: example_config_def)

text \<open>Witness of C11: inserting the network allocated on the empty database.\<close>

theorem insert_cluster_keeps_disjoint_witness:
  "\<exists>d'. insert_cluster (empty_db (4, 2))
     (from_network \<lparr>ci_id = ''c1'', ci_name = ''demo'', ci_control_plane_endpoint = 0, ci_apiserver_visibility = 0,
        ci_external_pool = ''lan'', ci_service_block_cidr = None, ci_trust_domain = '''', ci_created_at = ''''\<rparr>
        (carve ipnet_ref 10000 \<lparr>net_addr = 167772160, net_prefix = 24\<rparr> 24 32)) = Inr d' \<and>
     lockstep ipnet_ref example_config d'"
proof -
  obtain d' where d': "insert_cluster (empty_db (4, 2))
     (from_network \<lparr>ci_id = ''c1'', ci_name = ''demo'', ci_control_plane_endpoint = 0, ci_apiserver_visibility = 0,
        ci_external_pool = ''lan'', ci_service_block_cidr = None, ci_trust_domain = '''', ci_created_at = ''''\<rparr>
        (carve ipnet_ref 10000 \<lparr>net_addr = 167772160, net_prefix = 24\<rparr> 24 32)) = Inr d'"
    by (simp add: insert_cluster_def empty_db_def)
  from insert_cluster_keeps_disjoint [OF example_config_good example_empty_lockstep(1) example_network
      example_empty_lockstep d'] d' show ?thesis by blast
qed

text \<open>
  C29.  A validated configuration leaves room for a Service block in every pool: as long as no
  address of the pool is allocated and no host's underlay address lies in it, allocating the
  default block from it succeeds.
\<close>

theorem validated_pool_has_service_block:
  assumes "good_config ip net" and "pool \<in> set (n_pools net)"
    and "net_block ip (p_cidr pool) \<inter> (ia_ip_address ` set (ip_allocations d) \<union> host_vteps d) = {}"
  shows "\<exists>b d'. allocate_service_block d (p_name pool) (parse_pool_range ip pool) cid
                  (n_default_external_service_ips net) = Inr (b, d')"
proof -
  let ?c = "p_cidr pool" and ?n = "n_default_external_service_ips net" and ?rg = "parse_pool_range ip pool"
  let ?u = "service_used d (p_name pool)"
  have spec: "ipnet_spec ip" and wf: "wf_net ?c" and nmax: "?n \<le> u32_max"
    using assms(1,2) by (auto simp: good_config_def wf_config_def)
  have p2: "is_power_of_two ?n" and pv: "pool_valid ip net pool"
    using NetworkConfig_validate_Inr [of ip net "()"] assms(1,2) by (auto simp: good_config_def)
  obtain k where k: "?n = 2 ^ k" using p2 by (auto simp: is_power_of_two_iff)
  have quad: "4 * ?n \<le> net_size ?c" and kp: "k \<le> 32 - net_prefix ?c"
    using service_block_fits [OF pv k] by auto
  let ?a = "network ip ?c" and ?b = "broadcast ip ?c"
  have n0: "0 < ?n" using k by simp
  have b: "?b = ?a + net_size ?c - 1" by (rule broadcast_eq [OF spec wf])
  have bmax: "?b \<le> u32_max" by (rule broadcast_le_u32 [OF spec wf])
  have rg: "r_start ?rg = ?a + 1" "r_end ?rg = ?b - 1"
    using b bmax quad n0 by (auto simp: parse_pool_range_def u32_max_def intro!: wrap_u32_id)
  have st: "r_start ?rg + (?n - 1) \<le> u32_max" using rg b bmax quad n0 by linarith
  have en: "r_end ?rg \<le> u32_max" using rg bmax by linarith
  have dv: "?n dvd ?a" using network_dvd [OF spec wf] kp k
    by (metis dvd_trans le_imp_power_dvd net_size_def)
  have free: "block_free ?u ?n s" if "?a \<le> s" "s + ?n \<le> ?b" for s
  proof -
    have "{s ..< s + ?n} \<subseteq> net_block ip ?c" using that by (auto simp: net_block_def)
    moreover have "?u \<subseteq> ia_ip_address ` set (ip_allocations d) \<union> host_vteps d"
      by (auto simp: service_used_def scope_ips_def)
    ultimately show ?thesis using assms(3) by (auto simp: block_free_def)
  qed
  have "?n dvd ?a + ?n" "r_start ?rg \<le> ?a + ?n" "?a + ?n + ?n \<le> Suc (r_end ?rg)" "block_free ?u ?n (?a + ?n)"
    using dv rg b quad n0 by (auto intro!: free)
  then obtain s where s: "find_block ?u ?n (r_end ?rg) (align_up (r_start ?rg) ?n) = Some s"
    using find_block_complete [of ?u ?n "r_end ?rg" "align_up (r_start ?rg) ?n" "?a + ?n"] align_up_props [OF n0 st] n0 en
    by (cases "find_block ?u ?n (r_end ?rg) (align_up (r_start ?rg) ?n)") (auto simp: min_absorb1)
  have ap: "?n dvd align_up (r_start ?rg) ?n" "r_start ?rg \<le> align_up (r_start ?rg) ?n"
    using align_up_props [OF n0 st] by blast+
  have fb: "align_up (r_start ?rg) ?n \<le> s" "s + ?n \<le> Suc (min (r_end ?rg) u32_max)"
    using find_block_sound [OF s n0 ap(1)] by blast+
  have sr: "?a \<le> s" "s + ?n \<le> ?b"
    using fb ap(2) rg en b quad n0 by linarith+
  have "set [s ..< s + ?n] \<subseteq> net_block ip ?c" using sr by (auto simp: net_block_def)
  then have dj: "set [s ..< s + ?n] \<inter> ia_ip_address ` set (ip_allocations d) = {}"
    using assms(3) by blast
  obtain d' where "reserve_block d (p_name pool) cid [s ..< s + ?n] = Inr d'"
    using reserve_block_ok [OF distinct_upt dj] by blast
  with s p2 show ?thesis by (simp add: allocate_service_block_def)
qed

text \<open>Witness of C29: the example configuration's pool on an empty database.\<close>

theorem validated_pool_has_service_block_witness:
  "\<exists>b d'. allocate_service_block (empty_db (4, 2)) ''lan''
     (parse_pool_range ipnet_ref \<lparr>p_name = ''lan'', p_cidr = \<lparr>net_addr = 3232235520, net_prefix = 24\<rparr>, p_scope = Lan\<rparr>)
     ''c1'' 16 = Inr (b, d')"
  using validated_pool_has_service_block [OF example_config_good,
      of "\<lparr>p_name = ''lan'', p_cidr = \<lparr>net_addr = 3232235520, net_prefix = 24\<rparr>, p_scope = Lan\<rparr>" "empty_db (4, 2)" "''c1''"]
  by (simp add: example_config_def empty_db_def host_vteps_def List.map_filter_simps)

text \<open>
  C30.  Activating a host for a cluster.  A host that already has a row, active or pending
  teardown, keeps its bridge address and becomes active again, so a pending tombstone is
  cancelled; a new host gets the lowest address of the bridge range that no host of the cluster
  uses.  In both cases the other hosts' rows are untouched and no two hosts of a cluster share
  a bridge address.
\<close>

theorem ensure_host_cluster_active_spec:
  assumes "db_keys d" and "ensure_host_cluster_active d c hid = Inr (n, d')"
  shows "\<lparr>hc_cluster_id = c_id c, hc_host_id = hid, hc_ip_address = n, hc_state = 0\<rparr> \<in> set (host_clusters d') \<and>
    (\<forall>r. hc_cluster_id r = c_id c \<and> hc_host_id r = hid \<and> r \<in> set (host_clusters d) \<longrightarrow> hc_ip_address r = n) \<and>
    ((\<nexists>r. hc_cluster_id r = c_id c \<and> hc_host_id r = hid \<and> r \<in> set (host_clusters d)) \<longrightarrow>
       n \<notin> cluster_bridge_ips d (c_id c) \<and> c_bridge_range_start c \<le> n \<and>
       n \<le> max (c_bridge_range_start c) (c_bridge_range_end c) \<and>
       (\<forall>m. c_bridge_range_start c \<le> m \<and> m < n \<longrightarrow> m \<in> cluster_bridge_ips d (c_id c))) \<and>
    (\<forall>r. \<not> (hc_cluster_id r = c_id c \<and> hc_host_id r = hid) \<longrightarrow>
       (r \<in> set (host_clusters d') \<longleftrightarrow> r \<in> set (host_clusters d))) \<and>
    db_keys d'"
  using ensure_host_cluster_active_cases [OF assms(2,1)]
proof (elim disjE bexE conjE)
  fix r
  assume r: "r \<in> set (host_clusters d)" "hc_cluster_id r = c_id c" "hc_host_id r = hid" "hc_ip_address r = n"
    and d': "d' = d\<lparr>host_clusters := upd_rows (\<lambda>r. hc_cluster_id r = c_id c \<and> hc_host_id r = hid)
               (\<lambda>r. r\<lparr>hc_state := 0\<rparr>) (host_clusters d)\<rparr>"
  have uniq: "x = r" if "x \<in> set (host_clusters d)" "hc_cluster_id x = c_id c" "hc_host_id x = hid" for x
    using assms(1) r that distinct_map_eq [of "\<lambda>r. (hc_cluster_id r, hc_host_id r)" "host_clusters d" x r]
    by (auto simp: db_keys_def)
  have "r\<lparr>hc_state := 0\<rparr> = \<lparr>hc_cluster_id = c_id c, hc_host_id = hid, hc_ip_address = n, hc_state = 0\<rparr>"
    using r(2-4) by (cases r) simp
  then have "\<lparr>hc_cluster_id = c_id c, hc_host_id = hid, hc_ip_address = n, hc_state = 0\<rparr> \<in> set (host_clusters d')"
    using r by (auto simp: d' in_upd_rows intro!: bexI [of _ r])
  moreover have "db_keys d'" using assms(1) by (simp add: db_keys_def d' map_upd_rows_id)
  moreover have "x \<in> set (host_clusters d') \<longleftrightarrow> x \<in> set (host_clusters d)"
    if "\<not> (hc_cluster_id x = c_id c \<and> hc_host_id x = hid)" for x
    using that by (auto simp: d' in_upd_rows split: if_splits)
  ultimately show ?thesis using uniq r by blast
next
  assume no: "\<forall>r \<in> set (host_clusters d). \<not> (hc_cluster_id r = c_id c \<and> hc_host_id r = hid)"
    and f: "find (\<lambda>n. n \<notin> cluster_bridge_ips d (c_id c)) (candidates (bridge_range c)) = Some n"
    and d': "d' = d\<lparr>host_clusters := host_clusters d @
               [\<lparr>hc_cluster_id = c_id c, hc_host_id = hid, hc_ip_address = n, hc_state = 0\<rparr>]\<rparr>"
  note l = candidates_least [OF f]
  have "db_keys d'" using assms(1) no l by (auto simp: db_keys_def d' cluster_bridge_ips_def)
  with no l show ?thesis by (auto simp: d' bridge_range_def)
qed

text \<open>Witness of C30: a host whose membership is pending teardown is revived with its address.\<close>

definition example_member_db :: db where
  "example_member_db = (empty_db (4, 2))\<lparr>hosts := [example_host ''h1'' Map.empty []], clusters := [example_cluster],
     host_clusters := [\<lparr>hc_cluster_id = ''c1'', hc_host_id = ''h1'', hc_ip_address = 167772161, hc_state = 1\<rparr>]\<rparr>"

theorem ensure_host_cluster_active_spec_witness:
  "\<exists>d'. ensure_host_cluster_active example_member_db example_cluster ''h1'' = Inr (167772161, d') \<and>
     \<lparr>hc_cluster_id = ''c1'', hc_host_id = ''h1'', hc_ip_address = 167772161, hc_state = 0\<rparr> \<in> set (host_clusters d')"
proof -
  have k: "db_keys example_member_db" by (simp add: db_keys_def example_member_db_def empty_db_def)
  have "\<exists>d'. ensure_host_cluster_active example_member_db example_cluster ''h1'' = Inr (167772161, d')"
    by (simp add: ensure_host_cluster_active_def example_member_db_def example_cluster_def empty_db_def)
  then obtain d' where d': "ensure_host_cluster_active example_member_db example_cluster ''h1'' = Inr (167772161, d')"
    by blast
  from ensure_host_cluster_active_spec [OF k d'] d' show ?thesis by (simp add: example_cluster_def)
qed

text \<open>
  C31.  LAN owner election is sticky.  The elected owner is a carrier (or empty without
  carriers); a recorded owner that still is a carrier keeps the role whatever carriers join;
  electing again with the same carriers returns the same owner and writes nothing.
\<close>

theorem elect_lan_vip_owner_sticky:
  assumes "db_keys d" and "elect_lan_vip_owner d cid carriers = Inr (owner, d')"
  shows "(carriers \<noteq> [] \<longrightarrow> owner \<in> set carriers) \<and>
    (\<forall>r \<in> set (cluster_lan_vip_owner d). lo_cluster_id r = cid \<and> lo_host_id r \<in> set carriers \<longrightarrow>
       owner = lo_host_id r \<and> d' = d) \<and>
    elect_lan_vip_owner d' cid carriers = Inr (owner, d')"
proof (cases "\<exists>r \<in> set (cluster_lan_vip_owner d). lo_cluster_id r = cid \<and> lo_host_id r \<in> set carriers")
  case True
  then obtain r where r: "r \<in> set (cluster_lan_vip_owner d)" "lo_cluster_id r = cid" "lo_host_id r \<in> set carriers"
    by blast
  have f: "find (\<lambda>r. lo_cluster_id r = cid) (cluster_lan_vip_owner d) = Some r"
    using find_distinct_key [of lo_cluster_id "cluster_lan_vip_owner d" r] assms(1) r by (simp add: db_keys_def)
  have uniq: "x = r" if "x \<in> set (cluster_lan_vip_owner d)" "lo_cluster_id x = cid" for x
    using assms(1) r that distinct_map_eq [of lo_cluster_id "cluster_lan_vip_owner d" x r] by (auto simp: db_keys_def)
  from f r assms(2) have o: "owner = lo_host_id r" and d': "d' = d" by (simp_all add: elect_lan_vip_owner_def)
  have again: "elect_lan_vip_owner d' cid carriers = Inr (owner, d')" using assms(2) by (simp only: d')
  show ?thesis using o d' r(3) uniq again by blast
next
  case False
  then have e: "elect_lan_vip_owner d cid carriers = replace_lan_vip_owner d cid carriers"
    by (auto simp: elect_lan_vip_owner_def dest!: find_Some_mem split: option.split)
  show ?thesis
  proof (cases carriers)
    case Nil
    with e assms(2) have "owner = ''''" "d' = d" by (simp_all add: replace_lan_vip_owner_def)
    with Nil e show ?thesis by (simp add: replace_lan_vip_owner_def)
  next
    case (Cons h hs)
    with e assms(2) have o: "owner = h" and d': "d' = d\<lparr>cluster_lan_vip_owner :=
        del_rows (\<lambda>r. lo_cluster_id r = cid) (cluster_lan_vip_owner d) @ [\<lparr>lo_cluster_id = cid, lo_host_id = h\<rparr>]\<rparr>"
      by (auto simp: replace_lan_vip_owner_def split: if_splits)
    have "find (\<lambda>r. lo_cluster_id r = cid) (filter (\<lambda>r. lo_cluster_id r \<noteq> cid) rs @ [\<lparr>lo_cluster_id = cid, lo_host_id = h\<rparr>])
        = Some \<lparr>lo_cluster_id = cid, lo_host_id = h\<rparr>" for rs :: "LanVipOwnerRow list"
      by (induction rs) auto
    then have "elect_lan_vip_owner d' cid carriers = Inr (owner, d')"
      using Cons o by (simp add: elect_lan_vip_owner_def d' del_rows_def)
    with False Cons o show ?thesis by auto
  qed
qed

text \<open>Witness of C31: a recorded owner keeps the role when a lower-sorting carrier joins.\<close>

theorem elect_lan_vip_owner_sticky_witness:
  "elect_lan_vip_owner (example_member_db\<lparr>cluster_lan_vip_owner := [\<lparr>lo_cluster_id = ''c1'', lo_host_id = ''h1''\<rparr>]\<rparr>)
     ''c1'' [''h0'', ''h1''] =
   Inr (''h1'', example_member_db\<lparr>cluster_lan_vip_owner := [\<lparr>lo_cluster_id = ''c1'', lo_host_id = ''h1''\<rparr>]\<rparr>)"
proof -
  let ?d = "example_member_db\<lparr>cluster_lan_vip_owner := [\<lparr>lo_cluster_id = ''c1'', lo_host_id = ''h1''\<rparr>]\<rparr>"
  have k: "db_keys ?d" by (simp add: db_keys_def example_member_db_def empty_db_def)
  have "elect_lan_vip_owner ?d ''c1'' [''h0'', ''h1''] = Inr (''h1'', ?d)"
    by (simp add: elect_lan_vip_owner_def)
  from elect_lan_vip_owner_sticky [OF k this] show ?thesis by blast
qed

end
