(* ===== verification/Db_Vm.thy ===== *)
theory Db_Vm
  imports Db_Ipam
begin

text \<open>
  Machines in the controller's database (\<open>basis-controller/src/db.rs\<close>): the capacity gate and
  the reservation transaction \<open>insert_vm\<close>, the scheduler's usage snapshot, state changes, and
  the acknowledgement of teardown.  Sums over a table are taken exactly; SQLite reports an error
  instead once a sum leaves 64 bits.
\<close>

subsection \<open>Reading machines\<close>

definition get_vm :: "db \<Rightarrow> string \<Rightarrow> (DbError, VmRow) res" where
  "get_vm d i = (case find (\<lambda>v. vm_id v = i) (vms d) of Some v \<Rightarrow> Inr v | None \<Rightarrow> Inl (NotFound i))"

definition get_vm_by_name :: "db \<Rightarrow> string \<Rightarrow> string \<Rightarrow> VmRow option" where
  "get_vm_by_name d cid name = find (\<lambda>v. vm_cluster_id v = cid \<and> vm_name v = name) (vms d)"

definition list_vms :: "db \<Rightarrow> string option \<Rightarrow> VmRow list" where
  "list_vms d cid = (case cid of Some c \<Rightarrow> filter (\<lambda>v. vm_cluster_id v = c) (vms d) | None \<Rightarrow> vms d)"

definition list_vms_on_host :: "db \<Rightarrow> string \<Rightarrow> VmRow list" where
  "list_vms_on_host d hid = filter (\<lambda>v. vm_host_id v = hid) (vms d)"

definition list_vm_ids_on_host :: "db \<Rightarrow> string \<Rightarrow> string list" where
  "list_vm_ids_on_host d hid = map vm_id (filter (\<lambda>v. vm_host_id v = hid) (vms d))"

definition gpus_for_vm :: "db \<Rightarrow> string \<Rightarrow> GpuAssignment list" where
  "gpus_for_vm d i = filter (\<lambda>g. ga_vm_id g = i) (vm_gpus d)"

text \<open>\<open>gpus_for_vms\<close>: every requested id is a key, also without GPUs.\<close>

definition gpus_for_vms :: "db \<Rightarrow> string list \<Rightarrow> string \<rightharpoonup> GpuAssignment list" where
  "gpus_for_vms d ids =
     fold (\<lambda>g m. m(ga_vm_id g \<mapsto> (case m (ga_vm_id g) of Some gs \<Rightarrow> gs | None \<Rightarrow> []) @ [g]))
       (filter (\<lambda>g. ga_vm_id g \<in> set ids) (vm_gpus d)) (\<lambda>i. if i \<in> set ids then Some [] else None)"

definition from_scheduler_pick :: "string \<Rightarrow> string \<Rightarrow> GpuInfo \<Rightarrow> GpuAssignment" where
  "from_scheduler_pick vid hid g = \<lparr>ga_vm_id = vid, ga_host_id = hid, ga_pci_address = gi_pci_address g,
     ga_model = gi_model g, ga_iommu_group = gi_iommu_group g, ga_nvlink_group = as_i64 (gi_nvlink_group g)\<rparr>"

subsection \<open>The usage of a host\<close>

text \<open>
  The data footprint of a stored machine as the SQL reads it: \<open>json_each\<close> over the disks, each
  \<open>min_size_gib\<close> cast to an integer, where a JSON number beyond 64 signed bits is clamped.
\<close>

definition stored_data_gib :: "VmRow \<Rightarrow> int" where
  "stored_data_gib v = sum_list (map (\<lambda>s. clamp_i64 (int (sd_min_size_gib s))) (vm_storage_disks v))"

definition used_on_host :: "(VmRow \<Rightarrow> int) \<Rightarrow> db \<Rightarrow> string \<Rightarrow> int" where
  "used_on_host f d hid = sum_list (map f (list_vms_on_host d hid))"

definition usage_entry :: "(string \<rightharpoonup> HostUsage) \<Rightarrow> string \<Rightarrow> HostUsage" where
  "usage_entry m hid = (case m hid of Some u \<Rightarrow> u | None \<Rightarrow> HostUsage_default)"

definition snapshot_sums :: "db \<Rightarrow> string \<rightharpoonup> HostUsage" where
  "snapshot_sums d = (\<lambda>hid. if list_vms_on_host d hid = [] then None
     else Some \<lparr>hu_used_cpu = used_on_host vm_cpu d hid, hu_used_memory_mib = used_on_host vm_memory_mib d hid,
       hu_used_rootfs_gib = used_on_host vm_disk_gib d hid, hu_used_data_gib = used_on_host stored_data_gib d hid,
       hu_assigned_pci = {}, hu_vms_by_cluster = Map.empty\<rparr>)"

definition snapshot_gpus :: "GpuAssignment list \<Rightarrow> (string \<rightharpoonup> HostUsage) \<Rightarrow> string \<rightharpoonup> HostUsage" where
  "snapshot_gpus gs m = fold (\<lambda>g m. m(ga_host_id g \<mapsto>
     (usage_entry m (ga_host_id g))\<lparr>hu_assigned_pci :=
        insert (ga_pci_address g) (hu_assigned_pci (usage_entry m (ga_host_id g)))\<rparr>)) gs m"

definition snapshot_clusters :: "db \<Rightarrow> (string \<times> string) list \<Rightarrow> (string \<rightharpoonup> HostUsage) \<Rightarrow> string \<rightharpoonup> HostUsage" where
  "snapshot_clusters d ks m = fold (\<lambda>(hid, cid) m. m(hid \<mapsto>
     (usage_entry m hid)\<lparr>hu_vms_by_cluster := (hu_vms_by_cluster (usage_entry m hid))(cid \<mapsto>
        wrap_u32 (length (filter (\<lambda>v. vm_host_id v = hid \<and> vm_cluster_id v = cid) (vms d))))\<rparr>)) ks m"

definition host_usage_snapshot :: "db \<Rightarrow> string \<rightharpoonup> HostUsage" where
  "host_usage_snapshot d =
     snapshot_clusters d (dedup (map (\<lambda>v. (vm_host_id v, vm_cluster_id v)) (vms d)))
       (snapshot_gpus (vm_gpus d) (snapshot_sums d))"

subsection \<open>Reserving a machine\<close>

text \<open>The \<open>WHERE EXISTS\<close> gate of the insertion.\<close>

definition capacity_gate :: "db \<Rightarrow> VmRow \<Rightarrow> bool" where
  "capacity_gate d v \<longleftrightarrow> list_ex (\<lambda>h. h_id h = vm_host_id v \<and> h_healthy h \<and>
     effective_cpu (h_total_cpu h) (cpu_overcommit_ratio d) - used_on_host vm_cpu d (h_id h) \<ge> vm_cpu v \<and>
     h_total_memory_mib h - used_on_host vm_memory_mib d (h_id h) \<ge> vm_memory_mib v \<and>
     h_rootfs_total_bytes h - used_on_host vm_disk_gib d (h_id h) * GIB \<ge> sat_mul_i64 (vm_disk_gib v) GIB \<and>
     h_data_total_bytes h - used_on_host stored_data_gib d (h_id h) * GIB
       \<ge> sat_mul_i64 (storage_disks_sum_gib v) GIB) (hosts d)"

definition insert_gpu :: "VmRow \<Rightarrow> GpuAssignment \<Rightarrow> db \<Rightarrow> (DbError, db) res" where
  "insert_gpu v g d =
     (if list_ex (\<lambda>r. ga_pci_address r = ga_pci_address g \<and>
            (ga_vm_id r = ga_vm_id g \<or> ga_host_id r = ga_host_id g)) (vm_gpus d)
      then Inl (CapacityRaced (vm_host_id v))
      else if \<not> list_ex (\<lambda>r. vm_id r = ga_vm_id g) (vms d) then Inl (Sqlx ForeignKey)
      else Inr (d\<lparr>vm_gpus := vm_gpus d @ [g]\<rparr>))"

definition assignment_row :: "VmRow \<Rightarrow> DiskPlacement \<Rightarrow> PoolDiskAssignmentRow" where
  "assignment_row v p = \<lparr>pa_assignment_id = vm_id v @ ''-'' @ show_nat (dp_disk_index p),
     pa_host_id = vm_host_id v, pa_pool = dp_pool p, pa_device_id = dp_device_id p, pa_vm_id = vm_id v,
     pa_disk_index = int (dp_disk_index p), pa_cluster_id = vm_cluster_id v,
     pa_purpose = DiskPurpose_as_db_str (dp_purpose p), pa_min_size_gib = as_i64 (dp_min_size_gib p),
     pa_actual_size_gib = None, pa_state = ''pending''\<rparr>"

definition insert_disk :: "VmRow \<Rightarrow> DiskPlacement \<Rightarrow> db \<Rightarrow> (DbError, db) res" where
  "insert_disk v p d =
     (let row = assignment_row v p in
      if list_ex (\<lambda>r. pa_assignment_id r = pa_assignment_id row \<or>
            (pa_vm_id r = pa_vm_id row \<and> pa_disk_index r = pa_disk_index row)) (pool_disk_assignment d)
      then Inl (CapacityRaced (vm_host_id v))
      else Inr (d\<lparr>pool_disk_assignment := pool_disk_assignment d @ [row]\<rparr>))"

definition insert_vm :: "db \<Rightarrow> VmRow \<Rightarrow> GpuAssignment list \<Rightarrow> DiskPlacement list \<Rightarrow> (DbError, db) res" where
  "insert_vm d v gpus disks =
     (if \<not> capacity_gate d v then
        (if list_ex (\<lambda>h. h_id h = vm_host_id v \<and> h_healthy h) (hosts d)
         then Inl (CapacityRaced (vm_host_id v)) else Inl (HostUnavailable (vm_host_id v)))
      else if list_ex (\<lambda>r. vm_id r = vm_id v \<or> (vm_cluster_id r = vm_cluster_id v \<and> vm_name r = vm_name v)) (vms d)
      then Inl (Conflict (vm_name v))
      else if \<not> list_ex (\<lambda>c. c_id c = vm_cluster_id v) (clusters d) then Inl (Sqlx ForeignKey)
      else and_then (fold_res (insert_gpu v) gpus (d\<lparr>vms := vms d @ [v]\<rparr>)) (fold_res (insert_disk v) disks))"

subsection \<open>State changes and teardown\<close>

definition update_vm_state :: "db \<Rightarrow> string \<Rightarrow> int \<Rightarrow> string \<Rightarrow> string \<Rightarrow> (DbError, db) res" where
  "update_vm_state d i st msg now =
     (if \<not> list_ex (\<lambda>v. vm_id v = i) (vms d) then Inl (NotFound i)
      else Inr (d\<lparr>vms := upd_rows (\<lambda>v. vm_id v = i)
        (\<lambda>v. v\<lparr>vm_state := st, vm_error_message := msg, vm_updated_at := now\<rparr>) (vms d)\<rparr>))"

definition mark_vm_pending_teardown :: "db \<Rightarrow> string \<Rightarrow> string \<Rightarrow> (DbError, db) res" where
  "mark_vm_pending_teardown d i now =
     (if \<not> list_ex (\<lambda>v. vm_id v = i) (vms d) then Inl (NotFound i)
      else Inr (d\<lparr>vms := upd_rows (\<lambda>v. vm_id v = i)
        (\<lambda>v. v\<lparr>vm_state := VM_STATE_PENDING_TEARDOWN, vm_updated_at := now\<rparr>) (vms d)\<rparr>))"

definition list_pending_vm_tombstones :: "db \<Rightarrow> string \<Rightarrow> string list" where
  "list_pending_vm_tombstones d hid =
     map vm_id (filter (\<lambda>v. vm_host_id v = hid \<and> vm_state v = VM_STATE_PENDING_TEARDOWN) (vms d))"

text \<open>The number of rows the statement changes is its result.\<close>

definition failable_on_host :: "string \<Rightarrow> VmRow \<Rightarrow> bool" where
  "failable_on_host hid v \<longleftrightarrow> vm_host_id v = hid \<and> vm_state v \<notin> {STATE_STOPPED, STATE_FAILED}"

definition mark_vms_failed_on_host :: "db \<Rightarrow> string \<Rightarrow> string \<Rightarrow> string \<Rightarrow> nat \<times> db" where
  "mark_vms_failed_on_host d hid reason now =
     (length (filter (failable_on_host hid) (vms d)),
      d\<lparr>vms := upd_rows (failable_on_host hid)
        (\<lambda>v. v\<lparr>vm_state := STATE_FAILED, vm_error_message := reason, vm_updated_at := now\<rparr>) (vms d)\<rparr>)"

definition ackable_vm :: "string \<Rightarrow> string \<Rightarrow> VmRow \<Rightarrow> bool" where
  "ackable_vm hid i v \<longleftrightarrow> vm_id v = i \<and> vm_host_id v = hid \<and> vm_state v = VM_STATE_PENDING_TEARDOWN"

text \<open>One acknowledged machine; deleting its row cascades to \<open>vm_gpus\<close>.\<close>

definition ack_vm :: "string \<Rightarrow> string \<Rightarrow> db \<Rightarrow> db" where
  "ack_vm hid i d = d\<lparr>
     ip_allocations := del_rows (\<lambda>r. ia_vm_id r = Some i) (ip_allocations d),
     vms := del_rows (ackable_vm hid i) (vms d),
     vm_gpus := del_rows (\<lambda>g. list_ex (\<lambda>v. ackable_vm hid i v \<and> ga_vm_id g = vm_id v) (vms d)) (vm_gpus d)\<rparr>"

definition drop_drained_cluster :: "string \<Rightarrow> db \<Rightarrow> db" where
  "drop_drained_cluster cid d =
     (if length (filter (\<lambda>r. hc_cluster_id r = cid) (host_clusters d)) +
         length (filter (\<lambda>v. vm_cluster_id v = cid) (vms d)) = 0
      then d\<lparr>ip_allocations := del_rows (\<lambda>r. ia_cluster_id r = Some cid) (ip_allocations d),
             clusters := del_rows (\<lambda>c. c_id c = cid) (clusters d),
             cluster_lan_vip_owner := del_rows (\<lambda>r. lo_cluster_id r = cid) (cluster_lan_vip_owner d)\<rparr>
      else d)"

definition ack_cluster :: "string \<Rightarrow> nat \<Rightarrow> db \<Rightarrow> db" where
  "ack_cluster hid vni d =
     (case find (\<lambda>c. c_vni c = int vni) (clusters d) of
        None \<Rightarrow> d
      | Some c \<Rightarrow> drop_drained_cluster (c_id c)
          (d\<lparr>host_clusters := del_rows (\<lambda>r. hc_host_id r = hid \<and> hc_state r = 1 \<and> hc_cluster_id r = c_id c)
               (host_clusters d)\<rparr>))"

definition ack_tombstones :: "db \<Rightarrow> string \<Rightarrow> nat list \<Rightarrow> string list \<Rightarrow> db" where
  "ack_tombstones d hid vnis ids = fold (ack_cluster hid) vnis (fold (ack_vm hid) ids d)"

subsection \<open>Lemmas on the usage of a host\<close>

lemma used_on_host_cong: "list_vms_on_host d hid = list_vms_on_host d' hid \<Longrightarrow> used_on_host f d hid = used_on_host f d' hid"
  by (simp add: used_on_host_def)

lemma list_vms_on_host_snoc:
  "list_vms_on_host (d\<lparr>vms := vms d @ [v]\<rparr>) hid = list_vms_on_host d hid @ (if vm_host_id v = hid then [v] else [])"
  by (simp add: list_vms_on_host_def)

lemma used_on_host_snoc:
  "used_on_host f (d\<lparr>vms := vms d @ [v]\<rparr>) hid = used_on_host f d hid + (if vm_host_id v = hid then f v else 0)"
  by (simp add: used_on_host_def list_vms_on_host_snoc)

lemma used_on_host_upd [simp]:
  "used_on_host f (d\<lparr>vm_gpus := g\<rparr>) hid = used_on_host f d hid"
  "used_on_host f (d\<lparr>pool_disk_assignment := a\<rparr>) hid = used_on_host f d hid"
  "used_on_host f (d\<lparr>ip_allocations := i\<rparr>) hid = used_on_host f d hid"
  "used_on_host f (d\<lparr>host_clusters := hc\<rparr>) hid = used_on_host f d hid"
  "used_on_host f (d\<lparr>clusters := cs\<rparr>) hid = used_on_host f d hid"
  "used_on_host f (d\<lparr>cluster_lan_vip_owner := lo\<rparr>) hid = used_on_host f d hid"
  by (simp_all add: used_on_host_def list_vms_on_host_def)

text \<open>Changing columns other than the host and the summed one keeps every sum; deleting rows lowers it.\<close>

lemma used_on_host_upd_rows:
  assumes "\<And>v. vm_host_id (g v) = vm_host_id v" "\<And>v. f (g v) = f v"
  shows "used_on_host f (d\<lparr>vms := upd_rows P g (vms d)\<rparr>) hid = used_on_host f d hid"
proof -
  have "sum_list (map f (filter (\<lambda>v. vm_host_id v = hid) (upd_rows P g vs))) =
        sum_list (map f (filter (\<lambda>v. vm_host_id v = hid) vs))" for vs
    by (induction vs) (auto simp: upd_rows_def assms)
  then show ?thesis by (simp add: used_on_host_def list_vms_on_host_def)
qed

lemma used_on_host_del_rows:
  assumes "\<And>v. v \<in> set (vms d) \<Longrightarrow> 0 \<le> f v"
  shows "used_on_host f (d\<lparr>vms := del_rows P (vms d)\<rparr>) hid \<le> used_on_host f d hid"
proof -
  have "(\<forall>v \<in> set vs. 0 \<le> f v) \<Longrightarrow> sum_list (map f (filter (\<lambda>v. vm_host_id v = hid) (del_rows P vs)))
      \<le> sum_list (map f (filter (\<lambda>v. vm_host_id v = hid) vs))" for vs
    by (induction vs) (auto simp: del_rows_def)
  with assms show ?thesis by (simp add: used_on_host_def list_vms_on_host_def)
qed

lemma usage_entry_upd [simp]: "usage_entry (m(k \<mapsto> u)) hid = (if hid = k then u else usage_entry m hid)"
  by (simp add: usage_entry_def)

lemma snapshot_sums_entry:
  "usage_entry (snapshot_sums d) hid = \<lparr>hu_used_cpu = used_on_host vm_cpu d hid,
     hu_used_memory_mib = used_on_host vm_memory_mib d hid, hu_used_rootfs_gib = used_on_host vm_disk_gib d hid,
     hu_used_data_gib = used_on_host stored_data_gib d hid, hu_assigned_pci = {}, hu_vms_by_cluster = Map.empty\<rparr>"
  by (simp add: usage_entry_def snapshot_sums_def used_on_host_def HostUsage_default_def)

lemma snapshot_gpus_entry:
  "usage_entry (snapshot_gpus gs m) hid = (usage_entry m hid)\<lparr>hu_assigned_pci :=
     hu_assigned_pci (usage_entry m hid) \<union> ga_pci_address ` {g \<in> set gs. ga_host_id g = hid}\<rparr>"
proof (induction gs arbitrary: m)
  case Nil
  then show ?case by (simp add: snapshot_gpus_def)
next
  case (Cons g gs)
  let ?m = "m(ga_host_id g \<mapsto> (usage_entry m (ga_host_id g))\<lparr>hu_assigned_pci :=
        insert (ga_pci_address g) (hu_assigned_pci (usage_entry m (ga_host_id g)))\<rparr>)"
  have step: "snapshot_gpus (g # gs) m = snapshot_gpus gs ?m" by (simp add: snapshot_gpus_def)
  show ?case unfolding step Cons.IH usage_entry_upd by (auto intro!: HostUsage.equality)
qed

definition mates_count :: "db \<Rightarrow> string \<Rightarrow> string \<Rightarrow> nat" where
  "mates_count d hid cid = length (filter (\<lambda>v. vm_host_id v = hid \<and> vm_cluster_id v = cid) (vms d))"

lemma snapshot_clusters_entry:
  "usage_entry (snapshot_clusters d ks m) hid = (usage_entry m hid)\<lparr>hu_vms_by_cluster :=
     (\<lambda>cid. if (hid, cid) \<in> set ks then Some (wrap_u32 (mates_count d hid cid)) else hu_vms_by_cluster (usage_entry m hid) cid)\<rparr>"
proof (induction ks arbitrary: m)
  case Nil
  then show ?case by (simp add: snapshot_clusters_def)
next
  case (Cons k ks)
  obtain h c where k: "k = (h, c)" by (cases k)
  let ?m = "m(h \<mapsto> (usage_entry m h)\<lparr>hu_vms_by_cluster := (hu_vms_by_cluster (usage_entry m h))(c \<mapsto>
        wrap_u32 (mates_count d h c))\<rparr>)"
  have step: "snapshot_clusters d (k # ks) m = snapshot_clusters d ks ?m"
    by (simp add: snapshot_clusters_def k mates_count_def)
  show ?case unfolding step Cons.IH usage_entry_upd by (auto simp: k intro!: HostUsage.equality ext)
qed

lemma host_usage_snapshot_entry:
  "usage_entry (host_usage_snapshot d) hid = \<lparr>hu_used_cpu = used_on_host vm_cpu d hid,
     hu_used_memory_mib = used_on_host vm_memory_mib d hid, hu_used_rootfs_gib = used_on_host vm_disk_gib d hid,
     hu_used_data_gib = used_on_host stored_data_gib d hid,
     hu_assigned_pci = ga_pci_address ` {g \<in> set (vm_gpus d). ga_host_id g = hid},
     hu_vms_by_cluster = (\<lambda>cid. if mates_count d hid cid = 0 then None else Some (wrap_u32 (mates_count d hid cid)))\<rparr>"
proof -
  have "(hid, cid) \<in> set (dedup (map (\<lambda>v. (vm_host_id v, vm_cluster_id v)) (vms d))) \<longleftrightarrow> mates_count d hid cid \<noteq> 0" for cid
    by (auto simp: mates_count_def filter_empty_conv)
  then show ?thesis
    unfolding host_usage_snapshot_def snapshot_clusters_entry snapshot_gpus_entry snapshot_sums_entry
    by (auto intro!: HostUsage.equality ext)
qed

subsection \<open>Lemmas on the reservation\<close>

definition gpu_clash :: "GpuAssignment \<Rightarrow> GpuAssignment \<Rightarrow> bool" where
  "gpu_clash g r \<longleftrightarrow> ga_pci_address r = ga_pci_address g \<and> (ga_vm_id r = ga_vm_id g \<or> ga_host_id r = ga_host_id g)"

lemma insert_gpu_alt:
  "insert_gpu v g d =
     (if \<exists>r \<in> set (vm_gpus d). gpu_clash g r then Inl (CapacityRaced (vm_host_id v))
      else if ga_vm_id g \<notin> vm_id ` set (vms d) then Inl (Sqlx ForeignKey)
      else Inr (d\<lparr>vm_gpus := vm_gpus d @ [g]\<rparr>))"
  unfolding insert_gpu_def list_ex_key by (simp add: gpu_clash_def list_ex_iff)

lemma insert_gpus_Inr:
  "fold_res (insert_gpu v) gs d = Inr d' \<Longrightarrow> d' = d\<lparr>vm_gpus := vm_gpus d @ gs\<rparr> \<and>
     (\<forall>g \<in> set gs. ga_vm_id g \<in> vm_id ` set (vms d) \<and> (\<forall>r \<in> set (vm_gpus d). \<not> gpu_clash g r)) \<and>
     sorted_wrt (\<lambda>r g. \<not> gpu_clash g r) gs"
proof (induction gs arbitrary: d)
  case Nil
  then show ?case by simp
next
  case (Cons g gs)
  from Cons.prems have ok: "\<not> (\<exists>r \<in> set (vm_gpus d). gpu_clash g r)" "ga_vm_id g \<in> vm_id ` set (vms d)"
    and rest: "fold_res (insert_gpu v) gs (d\<lparr>vm_gpus := vm_gpus d @ [g]\<rparr>) = Inr d'"
    by (simp_all add: insert_gpu_alt [of v g d] split: if_splits)
  from Cons.IH [OF rest] ok show ?case by auto
qed

text \<open>GPU reservations that name the machine succeed iff their addresses are distinct and free on the host.\<close>

lemma insert_gpus_ok:
  assumes "\<forall>g \<in> set gs. ga_vm_id g = vm_id v \<and> ga_host_id g = vm_host_id v" "vm_id v \<in> vm_id ` set (vms d)"
    "\<forall>r \<in> set (vm_gpus d). ga_vm_id r = vm_id v \<longrightarrow> ga_host_id r = vm_host_id v"
  shows "is_ok (fold_res (insert_gpu v) gs d) \<longleftrightarrow> distinct (map ga_pci_address gs) \<and>
    (\<forall>g \<in> set gs. \<forall>r \<in> set (vm_gpus d). ga_host_id r = vm_host_id v \<longrightarrow> ga_pci_address r \<noteq> ga_pci_address g)"
  using assms
proof (induction gs arbitrary: d)
  case Nil
  then show ?case by (simp add: is_ok_def)
next
  case (Cons g gs)
  let ?free = "\<forall>r \<in> set (vm_gpus d). ga_host_id r = vm_host_id v \<longrightarrow> ga_pci_address r \<noteq> ga_pci_address g"
  have clash: "(\<exists>r \<in> set (vm_gpus d). gpu_clash g r) \<longleftrightarrow> \<not> ?free"
    using Cons.prems(1,3) by (auto simp: gpu_clash_def)
  show ?case
  proof (cases ?free)
    case False
    with clash show ?thesis by (simp add: insert_gpu_alt [of v g d] is_ok_def)
  next
    case True
    let ?d = "d\<lparr>vm_gpus := vm_gpus d @ [g]\<rparr>"
    have "is_ok (fold_res (insert_gpu v) (g # gs) d) \<longleftrightarrow> is_ok (fold_res (insert_gpu v) gs ?d)"
      using True clash Cons.prems(1,2) by (simp add: insert_gpu_alt [of v g d])
    also have "\<dots> \<longleftrightarrow> distinct (map ga_pci_address gs) \<and>
      (\<forall>x \<in> set gs. \<forall>r \<in> set (vm_gpus ?d). ga_host_id r = vm_host_id v \<longrightarrow> ga_pci_address r \<noteq> ga_pci_address x)"
      using Cons.prems by (intro Cons.IH) auto
    finally show ?thesis using True Cons.prems(1) by auto
  qed
qed

definition disk_clash :: "PoolDiskAssignmentRow \<Rightarrow> PoolDiskAssignmentRow \<Rightarrow> bool" where
  "disk_clash p r \<longleftrightarrow> pa_assignment_id r = pa_assignment_id p \<or> (pa_vm_id r = pa_vm_id p \<and> pa_disk_index r = pa_disk_index p)"

lemma insert_disk_alt:
  "insert_disk v p d =
     (if \<exists>r \<in> set (pool_disk_assignment d). disk_clash (assignment_row v p) r then Inl (CapacityRaced (vm_host_id v))
      else Inr (d\<lparr>pool_disk_assignment := pool_disk_assignment d @ [assignment_row v p]\<rparr>))"
  by (auto simp: insert_disk_def disk_clash_def list_ex_iff Let_def)

lemma insert_disks_Inr:
  "fold_res (insert_disk v) ps d = Inr d' \<Longrightarrow>
     d' = d\<lparr>pool_disk_assignment := pool_disk_assignment d @ map (assignment_row v) ps\<rparr> \<and>
     (\<forall>p \<in> set ps. \<forall>r \<in> set (pool_disk_assignment d). \<not> disk_clash (assignment_row v p) r) \<and>
     sorted_wrt (\<lambda>r p. \<not> disk_clash p r) (map (assignment_row v) ps)"
proof (induction ps arbitrary: d)
  case Nil
  then show ?case by simp
next
  case (Cons p ps)
  from Cons.prems have ok: "\<not> (\<exists>r \<in> set (pool_disk_assignment d). disk_clash (assignment_row v p) r)"
    and rest: "fold_res (insert_disk v) ps (d\<lparr>pool_disk_assignment := pool_disk_assignment d @ [assignment_row v p]\<rparr>) = Inr d'"
    by (simp_all add: insert_disk_alt [of v p d] split: if_splits)
  from Cons.IH [OF rest] ok show ?case by auto
qed

lemma disk_clash_same_vm: "disk_clash (assignment_row v p) (assignment_row v q) \<longleftrightarrow> dp_disk_index p = dp_disk_index q"
  by (auto simp: disk_clash_def assignment_row_def)

lemma insert_disks_ok:
  "is_ok (fold_res (insert_disk v) ps d) \<longleftrightarrow> distinct (map dp_disk_index ps) \<and>
     (\<forall>p \<in> set ps. \<forall>r \<in> set (pool_disk_assignment d). \<not> disk_clash (assignment_row v p) r)"
proof (induction ps arbitrary: d)
  case Nil
  then show ?case by (simp add: is_ok_def)
next
  case (Cons p ps)
  show ?case
  proof (cases "\<exists>r \<in> set (pool_disk_assignment d). disk_clash (assignment_row v p) r")
    case True
    then show ?thesis by (auto simp: insert_disk_alt [of v p d] is_ok_def)
  next
    case False
    then have "is_ok (fold_res (insert_disk v) (p # ps) d) \<longleftrightarrow>
      is_ok (fold_res (insert_disk v) ps (d\<lparr>pool_disk_assignment := pool_disk_assignment d @ [assignment_row v p]\<rparr>))"
      by (simp add: insert_disk_alt [of v p d])
    moreover have "(\<forall>q \<in> set ps. dp_disk_index q \<noteq> dp_disk_index p) \<longleftrightarrow> dp_disk_index p \<notin> dp_disk_index ` set ps"
      by (metis (no_types, lifting) image_iff)
    ultimately show ?thesis using False unfolding Cons.IH by (auto simp: disk_clash_same_vm)
  qed
qed

definition vm_key_clash :: "VmRow \<Rightarrow> VmRow \<Rightarrow> bool" where
  "vm_key_clash v r \<longleftrightarrow> vm_id r = vm_id v \<or> (vm_cluster_id r = vm_cluster_id v \<and> vm_name r = vm_name v)"

definition key_taken :: "db \<Rightarrow> VmRow \<Rightarrow> bool" where
  "key_taken d v \<longleftrightarrow> (\<exists>r \<in> set (vms d). vm_key_clash v r)"

definition host_up :: "db \<Rightarrow> VmRow \<Rightarrow> bool" where
  "host_up d v \<longleftrightarrow> (\<exists>h \<in> set (hosts d). h_id h = vm_host_id v \<and> h_healthy h)"

definition claims_free :: "db \<Rightarrow> VmRow \<Rightarrow> GpuAssignment list \<Rightarrow> DiskPlacement list \<Rightarrow> bool" where
  "claims_free d v gpus disks \<longleftrightarrow> distinct (map ga_pci_address gpus) \<and>
     (\<forall>g \<in> set gpus. \<forall>r \<in> set (vm_gpus d). ga_host_id r = vm_host_id v \<longrightarrow> ga_pci_address r \<noteq> ga_pci_address g) \<and>
     distinct (map dp_disk_index disks) \<and>
     (\<forall>p \<in> set disks. \<forall>r \<in> set (pool_disk_assignment d). \<not> disk_clash (assignment_row v p) r)"

text \<open>What a successful reservation writes, and what it has checked.\<close>

lemma insert_vm_Inr:
  assumes "insert_vm d v gpus disks = Inr d'"
  shows "capacity_gate d v \<and> (\<forall>r \<in> set (vms d). \<not> vm_key_clash v r) \<and> vm_cluster_id v \<in> c_id ` set (clusters d) \<and>
    (\<forall>g \<in> set gpus. ga_vm_id g \<in> vm_id ` set (vms d @ [v]) \<and> (\<forall>r \<in> set (vm_gpus d). \<not> gpu_clash g r)) \<and>
    sorted_wrt (\<lambda>r g. \<not> gpu_clash g r) gpus \<and>
    (\<forall>p \<in> set disks. \<forall>r \<in> set (pool_disk_assignment d). \<not> disk_clash (assignment_row v p) r) \<and>
    sorted_wrt (\<lambda>r p. \<not> disk_clash p r) (map (assignment_row v) disks) \<and>
    d' = d\<lparr>vms := vms d @ [v], vm_gpus := vm_gpus d @ gpus,
           pool_disk_assignment := pool_disk_assignment d @ map (assignment_row v) disks\<rparr>"
proof -
  from assms have gate: "capacity_gate d v" "\<forall>r \<in> set (vms d). \<not> vm_key_clash v r" "vm_cluster_id v \<in> c_id ` set (clusters d)"
    and r: "and_then (fold_res (insert_gpu v) gpus (d\<lparr>vms := vms d @ [v]\<rparr>)) (fold_res (insert_disk v) disks) = Inr d'"
    unfolding insert_vm_def list_ex_key by (auto simp: vm_key_clash_def list_ex_iff split: if_splits)
  from r obtain d1 where d1: "fold_res (insert_gpu v) gpus (d\<lparr>vms := vms d @ [v]\<rparr>) = Inr d1"
    "fold_res (insert_disk v) disks d1 = Inr d'" by (auto simp: and_then_Inr)
  note g = insert_gpus_Inr [OF d1(1)] and p = insert_disks_Inr [OF d1(2)]
  from g have e: "d1 = d\<lparr>vms := vms d @ [v], vm_gpus := vm_gpus d @ gpus\<rparr>" by simp
  from g p gate show ?thesis unfolding e by simp
qed

text \<open>When a reservation that names its own machine and host succeeds.\<close>

lemma insert_vm_ok_iff:
  assumes "db_schema d" "\<forall>g \<in> set gpus. ga_vm_id g = vm_id v \<and> ga_host_id g = vm_host_id v"
  shows "is_ok (insert_vm d v gpus disks) \<longleftrightarrow>
    capacity_gate d v \<and> (\<forall>r \<in> set (vms d). \<not> vm_key_clash v r) \<and> vm_cluster_id v \<in> c_id ` set (clusters d) \<and>
    distinct (map ga_pci_address gpus) \<and>
    (\<forall>g \<in> set gpus. \<forall>r \<in> set (vm_gpus d). ga_host_id r = vm_host_id v \<longrightarrow> ga_pci_address r \<noteq> ga_pci_address g) \<and>
    distinct (map dp_disk_index disks) \<and>
    (\<forall>p \<in> set disks. \<forall>r \<in> set (pool_disk_assignment d). \<not> disk_clash (assignment_row v p) r)"
proof (cases "capacity_gate d v \<and> (\<forall>r \<in> set (vms d). \<not> vm_key_clash v r) \<and> vm_cluster_id v \<in> c_id ` set (clusters d)")
  case False
  then show ?thesis unfolding insert_vm_def list_ex_key by (auto simp: is_ok_def vm_key_clash_def list_ex_iff)
next
  case True
  let ?d = "d\<lparr>vms := vms d @ [v]\<rparr>"
  have none: "\<forall>r \<in> set (vm_gpus ?d). ga_vm_id r = vm_id v \<longrightarrow> ga_host_id r = vm_host_id v"
    using assms(1) True by (auto simp: db_schema_def db_refs_def vm_key_clash_def)
  have "\<not> list_ex (\<lambda>r. vm_id r = vm_id v \<or> (vm_cluster_id r = vm_cluster_id v \<and> vm_name r = vm_name v)) (vms d)"
    using True by (auto simp: list_ex_iff vm_key_clash_def)
  with True have e: "insert_vm d v gpus disks = and_then (fold_res (insert_gpu v) gpus ?d) (fold_res (insert_disk v) disks)"
    unfolding insert_vm_def list_ex_key by simp
  have g: "is_ok (fold_res (insert_gpu v) gpus ?d) \<longleftrightarrow> distinct (map ga_pci_address gpus) \<and>
    (\<forall>g \<in> set gpus. \<forall>r \<in> set (vm_gpus d). ga_host_id r = vm_host_id v \<longrightarrow> ga_pci_address r \<noteq> ga_pci_address g)"
    using insert_gpus_ok [OF assms(2), of ?d] none by simp
  have p: "is_ok (fold_res (insert_disk v) disks x) \<longleftrightarrow> distinct (map dp_disk_index disks) \<and>
      (\<forall>p \<in> set disks. \<forall>r \<in> set (pool_disk_assignment d). \<not> disk_clash (assignment_row v p) r)"
    if "fold_res (insert_gpu v) gpus ?d = Inr x" for x
    using insert_gpus_Inr [OF that] by (simp add: insert_disks_ok)
  show ?thesis
  proof (cases "fold_res (insert_gpu v) gpus ?d")
    case (Inl x)
    with g True show ?thesis unfolding e by (auto simp: and_then_def)
  next
    case (Inr x)
    with g True p [OF Inr] show ?thesis unfolding e by (simp add: and_then_def)
  qed
qed

subsection \<open>Capacity is never over-committed\<close>

text \<open>
  Requested sizes that no cast or product can wrap: fewer than \<open>2 ^ 33\<close> GiB of root disk and of
  data disks in all (\<open>disk_gib\<close> is a \<open>u32\<close> on the wire).
\<close>

definition sane_size :: "VmRow \<Rightarrow> bool" where
  "sane_size v \<longleftrightarrow> 0 \<le> vm_cpu v \<and> 0 \<le> vm_memory_mib v \<and> 0 \<le> vm_disk_gib v \<and> vm_disk_gib v < 2 ^ 33 \<and>
     sum_list (map sd_min_size_gib (vm_storage_disks v)) < 2 ^ 33"

definition within_capacity :: "db \<Rightarrow> HostRow \<Rightarrow> bool" where
  "within_capacity d h \<longleftrightarrow>
     used_on_host vm_cpu d (h_id h) \<le> effective_cpu (h_total_cpu h) (cpu_overcommit_ratio d) \<and>
     used_on_host vm_memory_mib d (h_id h) \<le> h_total_memory_mib h \<and>
     used_on_host vm_disk_gib d (h_id h) * GIB \<le> h_rootfs_total_bytes h \<and>
     used_on_host stored_data_gib d (h_id h) * GIB \<le> h_data_total_bytes h"

definition capacity_ok :: "db \<Rightarrow> bool" where
  "capacity_ok d \<longleftrightarrow> (\<forall>h \<in> set (hosts d). within_capacity d h) \<and> (\<forall>v \<in> set (vms d). sane_size v)"

lemma sane_size_data:
  assumes "sane_size v"
  shows "stored_data_gib v = int (sum_list (map sd_min_size_gib (vm_storage_disks v)))"
    and "storage_disks_sum_gib v = stored_data_gib v"
proof -
  let ?xs = "map sd_min_size_gib (vm_storage_disks v)"
  have small: "x < 2 ^ 33" if "x \<in> set ?xs" for x
    using member_le_sum_list [OF that] assms by (simp add: sane_size_def)
  have e: "clamp_i64 (int (sd_min_size_gib s)) = int (sd_min_size_gib s)"
    "as_i64 (sd_min_size_gib s) = int (sd_min_size_gib s)" if "s \<in> set (vm_storage_disks v)" for s
    using small [of "sd_min_size_gib s"] that by (simp_all add: machine_int_simps)
  have map_eq: "map (\<lambda>s. clamp_i64 (int (sd_min_size_gib s))) (vm_storage_disks v) = map (\<lambda>s. int (sd_min_size_gib s)) (vm_storage_disks v)"
    "map (\<lambda>s. as_i64 (sd_min_size_gib s)) (vm_storage_disks v) = map (\<lambda>s. int (sd_min_size_gib s)) (vm_storage_disks v)"
    by (simp_all add: e)
  have s: "sum_list (map (\<lambda>s. int (sd_min_size_gib s)) (vm_storage_disks v)) = int (sum_list ?xs)"
    using sum_list_of_nat [of ?xs, where 'a = int] by (simp add: comp_def)
  show st: "stored_data_gib v = int (sum_list ?xs)" unfolding stored_data_gib_def map_eq s ..
  have "int (sum_list ?xs) < 2 ^ 33" using assms by (simp add: sane_size_def)
  then show "storage_disks_sum_gib v = stored_data_gib v"
    unfolding st storage_disks_sum_gib_def map_eq s by (intro wrap_i64_id) (simp_all add: machine_int_simps)
qed

lemma sat_mul_GIB: "0 \<le> n \<Longrightarrow> n < 2 ^ 33 \<Longrightarrow> sat_mul_i64 n GIB = n * GIB"
  by (simp add: sat_mul_i64_def GIB_def machine_int_simps)

text \<open>The gate is exactly room for one more machine, on a healthy host.\<close>

lemma capacity_gate_iff:
  assumes "sane_size v"
  shows "capacity_gate d v \<longleftrightarrow>
    (\<exists>h \<in> set (hosts d). h_id h = vm_host_id v \<and> h_healthy h \<and> within_capacity (d\<lparr>vms := vms d @ [v]\<rparr>) h)"
proof -
  have data: "0 \<le> stored_data_gib v" "stored_data_gib v < 2 ^ 33"
    using assms by (simp_all add: sane_size_data(1) sane_size_def)
  have r: "sat_mul_i64 (vm_disk_gib v) GIB = vm_disk_gib v * GIB"
    using assms by (intro sat_mul_GIB) (simp_all add: sane_size_def)
  have s: "sat_mul_i64 (storage_disks_sum_gib v) GIB = stored_data_gib v * GIB"
    unfolding sane_size_data(2) [OF assms] by (rule sat_mul_GIB [OF data])
  have "(h_id h = vm_host_id v \<and> h_healthy h \<and>
     effective_cpu (h_total_cpu h) (cpu_overcommit_ratio d) - used_on_host vm_cpu d (h_id h) \<ge> vm_cpu v \<and>
     h_total_memory_mib h - used_on_host vm_memory_mib d (h_id h) \<ge> vm_memory_mib v \<and>
     h_rootfs_total_bytes h - used_on_host vm_disk_gib d (h_id h) * GIB \<ge> vm_disk_gib v * GIB \<and>
     h_data_total_bytes h - used_on_host stored_data_gib d (h_id h) * GIB \<ge> stored_data_gib v * GIB) \<longleftrightarrow>
    (h_id h = vm_host_id v \<and> h_healthy h \<and> within_capacity (d\<lparr>vms := vms d @ [v]\<rparr>) h)" for h
    by (auto simp: within_capacity_def used_on_host_snoc algebra_simps)
  then show ?thesis unfolding capacity_gate_def r s list_ex_iff by simp
qed

lemma within_capacity_cong:
  assumes "\<And>f. used_on_host f d' (h_id h) = used_on_host f d (h_id h)" "cpu_overcommit_ratio d' = cpu_overcommit_ratio d"
  shows "within_capacity d' h \<longleftrightarrow> within_capacity d h"
  using assms by (simp add: within_capacity_def)

lemma insert_vm_capacity:
  assumes "distinct (map h_id (hosts d))" "capacity_ok d" "sane_size v" "insert_vm d v gpus disks = Inr d'"
  shows "capacity_ok d'"
proof -
  note i = insert_vm_Inr [OF assms(4)]
  let ?d = "d\<lparr>vms := vms d @ [v]\<rparr>"
  from i capacity_gate_iff [OF assms(3)] obtain h0 where
    h0: "h0 \<in> set (hosts d)" "h_id h0 = vm_host_id v" "within_capacity ?d h0" by blast
  have "within_capacity ?d h" if h: "h \<in> set (hosts d)" for h
  proof (cases "h_id h = vm_host_id v")
    case True
    then have "h = h0" using distinct_map_eq [OF assms(1) h h0(1)] h0(2) by simp
    with h0(3) show ?thesis by simp
  next
    case False
    then have "used_on_host f ?d (h_id h) = used_on_host f d (h_id h)" for f
      by (simp add: used_on_host_snoc)
    then have "within_capacity ?d h \<longleftrightarrow> within_capacity d h" by (intro within_capacity_cong) simp_all
    with assms(2) h show ?thesis by (simp add: capacity_ok_def)
  qed
  moreover have "within_capacity d' h \<longleftrightarrow> within_capacity ?d h" for h
  proof (rule within_capacity_cong)
    have "d' = ?d\<lparr>vm_gpus := vm_gpus d @ gpus, pool_disk_assignment := pool_disk_assignment d @ map (assignment_row v) disks\<rparr>"
      using i by simp
    then show "used_on_host f d' (h_id h) = used_on_host f ?d (h_id h)" for f by simp
  qed (use i in simp)
  ultimately show ?thesis using i assms(2,3) by (auto simp: capacity_ok_def)
qed

text \<open>An acknowledgement only deletes rows: those of acknowledged machines pending teardown.\<close>

lemma ack_vm_sel [simp]:
  "hosts (ack_vm hid i d) = hosts d" "clusters (ack_vm hid i d) = clusters d"
  "host_clusters (ack_vm hid i d) = host_clusters d" "cpu_overcommit_ratio (ack_vm hid i d) = cpu_overcommit_ratio d"
  by (simp_all add: ack_vm_def)

lemma fold_ack_vm:
  "fold (ack_vm hid) ids d = d\<lparr>
     ip_allocations := del_rows (\<lambda>r. \<exists>i \<in> set ids. ia_vm_id r = Some i) (ip_allocations d),
     vms := del_rows (\<lambda>v. vm_id v \<in> set ids \<and> vm_host_id v = hid \<and> vm_state v = VM_STATE_PENDING_TEARDOWN) (vms d),
     vm_gpus := del_rows (\<lambda>g. \<exists>v \<in> set (vms d). vm_id v \<in> set ids \<and> vm_host_id v = hid \<and>
        vm_state v = VM_STATE_PENDING_TEARDOWN \<and> ga_vm_id g = vm_id v) (vm_gpus d)\<rparr>"
proof (induction ids arbitrary: d)
  case Nil
  then show ?case by (simp add: del_rows_def)
next
  case (Cons i ids)
  have vm: "vms (ack_vm hid i d) = del_rows (ackable_vm hid i) (vms d)" by (simp add: ack_vm_def)
  let ?gone = "\<lambda>ids v. vm_id v \<in> set ids \<and> vm_host_id v = hid \<and> vm_state v = VM_STATE_PENDING_TEARDOWN"
  have ip: "(ia_vm_id r = Some i \<or> (\<exists>j \<in> set ids. ia_vm_id r = Some j)) \<longleftrightarrow> (\<exists>j \<in> set (i # ids). ia_vm_id r = Some j)" for r
    by auto
  have v: "(ackable_vm hid i x \<or> ?gone ids x) \<longleftrightarrow> ?gone (i # ids) x" for x
    by (auto simp: ackable_vm_def)
  have g: "(list_ex (\<lambda>v. ackable_vm hid i v \<and> ga_vm_id x = vm_id v) (vms d) \<or>
      (\<exists>v \<in> set (del_rows (ackable_vm hid i) (vms d)). vm_id v \<in> set ids \<and> vm_host_id v = hid \<and>
         vm_state v = VM_STATE_PENDING_TEARDOWN \<and> ga_vm_id x = vm_id v)) \<longleftrightarrow>
      (\<exists>v \<in> set (vms d). vm_id v \<in> set (i # ids) \<and> vm_host_id v = hid \<and>
         vm_state v = VM_STATE_PENDING_TEARDOWN \<and> ga_vm_id x = vm_id v)" for x
    unfolding list_ex_iff set_del_rows ackable_vm_def list.set by blast
  show ?case unfolding fold_simps comp_def Cons.IH vm
    by (simp add: ack_vm_def del_rows_del_rows ip v g del: set_del_rows list.set)
qed

lemma drop_drained_cluster_sel [simp]:
  "hosts (drop_drained_cluster c d) = hosts d" "vms (drop_drained_cluster c d) = vms d"
  "vm_gpus (drop_drained_cluster c d) = vm_gpus d" "host_clusters (drop_drained_cluster c d) = host_clusters d"
  "cpu_overcommit_ratio (drop_drained_cluster c d) = cpu_overcommit_ratio d"
  by (simp_all add: drop_drained_cluster_def)

lemma ack_cluster_sel [simp]:
  "hosts (ack_cluster hid vni d) = hosts d" "vms (ack_cluster hid vni d) = vms d"
  "vm_gpus (ack_cluster hid vni d) = vm_gpus d"
  "cpu_overcommit_ratio (ack_cluster hid vni d) = cpu_overcommit_ratio d"
  by (simp_all add: ack_cluster_def split: option.split)

lemma fold_ack_cluster_sel [simp]:
  "hosts (fold (ack_cluster hid) vnis d) = hosts d" "vms (fold (ack_cluster hid) vnis d) = vms d"
  "vm_gpus (fold (ack_cluster hid) vnis d) = vm_gpus d"
  "cpu_overcommit_ratio (fold (ack_cluster hid) vnis d) = cpu_overcommit_ratio d"
  by (induction vnis arbitrary: d) simp_all

lemma ack_tombstones_sel:
  "hosts (ack_tombstones d hid vnis ids) = hosts d"
  "cpu_overcommit_ratio (ack_tombstones d hid vnis ids) = cpu_overcommit_ratio d"
  "vms (ack_tombstones d hid vnis ids) =
     del_rows (\<lambda>v. vm_id v \<in> set ids \<and> vm_host_id v = hid \<and> vm_state v = VM_STATE_PENDING_TEARDOWN) (vms d)"
  by (simp_all add: ack_tombstones_def fold_ack_vm)

subsection \<open>Concurrent requests as a machine\<close>

text \<open>
  The single writer connection serialises the transactions of all requests and agent streams;
  any interleaving of them is a sequence of these steps.
\<close>

inductive vm_step :: "db \<Rightarrow> db \<Rightarrow> bool" where
  reserve: "sane_size v \<Longrightarrow> insert_vm d v gpus disks = Inr d' \<Longrightarrow> vm_step d d'"
| set_state: "update_vm_state d i st msg now = Inr d' \<Longrightarrow> vm_step d d'"
| tear_down: "mark_vm_pending_teardown d i now = Inr d' \<Longrightarrow> vm_step d d'"
| host_failed: "vm_step d (snd (mark_vms_failed_on_host d hid reason now))"
| ack: "vm_step d (ack_tombstones d hid vnis ids)"

definition fresh_fleet :: "db \<Rightarrow> bool" where
  "fresh_fleet d \<longleftrightarrow> vms d = [] \<and> distinct (map h_id (hosts d)) \<and>
     (\<forall>h \<in> set (hosts d). 0 \<le> h_total_cpu h \<and> 0 \<le> h_total_memory_mib h \<and> 0 \<le> h_rootfs_total_bytes h \<and> 0 \<le> h_data_total_bytes h)"

definition fleet_ok :: "db \<Rightarrow> bool" where
  "fleet_ok d \<longleftrightarrow> distinct (map h_id (hosts d)) \<and> capacity_ok d"

lemma capacity_ok_upd_vms:
  assumes "capacity_ok d" "\<And>v. vm_host_id (g v) = vm_host_id v" "\<And>v. vm_cpu (g v) = vm_cpu v"
    "\<And>v. vm_memory_mib (g v) = vm_memory_mib v" "\<And>v. vm_disk_gib (g v) = vm_disk_gib v"
    "\<And>v. vm_storage_disks (g v) = vm_storage_disks v"
  shows "capacity_ok (d\<lparr>vms := upd_rows P g (vms d)\<rparr>)"
proof -
  have "used_on_host f (d\<lparr>vms := upd_rows P g (vms d)\<rparr>) hid = used_on_host f d hid"
    if "f = vm_cpu \<or> f = vm_memory_mib \<or> f = vm_disk_gib \<or> f = stored_data_gib" for f hid
    using that by (intro used_on_host_upd_rows) (auto simp: assms(2-6) stored_data_gib_def)
  then have "within_capacity (d\<lparr>vms := upd_rows P g (vms d)\<rparr>) h \<longleftrightarrow> within_capacity d h" for h
    by (simp add: within_capacity_def)
  moreover have "sane_size (g v) \<longleftrightarrow> sane_size v" for v by (simp add: sane_size_def assms(2-6))
  ultimately show ?thesis using assms(1) by (auto simp: capacity_ok_def in_upd_rows)
qed

lemma sane_size_nonneg:
  "sane_size v \<Longrightarrow> 0 \<le> vm_cpu v \<and> 0 \<le> vm_memory_mib v \<and> 0 \<le> vm_disk_gib v \<and> 0 \<le> stored_data_gib v"
  by (simp add: sane_size_data(1)) (simp add: sane_size_def)

lemma ack_tombstones_capacity:
  assumes "capacity_ok d"
  shows "capacity_ok (ack_tombstones d hid vnis ids)"
proof -
  let ?P = "\<lambda>v. vm_id v \<in> set ids \<and> vm_host_id v = hid \<and> vm_state v = VM_STATE_PENDING_TEARDOWN"
  let ?d' = "ack_tombstones d hid vnis ids"
  have le: "used_on_host f ?d' h \<le> used_on_host f d h" if "\<And>v. v \<in> set (vms d) \<Longrightarrow> 0 \<le> f v" for f h
  proof -
    have "used_on_host f ?d' h = used_on_host f (d\<lparr>vms := del_rows ?P (vms d)\<rparr>) h"
      by (rule used_on_host_cong) (simp add: list_vms_on_host_def ack_tombstones_sel)
    with used_on_host_del_rows [OF that] show ?thesis by simp
  qed
  have nn: "0 \<le> vm_cpu v" "0 \<le> vm_memory_mib v" "0 \<le> vm_disk_gib v" "0 \<le> stored_data_gib v"
    if "v \<in> set (vms d)" for v
    using assms sane_size_nonneg that by (auto simp: capacity_ok_def)
  have "within_capacity ?d' h" if "within_capacity d h" for h
  proof -
    have g: "0 \<le> GIB" by (simp add: GIB_def)
    show ?thesis using that le [of vm_cpu "h_id h"] le [of vm_memory_mib "h_id h"]
        mult_right_mono [OF le [of vm_disk_gib "h_id h"] g] mult_right_mono [OF le [of stored_data_gib "h_id h"] g] nn
      by (simp add: within_capacity_def ack_tombstones_sel)
  qed
  then show ?thesis using assms by (simp add: capacity_ok_def ack_tombstones_sel)
qed

lemma vm_step_fleet_ok:
  assumes "fleet_ok d" "vm_step d d'"
  shows "fleet_ok d'"
  using assms(2,1)
proof cases
  case (reserve v gpus disks)
  with assms(1) insert_vm_capacity [OF _ _ reserve] insert_vm_Inr [OF reserve(2)] show ?thesis
    by (simp add: fleet_ok_def)
next
  case (set_state i st msg now)
  then show ?thesis using assms(1)
    by (auto simp: update_vm_state_def fleet_ok_def intro!: capacity_ok_upd_vms split: if_splits)
next
  case (tear_down i now)
  then show ?thesis using assms(1)
    by (auto simp: mark_vm_pending_teardown_def fleet_ok_def intro!: capacity_ok_upd_vms split: if_splits)
next
  case (host_failed hid reason now)
  then show ?thesis using assms(1)
    by (auto simp: mark_vms_failed_on_host_def fleet_ok_def intro!: capacity_ok_upd_vms)
next
  case (ack hid vnis ids)
  then show ?thesis using assms(1) by (simp add: fleet_ok_def ack_tombstones_capacity ack_tombstones_sel)
qed

interpretation fleet: invariant_machine fresh_fleet vm_step fleet_ok
proof unfold_locales
  show "fleet_ok d" if "fresh_fleet d" for d
    using that by (auto simp: fresh_fleet_def fleet_ok_def capacity_ok_def within_capacity_def used_on_host_def
        list_vms_on_host_def effective_cpu_nonneg)
  show "fleet_ok t" if "fleet_ok s" "vm_step s t" for s t
    using that by (rule vm_step_fleet_ok)
qed

subsection \<open>Lemmas on failures and on acknowledgements\<close>

lemma insert_gpus_Inl:
  "fold_res (insert_gpu v) gs d = Inl e \<Longrightarrow> \<forall>g \<in> set gs. ga_vm_id g \<in> vm_id ` set (vms d) \<Longrightarrow> e = CapacityRaced (vm_host_id v)"
proof (induction gs arbitrary: d)
  case Nil
  then show ?case by simp
next
  case (Cons g gs)
  then show ?case
    by (cases "\<exists>r \<in> set (vm_gpus d). gpu_clash g r") (auto simp: insert_gpu_alt [of v g d])
qed

lemma insert_disks_Inl: "fold_res (insert_disk v) ps d = Inl e \<Longrightarrow> e = CapacityRaced (vm_host_id v)"
proof (induction ps arbitrary: d)
  case Nil
  then show ?case by simp
next
  case (Cons p ps)
  then show ?case
    by (cases "\<exists>r \<in> set (pool_disk_assignment d). disk_clash (assignment_row v p) r") (auto simp: insert_disk_alt [of v p d])
qed

text \<open>A cluster acknowledgement keeps active memberships, and deletes only drained clusters.\<close>

lemma drop_drained_cluster_clusters:
  "c \<in> set (clusters (drop_drained_cluster cid d)) \<longleftrightarrow> c \<in> set (clusters d) \<and>
     (c_id c = cid \<longrightarrow> cid \<in> hc_cluster_id ` set (host_clusters d) \<or> cid \<in> vm_cluster_id ` set (vms d))"
proof -
  have "length (filter (\<lambda>r. hc_cluster_id r = cid) (host_clusters d)) + length (filter (\<lambda>v. vm_cluster_id v = cid) (vms d)) = 0
      \<longleftrightarrow> cid \<notin> hc_cluster_id ` set (host_clusters d) \<and> cid \<notin> vm_cluster_id ` set (vms d)"
    by (auto simp: filter_empty_conv)
  then show ?thesis by (auto simp: drop_drained_cluster_def)
qed

definition drained :: "ClusterRow \<Rightarrow> db \<Rightarrow> bool" where
  "drained c d \<longleftrightarrow> c_id c \<notin> hc_cluster_id ` set (host_clusters d) \<and> c_id c \<notin> vm_cluster_id ` set (vms d)"

lemma ack_cluster_spec:
  assumes "distinct (map c_vni (clusters d))"
  shows "host_clusters (ack_cluster hid vni d) = del_rows (\<lambda>r. hc_host_id r = hid \<and> hc_state r = 1 \<and>
      (\<exists>c \<in> set (clusters d). c_vni c = int vni \<and> hc_cluster_id r = c_id c)) (host_clusters d) \<and>
    (\<exists>P. clusters (ack_cluster hid vni d) = del_rows P (clusters d)) \<and>
    (\<forall>c \<in> set (clusters d). c \<notin> set (clusters (ack_cluster hid vni d)) \<longrightarrow>
      (\<exists>c' \<in> set (clusters d). c_vni c' = int vni \<and> c_id c' = c_id c) \<and> drained c (ack_cluster hid vni d))"
proof (cases "find (\<lambda>c. c_vni c = int vni) (clusters d)")
  case None
  then have "\<forall>c \<in> set (clusters d). c_vni c \<noteq> int vni" by (simp add: find_None_iff)
  with None show ?thesis by (auto simp: ack_cluster_def del_rows_def intro: exI [of _ "\<lambda>_. False"])
next
  case (Some c0)
  note c0 = find_Some_mem [OF Some]
  have uniq: "c' = c0" if "c' \<in> set (clusters d)" "c_vni c' = int vni" for c'
    using distinct_map_eq [OF assms that(1), of c0] c0 that(2) by simp
  let ?d1 = "d\<lparr>host_clusters := del_rows (\<lambda>r. hc_host_id r = hid \<and> hc_state r = 1 \<and> hc_cluster_id r = c_id c0) (host_clusters d)\<rparr>"
  have e: "ack_cluster hid vni d = drop_drained_cluster (c_id c0) ?d1" using Some by (simp add: ack_cluster_def)
  have hc: "(\<exists>c \<in> set (clusters d). c_vni c = int vni \<and> hc_cluster_id r = c_id c) \<longleftrightarrow> hc_cluster_id r = c_id c0" for r
    using c0 uniq by blast
  have "\<exists>P. clusters (drop_drained_cluster (c_id c0) ?d1) = del_rows P (clusters d)"
    by (auto simp: drop_drained_cluster_def del_rows_def intro: exI [of _ "\<lambda>_. False"])
  moreover have "c_id c = c_id c0 \<and> drained c (ack_cluster hid vni d)"
    if "c \<in> set (clusters d)" "c \<notin> set (clusters (ack_cluster hid vni d))" for c
    using that unfolding e drop_drained_cluster_clusters drained_def by auto
  moreover have "host_clusters (ack_cluster hid vni d) = del_rows (\<lambda>r. hc_host_id r = hid \<and> hc_state r = 1 \<and>
      (\<exists>c \<in> set (clusters d). c_vni c = int vni \<and> hc_cluster_id r = c_id c)) (host_clusters d)"
    unfolding e hc by simp
  ultimately show ?thesis using c0 unfolding e by (metis (no_types, lifting))
qed

lemma fold_ack_cluster_spec:
  "distinct (map c_vni (clusters d)) \<Longrightarrow>
    set (host_clusters (fold (ack_cluster hid) vnis d)) \<subseteq> set (host_clusters d) \<and>
    (\<forall>r \<in> set (host_clusters d). hc_host_id r \<noteq> hid \<or> hc_state r \<noteq> 1 \<longrightarrow> r \<in> set (host_clusters (fold (ack_cluster hid) vnis d))) \<and>
    set (clusters (fold (ack_cluster hid) vnis d)) \<subseteq> set (clusters d) \<and>
    (\<forall>c \<in> set (clusters d). c \<notin> set (clusters (fold (ack_cluster hid) vnis d)) \<longrightarrow>
      (\<exists>c' \<in> set (clusters d). c_vni c' \<in> int ` set vnis \<and> c_id c' = c_id c) \<and> drained c (fold (ack_cluster hid) vnis d))"
proof (induction vnis arbitrary: d)
  case Nil
  then show ?case by simp
next
  case (Cons n vnis)
  let ?d1 = "ack_cluster hid n d"
  note s = ack_cluster_spec [OF Cons.prems, of hid n]
  then have sub: "set (host_clusters ?d1) \<subseteq> set (host_clusters d)" "set (clusters ?d1) \<subseteq> set (clusters d)" by auto
  have "distinct (map c_vni (clusters ?d1))" using s Cons.prems by auto
  note IH = Cons.IH [OF this]
  have keep: "drained c (fold (ack_cluster hid) vnis ?d1)" if "drained c ?d1" for c
    using that IH by (auto simp: drained_def)
  have f: "fold (ack_cluster hid) (n # vnis) d = fold (ack_cluster hid) vnis ?d1" by simp
  have hc: "r \<in> set (host_clusters (fold (ack_cluster hid) vnis ?d1))"
    if "r \<in> set (host_clusters d)" "hc_host_id r \<noteq> hid \<or> hc_state r \<noteq> 1" for r
  proof -
    have "r \<in> set (host_clusters ?d1)" unfolding conjunct1 [OF s] set_del_rows using that by blast
    with IH that(2) show ?thesis by blast
  qed
  have dr: "(\<exists>c' \<in> set (clusters d). c_vni c' \<in> int ` set (n # vnis) \<and> c_id c' = c_id c) \<and>
      drained c (fold (ack_cluster hid) vnis ?d1)"
    if "c \<in> set (clusters d)" "c \<notin> set (clusters (fold (ack_cluster hid) vnis ?d1))" for c
  proof (cases "c \<in> set (clusters ?d1)")
    case True
    from IH have "\<forall>c \<in> set (clusters ?d1). c \<notin> set (clusters (fold (ack_cluster hid) vnis ?d1)) \<longrightarrow>
      (\<exists>c' \<in> set (clusters ?d1). c_vni c' \<in> int ` set vnis \<and> c_id c' = c_id c) \<and> drained c (fold (ack_cluster hid) vnis ?d1)"
      by blast
    with True that(2) obtain c' where "c' \<in> set (clusters ?d1)" "c_vni c' \<in> int ` set vnis" "c_id c' = c_id c"
      "drained c (fold (ack_cluster hid) vnis ?d1)" by blast
    with sub(2) show ?thesis by auto
  next
    case False
    from s have "\<forall>c \<in> set (clusters d). c \<notin> set (clusters ?d1) \<longrightarrow>
      (\<exists>c' \<in> set (clusters d). c_vni c' = int n \<and> c_id c' = c_id c) \<and> drained c ?d1" by blast
    with False that(1) obtain c' where "c' \<in> set (clusters d)" "c_vni c' = int n" "c_id c' = c_id c" "drained c ?d1" by blast
    with keep show ?thesis by auto
  qed
  show ?case unfolding f using IH sub hc dr by (meson order_trans)
qed

subsection \<open>Example data\<close>

definition example_vm :: "string \<Rightarrow> string \<Rightarrow> ipv4 \<Rightarrow> int \<Rightarrow> VmRow" where
  "example_vm i n a st = \<lparr>vm_id = i, vm_name = n, vm_cluster_id = ''c1'', vm_host_id = ''h1'', vm_ip_address = a,
     vm_state = st, vm_cpu = 4, vm_memory_mib = 8192, vm_disk_gib = 100,
     vm_storage_disks = [], vm_image = '''', vm_error_message = '''', vm_created_at = '''', vm_updated_at = ''''\<rparr>"

definition example_claim :: "string \<Rightarrow> string \<Rightarrow> GpuAssignment" where
  "example_claim i pci = from_scheduler_pick i ''h1'' (example_gpu pci 7)"

definition example_fleet :: db where
  "example_fleet = (empty_db (4, 2))\<lparr>hosts := [example_host ''h1'' Map.empty [example_gpu ''a'' 7]], clusters := [example_cluster]\<rparr>"

definition example_busy :: "int \<Rightarrow> db" where
  "example_busy st = example_fleet\<lparr>vms := [example_vm ''v1'' ''m1'' 167772193 st], vm_gpus := [example_claim ''v1'' ''a''],
     ip_allocations := [\<lparr>ia_ip_address = 167772193, ia_scope = cluster_scope ''c1'', ia_vm_id = Some ''v1'', ia_cluster_id = None\<rparr>]\<rparr>"

lemma example_vm_sane: "sane_size (example_vm i n a st)"
  by (simp add: sane_size_def example_vm_def)

lemma example_fleet_fresh: "fresh_fleet example_fleet"
  by (simp add: fresh_fleet_def example_fleet_def empty_db_def example_host_def GIB_def)

lemma example_cluster_id: "c_id example_cluster = ''c1''"
  by (simp add: example_cluster_def)

lemma example_reserve:
  "insert_vm example_fleet (example_vm ''v1'' ''m1'' 167772193 0) [example_claim ''v1'' ''a''] [] =
     Inr (example_fleet\<lparr>vms := [example_vm ''v1'' ''m1'' 167772193 0], vm_gpus := [example_claim ''v1'' ''a'']\<rparr>)"
proof -
  have g: "capacity_gate example_fleet (example_vm ''v1'' ''m1'' 167772193 0)"
    unfolding capacity_gate_iff [OF example_vm_sane]
    by (simp add: example_fleet_def empty_db_def within_capacity_def used_on_host_def list_vms_on_host_def
        example_host_def example_vm_def stored_data_gib_def effective_cpu_def GIB_def machine_int_simps)
  then show ?thesis
    by (simp add: insert_vm_def insert_gpu_def and_then_def example_fleet_def empty_db_def example_cluster_id)
       (simp add: example_claim_def from_scheduler_pick_def example_vm_def)
qed

lemma example_busy_schema: "db_schema (example_busy st)"
  by (simp add: db_schema_def db_keys_def db_refs_def example_busy_def example_fleet_def empty_db_def
      example_cluster_id example_vm_def example_claim_def from_scheduler_pick_def example_host_def)

lemmas example_busy_defs = example_busy_def example_fleet_def empty_db_def example_vm_def example_claim_def
  from_scheduler_pick_def machine_state_defs

subsection \<open>Properties\<close>



text \<open>
  C32.  Every outcome of a reservation.  For GPU claims that name the machine and its host, on a
  database that satisfies its schema: the host is reported unavailable iff no healthy host has
  the id; the reservation conflicts iff there is room but the id or the name in the cluster is
  taken; a missing cluster is a foreign key error; a lost race is reported iff the host is
  healthy but has no room, or one of the GPUs is claimed twice or already claimed on the host,
  or a disk is already assigned; and otherwise exactly the machine, its claims and its disk
  assignments are added, and nothing is written on any error.
\<close>

theorem insert_vm_outcomes:
  assumes "db_schema d" and "\<forall>g \<in> set gpus. ga_vm_id g = vm_id v \<and> ga_host_id g = vm_host_id v"
  shows "insert_vm d v gpus disks =
    (if \<not> host_up d v then Inl (HostUnavailable (vm_host_id v))
     else if \<not> capacity_gate d v then Inl (CapacityRaced (vm_host_id v))
     else if key_taken d v then Inl (Conflict (vm_name v))
     else if vm_cluster_id v \<notin> c_id ` set (clusters d) then Inl (Sqlx ForeignKey)
     else if \<not> claims_free d v gpus disks then Inl (CapacityRaced (vm_host_id v))
     else Inr (d\<lparr>vms := vms d @ [v], vm_gpus := vm_gpus d @ gpus,
                 pool_disk_assignment := pool_disk_assignment d @ map (assignment_row v) disks\<rparr>))"
proof -
  have up: "list_ex (\<lambda>h. h_id h = vm_host_id v \<and> h_healthy h) (hosts d) \<longleftrightarrow> host_up d v" by (auto simp: host_up_def list_ex_iff)
  have gate: "host_up d v" if "capacity_gate d v" using that by (auto simp: host_up_def capacity_gate_def list_ex_iff)
  have tk: "list_ex (\<lambda>r. vm_id r = vm_id v \<or> (vm_cluster_id r = vm_cluster_id v \<and> vm_name r = vm_name v)) (vms d) \<longleftrightarrow> key_taken d v"
    by (auto simp: key_taken_def list_ex_iff vm_key_clash_def)
  have kn: "list_ex (\<lambda>c. c_id c = vm_cluster_id v) (clusters d) \<longleftrightarrow> vm_cluster_id v \<in> c_id ` set (clusters d)" by (simp add: list_ex_key)
  let ?r = "and_then (fold_res (insert_gpu v) gpus (d\<lparr>vms := vms d @ [v]\<rparr>)) (fold_res (insert_disk v) disks)"
  have e: "insert_vm d v gpus disks = (if \<not> capacity_gate d v then
        (if host_up d v then Inl (CapacityRaced (vm_host_id v)) else Inl (HostUnavailable (vm_host_id v)))
      else if key_taken d v then Inl (Conflict (vm_name v)) else if vm_cluster_id v \<notin> c_id ` set (clusters d) then Inl (Sqlx ForeignKey) else ?r)"
    unfolding insert_vm_def up tk kn by simp
  have err: "x = CapacityRaced (vm_host_id v)" if "?r = Inl x" for x
  proof (cases "fold_res (insert_gpu v) gpus (d\<lparr>vms := vms d @ [v]\<rparr>)")
    case (Inl y)
    with that insert_gpus_Inl [OF Inl] assms(2) show ?thesis by (simp add: and_then_def)
  next
    case (Inr y)
    with that insert_disks_Inl [of v disks y x] show ?thesis by (simp add: and_then_def)
  qed
  show ?thesis
  proof (cases "capacity_gate d v \<and> \<not> key_taken d v \<and> vm_cluster_id v \<in> c_id ` set (clusters d)")
    case False
    with gate show ?thesis unfolding e by auto
  next
    case True
    then have r: "insert_vm d v gpus disks = ?r" unfolding e by simp
    have ok: "is_ok ?r \<longleftrightarrow> claims_free d v gpus disks"
      using insert_vm_ok_iff [OF assms(1,2), of disks] True unfolding r claims_free_def key_taken_def by blast
    show ?thesis
    proof (cases ?r)
      case (Inl x)
      with ok err True gate show ?thesis unfolding r by simp
    next
      case (Inr x)
      with insert_vm_Inr [of d v gpus disks x] r ok True gate show ?thesis by simp
    qed
  qed
qed

text \<open>Witness of C32: a second claim of a GPU that a machine on the host already holds loses the race.\<close>

theorem insert_vm_outcomes_witness:
  "insert_vm (example_busy 2) (example_vm ''v2'' ''m2'' 167772194 0) [example_claim ''v2'' ''a''] [] =
     Inl (CapacityRaced ''h1'')"
proof -
  have gate: "capacity_gate (example_busy 2) (example_vm ''v2'' ''m2'' 167772194 0)"
    unfolding capacity_gate_iff [OF example_vm_sane]
    by (simp add: example_busy_defs within_capacity_def used_on_host_def list_vms_on_host_def
        example_host_def stored_data_gib_def effective_cpu_def GIB_def machine_int_simps)
  have named: "\<forall>g \<in> set [example_claim ''v2'' ''a'']. ga_vm_id g = vm_id (example_vm ''v2'' ''m2'' 167772194 0) \<and>
      ga_host_id g = vm_host_id (example_vm ''v2'' ''m2'' 167772194 0)"
    by (simp add: example_busy_defs)
  have "host_up (example_busy 2) (example_vm ''v2'' ''m2'' 167772194 0)"
    "\<not> key_taken (example_busy 2) (example_vm ''v2'' ''m2'' 167772194 0)"
    "vm_cluster_id (example_vm ''v2'' ''m2'' 167772194 0) \<in> c_id ` set (clusters (example_busy 2))"
    "\<not> claims_free (example_busy 2) (example_vm ''v2'' ''m2'' 167772194 0) [example_claim ''v2'' ''a''] []"
    by (simp_all add: host_up_def key_taken_def claims_free_def vm_key_clash_def example_busy_defs example_cluster_id
        example_host_def example_gpu_def)
  with gate insert_vm_outcomes [OF example_busy_schema named, of 2 "[]"] show ?thesis by (simp add: example_vm_def)
qed

text \<open>
  C24.  Tearing a machine down.  Marking it and then acknowledging its tombstone from its host
  removes its row, its GPU claims and its addresses, and touches no other machine's row, claims
  or addresses; until the acknowledgement the row and the claims stay, so neither the GPUs nor
  the capacity are handed out while the host still runs the machine.
\<close>

theorem teardown_releases:
  assumes "db_schema d" and "v \<in> set (vms d)" and "mark_vm_pending_teardown d (vm_id v) now = Inr d1"
  shows "vm_id v \<in> set (list_pending_vm_tombstones d1 (vm_host_id v)) \<and> vm_gpus d1 = vm_gpus d \<and>
    ip_allocations d1 = ip_allocations d \<and>
    (\<forall>f \<in> {vm_cpu, vm_memory_mib, vm_disk_gib, stored_data_gib}. used_on_host f d1 hid = used_on_host f d hid) \<and>
    vms (ack_tombstones d1 (vm_host_id v) [] [vm_id v]) = del_rows (\<lambda>x. vm_id x = vm_id v) (vms d) \<and>
    vm_gpus (ack_tombstones d1 (vm_host_id v) [] [vm_id v]) = del_rows (\<lambda>g. ga_vm_id g = vm_id v) (vm_gpus d) \<and>
    ip_allocations (ack_tombstones d1 (vm_host_id v) [] [vm_id v]) =
      del_rows (\<lambda>r. ia_vm_id r = Some (vm_id v)) (ip_allocations d)"
proof -
  let ?g = "\<lambda>x. x\<lparr>vm_state := VM_STATE_PENDING_TEARDOWN, vm_updated_at := now\<rparr>"
  let ?P = "\<lambda>x. vm_id x = vm_id v"
  from assms(2,3) have d1: "d1 = d\<lparr>vms := upd_rows ?P ?g (vms d)\<rparr>"
    by (auto simp: mark_vm_pending_teardown_def split: if_splits)
  have uniq: "x = v" if "x \<in> set (vms d)" "vm_id x = vm_id v" for x
    using assms(1,2) that distinct_map_eq [of vm_id "vms d" x v] by (auto simp: db_schema_def db_keys_def)
  have v1: "?g v \<in> set (vms d1)" using assms(2) by (auto simp: d1 in_upd_rows intro: bexI [of _ v])
  have gone: "(vm_id x \<in> set [vm_id v] \<and> vm_host_id x = vm_host_id v \<and> vm_state x = VM_STATE_PENDING_TEARDOWN)
      \<longleftrightarrow> vm_id x = vm_id v" if "x \<in> set (vms d1)" for x
  proof -
    from that obtain r where r: "r \<in> set (vms d)" "x = (if ?P r then ?g r else r)" by (auto simp: d1 in_upd_rows)
    then show ?thesis using uniq [OF r(1)] by (cases "?P r") auto
  qed
  have "del_rows (\<lambda>x. vm_id x \<in> set [vm_id v] \<and> vm_host_id x = vm_host_id v \<and> vm_state x = VM_STATE_PENDING_TEARDOWN) (vms d1)
      = del_rows ?P (vms d1)" unfolding del_rows_def by (rule filter_cong) (use gone in auto)
  also have "\<dots> = del_rows ?P (vms d)"
    unfolding d1 by (simp add: del_upd_rows)
  finally have vs: "vms (ack_tombstones d1 (vm_host_id v) [] [vm_id v]) = del_rows ?P (vms d)"
    by (simp add: ack_tombstones_sel)
  have gpu: "(\<exists>x \<in> set (vms d1). vm_id x \<in> set [vm_id v] \<and> vm_host_id x = vm_host_id v \<and>
        vm_state x = VM_STATE_PENDING_TEARDOWN \<and> ga_vm_id y = vm_id x) \<longleftrightarrow> ga_vm_id y = vm_id v" for y
    using v1 by (auto intro!: bexI [OF _ v1])
  have gs: "vm_gpus (ack_tombstones d1 (vm_host_id v) [] [vm_id v]) = del_rows (\<lambda>g. ga_vm_id g = vm_id v) (vm_gpus d)"
    unfolding ack_tombstones_def fold_ack_vm gpu by (simp add: d1)
  have "\<forall>f \<in> {vm_cpu, vm_memory_mib, vm_disk_gib, stored_data_gib}. used_on_host f d1 hid = used_on_host f d hid"
    unfolding d1 by (auto intro!: used_on_host_upd_rows simp: stored_data_gib_def)
  moreover have "vm_id v \<in> set (list_pending_vm_tombstones d1 (vm_host_id v))"
    using v1 by (auto simp: list_pending_vm_tombstones_def intro!: image_eqI [where x = "?g v"])
  moreover have "ip_allocations (ack_tombstones d1 (vm_host_id v) [] [vm_id v]) =
      del_rows (\<lambda>r. ia_vm_id r = Some (vm_id v)) (ip_allocations d)"
    unfolding ack_tombstones_def fold_ack_vm by (simp add: d1)
  moreover have "vm_gpus d1 = vm_gpus d" "ip_allocations d1 = ip_allocations d" by (simp_all add: d1)
  ultimately show ?thesis using vs gs by (intro conjI)
qed

text \<open>Witness of C24: the machine of the example database.\<close>

theorem teardown_releases_witness:
  "\<exists>d1. mark_vm_pending_teardown (example_busy 2) ''v1'' '''' = Inr d1 \<and>
     vms (ack_tombstones d1 ''h1'' [] [''v1'']) = [] \<and> ip_allocations (ack_tombstones d1 ''h1'' [] [''v1'']) = []"
proof -
  let ?v = "example_vm ''v1'' ''m1'' 167772193 2"
  have v: "?v \<in> set (vms (example_busy 2))" by (simp add: example_busy_def)
  have "\<exists>d1. mark_vm_pending_teardown (example_busy 2) (vm_id ?v) '''' = Inr d1"
    by (simp add: mark_vm_pending_teardown_def example_busy_def)
  then obtain d1 where d1: "mark_vm_pending_teardown (example_busy 2) (vm_id ?v) '''' = Inr d1" by blast
  from teardown_releases [OF example_busy_schema v d1] d1 show ?thesis
    by (intro exI [of _ d1]) (simp add: example_busy_defs del_rows_def)
qed



text \<open>
  C33.  A host failure strands a teardown.  When a machine is pending teardown and its host is
  declared failed, the machine's state becomes FAILED, so its tombstone is no longer emitted; an
  acknowledgement that was already under way then releases the machine's addresses but keeps
  its row, which goes on occupying capacity with an address that can be allocated again.
\<close>

theorem host_failure_strands_teardown:
  assumes "db_keys d" and "v \<in> set (vms d)" and "vm_state v = VM_STATE_PENDING_TEARDOWN"
    and d1_def: "d1 = snd (mark_vms_failed_on_host d (vm_host_id v) reason now)"
  shows "vm_id v \<notin> set (list_pending_vm_tombstones d1 (vm_host_id v)) \<and>
    (\<exists>v' \<in> set (vms (ack_tombstones d1 (vm_host_id v) [] [vm_id v])). vm_id v' = vm_id v \<and>
       vm_ip_address v' = vm_ip_address v \<and> vm_cpu v' = vm_cpu v \<and> vm_state v' = STATE_FAILED) \<and>
    Some (vm_id v) \<notin> ia_vm_id ` set (ip_allocations (ack_tombstones d1 (vm_host_id v) [] [vm_id v]))"
proof -
  let ?g = "\<lambda>x. x\<lparr>vm_state := STATE_FAILED, vm_error_message := reason, vm_updated_at := now\<rparr>"
  have d1: "vms d1 = upd_rows (failable_on_host (vm_host_id v)) ?g (vms d)"
    by (simp add: d1_def mark_vms_failed_on_host_def)
  have f: "failable_on_host (vm_host_id v) v" using assms(3) by (simp add: failable_on_host_def machine_state_defs)
  have uniq: "x = v" if "x \<in> set (vms d)" "vm_id x = vm_id v" for x
    using assms(1,2) that distinct_map_eq [of vm_id "vms d" x v] by (auto simp: db_keys_def)
  have row: "x = ?g v" if x: "x \<in> set (vms d1)" "vm_id x = vm_id v" for x
  proof -
    from x(1) obtain r where r: "r \<in> set (vms d)" "x = (if failable_on_host (vm_host_id v) r then ?g r else r)"
      by (auto simp: d1 in_upd_rows)
    then have "r = v" using x(2) by (intro uniq) (auto split: if_splits)
    with r f show ?thesis by simp
  qed
  have mem: "?g v \<in> set (vms d1)" using assms(2) f by (auto simp: d1 in_upd_rows intro!: bexI [of _ v])
  have "vm_id v \<notin> set (list_pending_vm_tombstones d1 (vm_host_id v))"
  proof
    assume "vm_id v \<in> set (list_pending_vm_tombstones d1 (vm_host_id v))"
    then obtain x where "x \<in> set (vms d1)" "vm_id x = vm_id v" "vm_state x = VM_STATE_PENDING_TEARDOWN"
      by (auto simp: list_pending_vm_tombstones_def)
    with row [of x] show False by (simp add: machine_state_defs)
  qed
  moreover have "?g v \<in> set (vms (ack_tombstones d1 (vm_host_id v) [] [vm_id v]))"
    using mem by (simp add: ack_tombstones_sel machine_state_defs)
  moreover have "Some (vm_id v) \<notin> ia_vm_id ` set (ip_allocations (ack_tombstones d1 (vm_host_id v) [] [vm_id v]))"
    unfolding ack_tombstones_def fold_ack_vm by auto
  ultimately show ?thesis by (intro conjI bexI [of _ "?g v"]) simp_all
qed

text \<open>Witness of C33: the example machine, pending teardown.\<close>

theorem host_failure_strands_teardown_witness:
  "ip_allocations (ack_tombstones (snd (mark_vms_failed_on_host (example_busy 6) ''h1'' ''r'' ''t'')) ''h1'' [] [''v1'']) = [] \<and>
   (\<exists>v' \<in> set (vms (ack_tombstones (snd (mark_vms_failed_on_host (example_busy 6) ''h1'' ''r'' ''t'')) ''h1'' [] [''v1''])).
      vm_id v' = ''v1'' \<and> vm_state v' = STATE_FAILED)"
proof -
  let ?v = "example_vm ''v1'' ''m1'' 167772193 6"
  have "db_keys (example_busy 6)" using example_busy_schema [of 6] by (simp add: db_schema_def)
  moreover have "?v \<in> set (vms (example_busy 6))" "vm_state ?v = VM_STATE_PENDING_TEARDOWN"
    by (simp_all add: example_busy_defs)
  ultimately have "\<exists>v' \<in> set (vms (ack_tombstones (snd (mark_vms_failed_on_host (example_busy 6) ''h1'' ''r'' ''t'')) ''h1'' [] [''v1''])).
      vm_id v' = ''v1'' \<and> vm_state v' = STATE_FAILED"
    using host_failure_strands_teardown [of "example_busy 6" ?v, OF _ _ _ refl, of "''r''" "''t''"] by (auto simp: example_vm_def)
  then show ?thesis
    unfolding ack_tombstones_def fold_ack_vm by (simp add: mark_vms_failed_on_host_def example_busy_def del_rows_def)
qed

end
