(* ===== verification/Db_Storage.thy ===== *)
theory Db_Storage
  imports Db_Vm
begin

text \<open>
  The storage side of the controller's database (\<open>basis-controller/src/db.rs\<close>): pools and
  devices as the heartbeats report them, drain markers, disk assignments, and the outbox of
  commands to the agents.
\<close>

subsection \<open>Pools and devices\<close>

definition list_host_pools :: "db \<Rightarrow> string \<Rightarrow> HostPoolRow list" where
  "list_host_pools d hid = filter (\<lambda>r. hp_host_id r = hid) (host_pools d)"

definition list_all_host_pools :: "db \<Rightarrow> HostPoolRow list" where
  "list_all_host_pools d = sort_key (\<lambda>r. (hp_host_id r, hp_pool r)) (host_pools d)"

definition list_pool_devices :: "db \<Rightarrow> string \<Rightarrow> string \<Rightarrow> HostPoolDeviceRow list" where
  "list_pool_devices d hid pool =
     sort_key hd_device_id (filter (\<lambda>r. hd_host_id r = hid \<and> hd_pool r = pool) (host_pool_devices d))"

text \<open>\<open>GROUP BY\<close>: one result per distinct key, with the number of rows that have it.\<close>

definition group_count :: "('r \<Rightarrow> 'k) \<Rightarrow> 'r list \<Rightarrow> ('k \<times> nat) list" where
  "group_count key rs = map (\<lambda>k. (k, length (filter (\<lambda>r. key r = k) rs))) (dedup (map key rs))"

definition pool_reservation_counts ::
  "db \<Rightarrow> ((string \<times> string \<times> string \<times> string \<times> string \<times> string) \<times> nat) list" where
  "pool_reservation_counts d = group_count (\<lambda>r. (pa_host_id r, pa_pool r, pa_device_id r, pa_cluster_id r,
     pa_purpose r, pa_state r)) (pool_disk_assignment d)"

definition pending_command_counts :: "db \<Rightarrow> ((string \<times> string) \<times> nat) list" where
  "pending_command_counts d = group_count (\<lambda>r. (pc_host_id r, pc_state r)) (pending_command d)"

definition cluster_counts_on_device :: "db \<Rightarrow> string \<Rightarrow> string \<Rightarrow> string \<Rightarrow> (string \<times> nat) list" where
  "cluster_counts_on_device d hid pool dev = sort_key fst (group_count pa_cluster_id
     (filter (\<lambda>r. pa_host_id r = hid \<and> pa_pool r = pool \<and> pa_device_id r = dev) (pool_disk_assignment d)))"

definition list_host_replicated_assignments :: "db \<Rightarrow> string \<Rightarrow> (string \<times> string \<times> string) list" where
  "list_host_replicated_assignments d hid =
     map (\<lambda>r. (pa_pool r, pa_device_id r, pa_cluster_id r))
       (filter (\<lambda>r. pa_host_id r = hid \<and> pa_purpose r = ''replicated'') (pool_disk_assignment d))"

subsection \<open>Drain markers\<close>

definition host_drain_markers :: "db \<Rightarrow> string \<Rightarrow> (string \<times> string) \<rightharpoonup> DeviceSchedulingStateRow" where
  "host_drain_markers d hid = fold (\<lambda>r m. m((ds_pool r, ds_device_id r) \<mapsto> r))
     (filter (\<lambda>r. ds_host_id r = hid) (device_scheduling_state d)) Map.empty"

text \<open>\<open>INSERT ... ON CONFLICT DO UPDATE\<close> on the device's key.\<close>

definition upsert_drain :: "DeviceSchedulingStateRow \<Rightarrow> DeviceSchedulingStateRow list \<Rightarrow> DeviceSchedulingStateRow list" where
  "upsert_drain row rs =
     (let same = (\<lambda>r. ds_host_id r = ds_host_id row \<and> ds_pool r = ds_pool row \<and> ds_device_id r = ds_device_id row) in
      if list_ex same rs
      then upd_rows same (\<lambda>r. r\<lparr>ds_state := ds_state row, ds_reason := ds_reason row\<rparr>) rs
      else rs @ [row])"

definition set_device_scheduling_state ::
  "db \<Rightarrow> string \<Rightarrow> string \<Rightarrow> string \<Rightarrow> string \<Rightarrow> string option \<Rightarrow> (DbError, db) res" where
  "set_device_scheduling_state d hid pool dev state reason =
     (if state = ''enabled'' then
        Inr (d\<lparr>device_scheduling_state := del_rows (\<lambda>r. ds_host_id r = hid \<and> ds_pool r = pool \<and> ds_device_id r = dev)
               (device_scheduling_state d)\<rparr>)
      else if state = ''disabled'' then
        Inr (d\<lparr>device_scheduling_state := upsert_drain \<lparr>ds_host_id = hid, ds_pool = pool, ds_device_id = dev,
               ds_state = ''draining'', ds_reason = reason\<rparr> (device_scheduling_state d)\<rparr>)
      else Inl (Malformed state))"

subsection \<open>The outbox\<close>

definition enqueue_pending_command :: "db \<Rightarrow> string \<Rightarrow> string \<Rightarrow> nat list \<Rightarrow> nat \<times> db" where
  "enqueue_pending_command d hid vid payload =
     (next_command_id d,
      d\<lparr>pending_command := pending_command d @ [\<lparr>pc_id = next_command_id d, pc_host_id = hid, pc_vm_id = vid,
          pc_payload = payload, pc_state = ''pending''\<rparr>],
        next_command_id := Suc (next_command_id d)\<rparr>)"

definition list_pending_commands :: "db \<Rightarrow> string \<Rightarrow> (nat \<times> nat list) list" where
  "list_pending_commands d hid = map (\<lambda>r. (pc_id r, pc_payload r))
     (sort_key pc_id (filter (\<lambda>r. pc_host_id r = hid \<and> pc_state r = ''pending'') (pending_command d)))"

definition mark_command_sent :: "db \<Rightarrow> nat \<Rightarrow> db" where
  "mark_command_sent d i =
     d\<lparr>pending_command := upd_rows (\<lambda>r. pc_id r = i) (\<lambda>r. r\<lparr>pc_state := ''sent''\<rparr>) (pending_command d)\<rparr>"

definition ack_pending_commands_for_vm :: "db \<Rightarrow> string \<Rightarrow> db" where
  "ack_pending_commands_for_vm d vid = d\<lparr>pending_command := del_rows (\<lambda>r. pc_vm_id r = vid) (pending_command d)\<rparr>"

subsection \<open>Disk assignments\<close>

text \<open>What an agent reports once it has allocated a disk.\<close>

record DiskAssignment =
  asg_assignment_id :: string
  asg_vm_id :: string
  asg_disk_index :: nat
  asg_pool :: string
  asg_device_id :: string
  asg_actual_size_gib :: nat
  asg_device_path :: string

definition patch_disk :: "DiskAssignment \<Rightarrow> StoredDisk \<Rightarrow> StoredDisk" where
  "patch_disk a s = s\<lparr>sd_actual_size_gib := Some (asg_actual_size_gib a), sd_device_path := Some (asg_device_path a),
     sd_assignment_id := Some (asg_assignment_id a), sd_pool := Some (asg_pool a), sd_device_id := Some (asg_device_id a)\<rparr>"

text \<open>
  \<open>json_set\<close> on the array: it patches the entry at the index, ignores an index beyond the
  length, and at the length itself appends an object that lacks the required fields.  \<open>None\<close>
  is a column that no longer parses as \<open>StoredDisk\<close>s: that case, and a size that \<open>as i64\<close>
  makes negative.
\<close>

definition patch_disks :: "DiskAssignment \<Rightarrow> StoredDisk list \<Rightarrow> StoredDisk list option" where
  "patch_disks a ss =
     (if asg_disk_index a < length ss then
        (if asg_actual_size_gib a < 2 ^ 63
         then Some (ss[asg_disk_index a := patch_disk a (ss ! asg_disk_index a)]) else None)
      else if asg_disk_index a = length ss then None else Some ss)"

definition patch_vm :: "DiskAssignment \<Rightarrow> VmRow \<Rightarrow> VmRow option" where
  "patch_vm a v = (if vm_id v = asg_vm_id a
     then map_option (\<lambda>ss. v\<lparr>vm_storage_disks := ss\<rparr>) (patch_disks a (vm_storage_disks v)) else Some v)"

definition commit_disk_assignment :: "db \<Rightarrow> string \<Rightarrow> DiskAssignment \<Rightarrow> db option" where
  "commit_disk_assignment d hid a =
     map_option (\<lambda>vs. d\<lparr>
         pool_disk_assignment := upd_rows (\<lambda>r. pa_assignment_id r = asg_assignment_id a \<and> pa_host_id r = hid)
           (\<lambda>r. r\<lparr>pa_state := ''committed'', pa_actual_size_gib := Some (as_i64 (asg_actual_size_gib a))\<rparr>)
           (pool_disk_assignment d),
         vms := vs\<rparr>)
       (those (map (patch_vm a) (vms d)))"

text \<open>\<open>VmRow::parsed_disk_assignments\<close>: the disks the agent has acknowledged.\<close>

definition disk_assignment_of :: "VmRow \<Rightarrow> StoredDisk \<Rightarrow> DiskAssignment option" where
  "disk_assignment_of v s =
     (case (sd_assignment_id s, sd_pool s, sd_device_id s) of
        (Some i, Some p, Some dev) \<Rightarrow> Some \<lparr>asg_assignment_id = i, asg_vm_id = vm_id v, asg_disk_index = sd_disk_index s,
           asg_pool = p, asg_device_id = dev,
           asg_actual_size_gib = (case sd_actual_size_gib s of Some n \<Rightarrow> n | None \<Rightarrow> sd_min_size_gib s),
           asg_device_path = (case sd_device_path s of Some x \<Rightarrow> x | None \<Rightarrow> '''')\<rparr>
      | _ \<Rightarrow> None)"

definition parsed_disk_assignments :: "VmRow \<Rightarrow> DiskAssignment list" where
  "parsed_disk_assignments v = List.map_filter (disk_assignment_of v) (vm_storage_disks v)"

subsection \<open>The outbox as a queue per host\<close>

text \<open>
  The contract of an outbox: \<open>enq\<close> appends to the pending commands of its host with an identifier
  no pending command has, \<open>sent\<close> removes the command with the identifier.
\<close>

locale command_outbox =
  fixes enq :: "'s \<Rightarrow> string \<Rightarrow> string \<Rightarrow> 'p \<Rightarrow> nat \<times> 's"
    and sent :: "'s \<Rightarrow> nat \<Rightarrow> 's"
    and pending :: "'s \<Rightarrow> string \<Rightarrow> (nat \<times> 'p) list"
    and ok :: "'s \<Rightarrow> bool"
  assumes pending_enq: "ok s \<Longrightarrow> pending (snd (enq s h v p)) h' = pending s h' @ (if h = h' then [(fst (enq s h v p), p)] else [])"
    and pending_sent: "ok s \<Longrightarrow> pending (sent s i) h = filter (\<lambda>c. fst c \<noteq> i) (pending s h)"
    and ok_enq: "ok s \<Longrightarrow> ok (snd (enq s h v p))"
    and ok_sent: "ok s \<Longrightarrow> ok (sent s i)"
begin

lemma enq_all:
  "ok s \<Longrightarrow> ok (fold (\<lambda>(h, v, p) s. snd (enq s h v p)) cs s) \<and>
    map snd (pending (fold (\<lambda>(h, v, p) s. snd (enq s h v p)) cs s) h') =
      map snd (pending s h') @ map (snd \<circ> snd) (filter (\<lambda>c. fst c = h') cs)"
proof (induction cs arbitrary: s)
  case Nil
  then show ?case by simp
next
  case (Cons c cs)
  obtain h v p where c: "c = (h, v, p)" by (cases c)
  from Cons.IH [OF ok_enq [OF Cons.prems, of h v p]] show ?case
    by (simp add: c pending_enq [OF Cons.prems])
qed

lemma sent_all:
  "ok s \<Longrightarrow> ok (fold (\<lambda>i s. sent s i) is s) \<and>
    pending (fold (\<lambda>i s. sent s i) is s) h = filter (\<lambda>c. fst c \<notin> set is) (pending s h)"
  by (induction "is" arbitrary: s) (auto simp: pending_sent ok_sent intro!: filter_cong)

lemma flush: "ok s \<Longrightarrow> pending (fold (\<lambda>i s. sent s i) (map fst (pending s h)) s) h = []"
  by (simp add: sent_all filter_empty_conv)

end

definition outbox_ok :: "db \<Rightarrow> bool" where
  "outbox_ok d \<longleftrightarrow> sorted_wrt (<) (map pc_id (pending_command d)) \<and> (\<forall>r \<in> set (pending_command d). pc_id r < next_command_id d)"

lemma sorted_wrt_map_filter: "sorted_wrt R (map f xs) \<Longrightarrow> sorted_wrt R (map f (filter P xs))"
  by (induction xs) auto

lemma list_pending_commands_alt:
  assumes "outbox_ok d"
  shows "list_pending_commands d hid =
    map (\<lambda>r. (pc_id r, pc_payload r)) (filter (\<lambda>r. pc_host_id r = hid \<and> pc_state r = ''pending'') (pending_command d))"
proof -
  have "sorted (map pc_id (filter (\<lambda>r. pc_host_id r = hid \<and> pc_state r = ''pending'') (pending_command d)))"
    using sorted_wrt_map_filter [of "(<)" pc_id "pending_command d"] assms
    by (intro strict_sorted_imp_sorted) (simp add: outbox_ok_def)
  then show ?thesis by (simp add: list_pending_commands_def sort_key_id_if_sorted)
qed

lemma outbox_ok_enq: "outbox_ok d \<Longrightarrow> outbox_ok (snd (enqueue_pending_command d h v p))"
  by (auto simp: outbox_ok_def enqueue_pending_command_def sorted_wrt_append less_Suc_eq)

lemma outbox_ok_sent: "outbox_ok d \<Longrightarrow> outbox_ok (mark_command_sent d i)"
  by (auto simp: outbox_ok_def mark_command_sent_def map_upd_rows_id in_upd_rows)

interpretation outbox: command_outbox enqueue_pending_command mark_command_sent list_pending_commands outbox_ok
proof unfold_locales
  fix d :: db and h v p h' i
  assume ok: "outbox_ok d"
  show "outbox_ok (snd (enqueue_pending_command d h v p))" by (rule outbox_ok_enq [OF ok])
  show "outbox_ok (mark_command_sent d i)" by (rule outbox_ok_sent [OF ok])
  show "list_pending_commands (snd (enqueue_pending_command d h v p)) h' =
      list_pending_commands d h' @ (if h = h' then [(fst (enqueue_pending_command d h v p), p)] else [])"
    unfolding list_pending_commands_alt [OF ok] list_pending_commands_alt [OF outbox_ok_enq [OF ok]]
    by (simp add: enqueue_pending_command_def)
  have "map (\<lambda>r. (pc_id r, pc_payload r)) (filter (\<lambda>r. pc_host_id r = h \<and> pc_state r = ''pending'')
        (upd_rows (\<lambda>r. pc_id r = i) (\<lambda>r. r\<lparr>pc_state := ''sent''\<rparr>) rs)) =
      filter (\<lambda>c. fst c \<noteq> i) (map (\<lambda>r. (pc_id r, pc_payload r)) (filter (\<lambda>r. pc_host_id r = h \<and> pc_state r = ''pending'') rs))" for rs
    by (induction rs) (auto simp: upd_rows_def)
  then show "list_pending_commands (mark_command_sent d i) h = filter (\<lambda>c. fst c \<noteq> i) (list_pending_commands d h)"
    unfolding list_pending_commands_alt [OF ok] list_pending_commands_alt [OF outbox_ok_sent [OF ok]]
    by (simp add: mark_command_sent_def)
qed

subsection \<open>Lemmas on disk assignments\<close>

lemma those_map_Some:
  "(\<And>x. x \<in> set xs \<Longrightarrow> f x = Some (g x)) \<Longrightarrow> those (map f xs) = Some (map g xs)"
  by (induction xs) auto

lemma patch_disk_idem: "patch_disk a (patch_disk a s) = patch_disk a s"
  by (simp add: patch_disk_def)

lemma stored_data_gib_patch: "patch_disks a ss = Some ss' \<Longrightarrow> map sd_min_size_gib ss' = map sd_min_size_gib ss"
  by (auto simp: patch_disks_def map_update patch_disk_def split: if_splits) (metis list_update_id map_update)

text \<open>A report for an existing disk patches exactly the machine's entry at the index.\<close>

lemma commit_disk_assignment_Some:
  assumes "distinct (map vm_id (vms d))" "v \<in> set (vms d)" "asg_vm_id a = vm_id v"
    "asg_disk_index a < length (vm_storage_disks v)" "asg_actual_size_gib a < 2 ^ 63"
  defines "v' \<equiv> v\<lparr>vm_storage_disks := (vm_storage_disks v)[asg_disk_index a := patch_disk a (vm_storage_disks v ! asg_disk_index a)]\<rparr>"
  shows "commit_disk_assignment d hid a = Some (d\<lparr>
         pool_disk_assignment := upd_rows (\<lambda>r. pa_assignment_id r = asg_assignment_id a \<and> pa_host_id r = hid)
           (\<lambda>r. r\<lparr>pa_state := ''committed'', pa_actual_size_gib := Some (as_i64 (asg_actual_size_gib a))\<rparr>)
           (pool_disk_assignment d),
         vms := upd_rows (\<lambda>x. vm_id x = vm_id v) (\<lambda>_. v') (vms d)\<rparr>)"
proof -
  have "patch_vm a x = Some (if vm_id x = vm_id v then v' else x)" if "x \<in> set (vms d)" for x
    using distinct_map_eq [OF assms(1) that assms(2)] assms(3-5) by (auto simp: patch_vm_def patch_disks_def v'_def)
  then have "those (map (patch_vm a) (vms d)) = Some (map (\<lambda>x. if vm_id x = vm_id v then v' else x) (vms d))"
    by (rule those_map_Some)
  then show ?thesis by (simp add: commit_disk_assignment_def upd_rows_def)
qed

subsection \<open>Properties\<close>

text \<open>
  C34.  The outbox refines one first-in-first-out queue per host.  Whatever commands are enqueued
  for whatever hosts, the payloads pending for a host are those pending before followed by the
  new ones for that host in their order; and marking everything that was listed for the host
  as sent empties its queue.
\<close>

theorem outbox_fifo:
  assumes "outbox_ok d"
  shows "map snd (list_pending_commands (fold (\<lambda>(h, v, p) d. snd (enqueue_pending_command d h v p)) cs d) hid) =
      map snd (list_pending_commands d hid) @ map (snd \<circ> snd) (filter (\<lambda>c. fst c = hid) cs) \<and>
    list_pending_commands (fold (\<lambda>i d. mark_command_sent d i) (map fst (list_pending_commands d hid)) d) hid = []"
  using outbox.enq_all [OF assms] outbox.flush [OF assms] by blast

text \<open>Witness of C34: three commands for two hosts on an empty outbox.\<close>

theorem outbox_fifo_witness:
  "map snd (list_pending_commands (fold (\<lambda>(h, v, p) d. snd (enqueue_pending_command d h v p))
     [(''h1'', ''v1'', [7]), (''h2'', ''v2'', [8]), (''h1'', ''v3'', [9])] (empty_db (4, 2))) ''h1'') = [[7], [9]]"
proof -
  have "outbox_ok (empty_db (4, 2))" by (simp add: outbox_ok_def empty_db_def)
  from outbox_fifo [OF this, of "[(''h1'', ''v1'', [7]), (''h2'', ''v2'', [8]), (''h1'', ''v3'', [9])]" "''h1''"]
  show ?thesis by (simp only:) (simp add: list_pending_commands_def empty_db_def)
qed

text \<open>
  C35.  Committing an agent's disk report.  A report for an existing disk of a machine is read
  back by \<open>parsed_disk_assignments\<close> exactly as reported, leaves the machine's other disks and
  the requested sizes that the capacity gate sums as they were, and committing the same report
  again, as an agent does after a reconnect, changes nothing.
\<close>

theorem commit_disk_assignment_roundtrip:
  assumes "distinct (map vm_id (vms d))" and "v \<in> set (vms d)" and "asg_vm_id a = vm_id v"
    and "asg_disk_index a < length (vm_storage_disks v)" and "asg_actual_size_gib a < 2 ^ 63"
    and "sd_disk_index (vm_storage_disks v ! asg_disk_index a) = asg_disk_index a"
  shows "\<exists>d' v'. commit_disk_assignment d hid a = Some d' \<and> v' \<in> set (vms d') \<and> vm_id v' = vm_id v \<and>
    a \<in> set (parsed_disk_assignments v') \<and> stored_data_gib v' = stored_data_gib v \<and>
    (\<forall>i. i \<noteq> asg_disk_index a \<longrightarrow> vm_storage_disks v' ! i = vm_storage_disks v ! i) \<and>
    commit_disk_assignment d' hid a = Some d'"
proof -
  let ?k = "asg_disk_index a" and ?ss = "vm_storage_disks v"
  let ?v = "v\<lparr>vm_storage_disks := ?ss[?k := patch_disk a (?ss ! ?k)]\<rparr>"
  let ?pool = "upd_rows (\<lambda>r. pa_assignment_id r = asg_assignment_id a \<and> pa_host_id r = hid)
           (\<lambda>r. r\<lparr>pa_state := ''committed'', pa_actual_size_gib := Some (as_i64 (asg_actual_size_gib a))\<rparr>)"
  let ?d = "d\<lparr>pool_disk_assignment := ?pool (pool_disk_assignment d), vms := upd_rows (\<lambda>x. vm_id x = vm_id v) (\<lambda>_. ?v) (vms d)\<rparr>"
  note c = commit_disk_assignment_Some [OF assms(1-5), of hid]
  have mem: "?v \<in> set (vms ?d)" using assms(2) by (auto simp: in_upd_rows intro!: bexI [of _ v])
  have ids: "map vm_id (vms ?d) = map vm_id (vms d)"
    by (simp add: upd_rows_def)
  have "commit_disk_assignment ?d hid a = Some (?d\<lparr>pool_disk_assignment := ?pool (pool_disk_assignment ?d),
      vms := upd_rows (\<lambda>x. vm_id x = vm_id ?v) (\<lambda>_. ?v) (vms ?d)\<rparr>)"
    using commit_disk_assignment_Some [of ?d ?v a hid] ids mem assms by (simp add: patch_disk_idem)
  also have "\<dots> = Some ?d" by (simp add: upd_rows_def comp_def if_distrib cong: if_cong)
  finally have idem: "commit_disk_assignment ?d hid a = Some ?d" .
  have "disk_assignment_of ?v (patch_disk a (?ss ! ?k)) = Some a"
    using assms(3,6) by (simp add: disk_assignment_of_def patch_disk_def)
  moreover have "patch_disk a (?ss ! ?k) \<in> set (?ss[?k := patch_disk a (?ss ! ?k)])"
    using assms(4) by (rule set_update_memI)
  ultimately have rd: "a \<in> set (parsed_disk_assignments ?v)"
    by (force simp: parsed_disk_assignments_def List.map_filter_def)
  have "map sd_min_size_gib (?ss[?k := patch_disk a (?ss ! ?k)]) = map sd_min_size_gib ?ss"
    using stored_data_gib_patch [of a ?ss] assms(4,5) by (simp add: patch_disks_def)
  then have sz: "stored_data_gib ?v = stored_data_gib v"
    unfolding stored_data_gib_def by (simp flip: map_map [unfolded comp_def, of "\<lambda>n. clamp_i64 (int n)" sd_min_size_gib])
  show ?thesis using c mem rd sz idem by (intro exI [of _ ?d] exI [of _ ?v]) simp
qed

text \<open>Witness of C35: the report of a 10 GiB disk that was allocated as 12 GiB.\<close>

definition example_report :: DiskAssignment where
  "example_report = \<lparr>asg_assignment_id = ''v1-0'', asg_vm_id = ''v1'', asg_disk_index = 0, asg_pool = ''p'',
     asg_device_id = ''d0'', asg_actual_size_gib = 12, asg_device_path = ''/dev/p/v1-0''\<rparr>"

definition example_disk_vm :: VmRow where
  "example_disk_vm = (example_vm ''v1'' ''m1'' 167772193 2)\<lparr>vm_storage_disks := [\<lparr>sd_disk_index = 0, sd_min_size_gib = 10,
     sd_purpose = ''generic-data'', sd_pool = Some ''p'', sd_device_id = Some ''d0'', sd_assignment_id = Some ''v1-0'',
     sd_actual_size_gib = None, sd_device_path = None\<rparr>]\<rparr>"

theorem commit_disk_assignment_roundtrip_witness:
  "\<exists>d' v'. commit_disk_assignment (example_fleet\<lparr>vms := [example_disk_vm]\<rparr>) ''h1'' example_report = Some d' \<and>
     v' \<in> set (vms d') \<and> example_report \<in> set (parsed_disk_assignments v')"
  using commit_disk_assignment_roundtrip [of "example_fleet\<lparr>vms := [example_disk_vm]\<rparr>" example_disk_vm example_report "''h1''"]
  by (auto simp: example_disk_vm_def example_report_def example_vm_def)

end
