(* ===== verification/Db_Machine.thy ===== *)
theory Db_Machine
  imports Db_Storage
begin

text \<open>
  The database as a machine: one rule per transaction of \<open>basis-controller/src/db.rs\<close> that
  writes, and the schema as its invariant.  The transactions of concurrent requests, agent
  streams and background loops interleave in any order on the single writer connection.
\<close>

subsection \<open>What a write to one table has to keep\<close>

lemmas schema_defs = db_schema_def db_keys_def db_refs_def

lemma schema_hostsI:
  assumes "db_schema d" "distinct (map h_id hs)" "distinct (map h_hostname hs)" "h_id ` set (hosts d) \<subseteq> h_id ` set hs"
  shows "db_schema (d\<lparr>hosts := hs\<rparr>)"
  using assms unfolding schema_defs by (simp add: subset_iff)

lemma schema_clustersI:
  assumes "db_schema d" "distinct (map c_id cs)" "distinct (map c_name cs)" "distinct (map c_vni cs)"
    "hc_cluster_id ` set (host_clusters d) \<union> vm_cluster_id ` set (vms d) \<union> lo_cluster_id ` set (cluster_lan_vip_owner d) \<subseteq> c_id ` set cs"
  shows "db_schema (d\<lparr>clusters := cs\<rparr>)"
  using assms unfolding schema_defs by (simp add: image_subset_iff)

lemma schema_host_clustersI:
  assumes "db_schema d" "distinct (map (\<lambda>r. (hc_cluster_id r, hc_host_id r)) rs)"
    "distinct (map (\<lambda>r. (hc_cluster_id r, hc_ip_address r)) rs)"
    "hc_cluster_id ` set rs \<subseteq> c_id ` set (clusters d)" "hc_host_id ` set rs \<subseteq> h_id ` set (hosts d)"
  shows "db_schema (d\<lparr>host_clusters := rs\<rparr>)"
  using assms unfolding schema_defs by (simp add: image_subset_iff)

lemma schema_vmsI:
  assumes "db_schema d" "distinct (map vm_id vs)" "distinct (map (\<lambda>r. (vm_cluster_id r, vm_name r)) vs)"
    "vm_cluster_id ` set vs \<subseteq> c_id ` set (clusters d)" "vm_host_id ` set vs \<subseteq> h_id ` set (hosts d)"
    "distinct (map (\<lambda>r. (ga_vm_id r, ga_pci_address r)) gs)" "distinct (map (\<lambda>r. (ga_host_id r, ga_pci_address r)) gs)"
    "ga_vm_id ` set gs \<subseteq> vm_id ` set vs"
  shows "db_schema (d\<lparr>vms := vs, vm_gpus := gs\<rparr>)"
  using assms unfolding schema_defs by (simp add: image_subset_iff)

lemma schema_ipsI:
  assumes "db_schema d" "distinct (map ia_ip_address rs)" "\<forall>r \<in> set rs. (ia_vm_id r = None) \<noteq> (ia_cluster_id r = None)"
  shows "db_schema (d\<lparr>ip_allocations := rs\<rparr>)"
  using assms unfolding schema_defs by simp

lemma schema_poolsI:
  assumes "db_schema d" "distinct (map (\<lambda>r. (hp_host_id r, hp_pool r)) ps)" "hp_host_id ` set ps \<subseteq> h_id ` set (hosts d)"
    "distinct (map (\<lambda>r. (hd_host_id r, hd_pool r, hd_device_id r)) ds)"
    "(\<lambda>r. (hd_host_id r, hd_pool r)) ` set ds \<subseteq> (\<lambda>p. (hp_host_id p, hp_pool p)) ` set ps"
  shows "db_schema (d\<lparr>host_pools := ps, host_pool_devices := ds\<rparr>)"
  using assms unfolding schema_defs by (simp add: image_subset_iff)

lemma schema_assignmentsI:
  assumes "db_schema d" "distinct (map pa_assignment_id rs)" "distinct (map (\<lambda>r. (pa_vm_id r, pa_disk_index r)) rs)"
  shows "db_schema (d\<lparr>pool_disk_assignment := rs\<rparr>)"
  using assms unfolding schema_defs by simp

lemma schema_drainsI:
  assumes "db_schema d" "distinct (map (\<lambda>r. (ds_host_id r, ds_pool r, ds_device_id r)) rs)"
  shows "db_schema (d\<lparr>device_scheduling_state := rs\<rparr>)"
  using assms unfolding schema_defs by simp

lemma schema_commandsI:
  assumes "db_schema d" "distinct (map pc_id rs)" "\<forall>r \<in> set rs. pc_id r < n"
  shows "db_schema (d\<lparr>pending_command := rs, next_command_id := n\<rparr>)"
  using assms unfolding schema_defs by simp

lemma schema_ownersI:
  assumes "db_schema d" "distinct (map lo_cluster_id rs)" "lo_cluster_id ` set rs \<subseteq> c_id ` set (clusters d)"
  shows "db_schema (d\<lparr>cluster_lan_vip_owner := rs\<rparr>)"
  using assms unfolding schema_defs by (simp add: image_subset_iff)

lemma schema_keysD:
  assumes "db_schema d"
  shows "distinct (map h_id (hosts d))" "distinct (map h_hostname (hosts d))"
    "distinct (map c_id (clusters d))" "distinct (map c_name (clusters d))" "distinct (map c_vni (clusters d))"
    "distinct (map (\<lambda>r. (hc_cluster_id r, hc_host_id r)) (host_clusters d))"
    "distinct (map (\<lambda>r. (hc_cluster_id r, hc_ip_address r)) (host_clusters d))"
    "distinct (map vm_id (vms d))" "distinct (map (\<lambda>r. (vm_cluster_id r, vm_name r)) (vms d))"
    "distinct (map (\<lambda>r. (ga_vm_id r, ga_pci_address r)) (vm_gpus d))"
    "distinct (map (\<lambda>r. (ga_host_id r, ga_pci_address r)) (vm_gpus d))"
    "distinct (map ia_ip_address (ip_allocations d))" "distinct (map pa_assignment_id (pool_disk_assignment d))"
    "distinct (map (\<lambda>r. (pa_vm_id r, pa_disk_index r)) (pool_disk_assignment d))"
    "distinct (map lo_cluster_id (cluster_lan_vip_owner d))"
    "distinct (map (\<lambda>r. (hp_host_id r, hp_pool r)) (host_pools d))"
    "distinct (map (\<lambda>r. (hd_host_id r, hd_pool r, hd_device_id r)) (host_pool_devices d))"
    "distinct (map (\<lambda>r. (ds_host_id r, ds_pool r, ds_device_id r)) (device_scheduling_state d))"
    "distinct (map pc_id (pending_command d))" "\<forall>r \<in> set (pending_command d). pc_id r < next_command_id d"
  using assms unfolding db_schema_def db_keys_def by simp_all

lemma schema_refsD:
  assumes "db_schema d"
  shows "hc_cluster_id ` set (host_clusters d) \<subseteq> c_id ` set (clusters d)"
    "hc_host_id ` set (host_clusters d) \<subseteq> h_id ` set (hosts d)"
    "vm_cluster_id ` set (vms d) \<subseteq> c_id ` set (clusters d)" "vm_host_id ` set (vms d) \<subseteq> h_id ` set (hosts d)"
    "ga_vm_id ` set (vm_gpus d) \<subseteq> vm_id ` set (vms d)"
    "lo_cluster_id ` set (cluster_lan_vip_owner d) \<subseteq> c_id ` set (clusters d)"
    "hp_host_id ` set (host_pools d) \<subseteq> h_id ` set (hosts d)"
    "(\<lambda>r. (hd_host_id r, hd_pool r)) ` set (host_pool_devices d) \<subseteq> (\<lambda>p. (hp_host_id p, hp_pool p)) ` set (host_pools d)"
    "\<forall>r \<in> set (ip_allocations d). (ia_vm_id r = None) \<noteq> (ia_cluster_id r = None)"
  using assms unfolding db_schema_def db_refs_def by (simp_all add: image_subset_iff)

subsection \<open>Clusters, memberships and hosts\<close>

lemma insert_cluster_schema:
  assumes "db_schema d" "insert_cluster d c = Inr d'"
  shows "db_schema d'"
proof -
  from assms(2) have d': "d' = d\<lparr>clusters := clusters d @ [c]\<rparr>" and fresh: "c_vni c \<notin> c_vni ` set (clusters d)"
    "c_id c \<notin> c_id ` set (clusters d)" "c_name c \<notin> c_name ` set (clusters d)"
    by (auto simp: insert_cluster_def split: if_splits)
  have "hc_cluster_id ` set (host_clusters d) \<union> vm_cluster_id ` set (vms d) \<union> lo_cluster_id ` set (cluster_lan_vip_owner d)
      \<subseteq> c_id ` set (clusters d @ [c])"
    using schema_refsD [OF assms(1)] by (simp add: le_supI subset_insertI2)
  then show ?thesis unfolding d'
    by (rule schema_clustersI [OF assms(1), rotated -1]) (use schema_keysD [OF assms(1)] fresh in simp_all)
qed

lemma update_cluster_trust_domain_schema: "db_schema d \<Longrightarrow> db_schema (update_cluster_trust_domain d i td)"
  unfolding update_cluster_trust_domain_def
  by (rule schema_clustersI) (simp_all add: map_upd_rows_id image_upd_rows schema_keysD schema_refsD)

text \<open>Deleting a cluster that nothing references, with its LAN owner.\<close>

lemma drop_cluster_schema:
  assumes "db_schema d" "i \<notin> hc_cluster_id ` set (host_clusters d)" "i \<notin> vm_cluster_id ` set (vms d)"
  shows "db_schema (d\<lparr>clusters := del_rows (\<lambda>c. c_id c = i) (clusters d),
    cluster_lan_vip_owner := del_rows (\<lambda>r. lo_cluster_id r = i) (cluster_lan_vip_owner d)\<rparr>)"
proof -
  let ?o = "del_rows (\<lambda>r. lo_cluster_id r = i) (cluster_lan_vip_owner d)"
  have o: "db_schema (d\<lparr>cluster_lan_vip_owner := ?o\<rparr>)"
    using distinct_del_rows [OF schema_keysD(15) [OF assms(1)]] schema_refsD(6) [OF assms(1)]
    by (intro schema_ownersI [OF assms(1)]) (simp_all add: image_subset_iff)
  have "db_schema ((d\<lparr>cluster_lan_vip_owner := ?o\<rparr>)\<lparr>clusters := del_rows (\<lambda>c. c_id c = i) (clusters d)\<rparr>)"
  proof (rule schema_clustersI [OF o])
    have keep: "c_id ` set (del_rows (\<lambda>c. c_id c = i) (clusters d)) = c_id ` set (clusters d) - {i}" by auto
    show "hc_cluster_id ` set (host_clusters (d\<lparr>cluster_lan_vip_owner := ?o\<rparr>)) \<union>
        vm_cluster_id ` set (vms (d\<lparr>cluster_lan_vip_owner := ?o\<rparr>)) \<union>
        lo_cluster_id ` set (cluster_lan_vip_owner (d\<lparr>cluster_lan_vip_owner := ?o\<rparr>))
        \<subseteq> c_id ` set (del_rows (\<lambda>c. c_id c = i) (clusters d))"
      unfolding keep using schema_refsD(1,3,6) [OF assms(1)] assms(2,3) by auto
  qed (simp_all add: distinct_del_rows schema_keysD [OF assms(1)])
  then show ?thesis by (rule back_subst [of db_schema]) simp
qed

lemma delete_cluster_schema:
  assumes "db_schema d" "delete_cluster d i = Inr d'"
  shows "db_schema d'"
proof -
  from assms have "i \<notin> hc_cluster_id ` set (host_clusters d)" "i \<notin> vm_cluster_id ` set (vms d)"
    using schema_refsD(1,3) [OF assms(1)] by (auto simp: delete_cluster_def split: if_splits)
  from drop_cluster_schema [OF assms(1) this] assms(2) show ?thesis by (simp add: delete_cluster_def split: if_splits)
qed

lemma elect_lan_vip_owner_schema:
  assumes "db_schema d" "elect_lan_vip_owner d cid hs = Inr (h, d')"
  shows "db_schema d'"
proof -
  have r: "db_schema d'" if "replace_lan_vip_owner d cid hs = Inr (h, d')"
  proof (cases hs)
    case Nil
    with that assms(1) show ?thesis by (simp add: replace_lan_vip_owner_def)
  next
    case (Cons x xs)
    with that have d': "d' = d\<lparr>cluster_lan_vip_owner := del_rows (\<lambda>r. lo_cluster_id r = cid) (cluster_lan_vip_owner d)
        @ [\<lparr>lo_cluster_id = cid, lo_host_id = x\<rparr>]\<rparr>" and c: "cid \<in> c_id ` set (clusters d)"
      by (auto simp: replace_lan_vip_owner_def split: if_splits)
    show ?thesis unfolding d' using schema_refsD(6) [OF assms(1)] c distinct_del_rows [OF schema_keysD(15) [OF assms(1)]]
      by (intro schema_ownersI [OF assms(1)]) (auto simp: image_subset_iff)
  qed
  from assms(2) have "d' = d \<or> replace_lan_vip_owner d cid hs = Inr (h, d')"
    by (auto simp: elect_lan_vip_owner_def split: option.splits if_splits)
  with r assms(1) show ?thesis by blast
qed

lemma mark_membership_schema:
  "db_schema d \<Longrightarrow> db_schema (mark_host_cluster_pending_teardown d cid hid)"
  "db_schema d \<Longrightarrow> db_schema (snd (mark_cluster_pending_teardown_all_hosts d cid))"
  unfolding mark_host_cluster_pending_teardown_def mark_cluster_pending_teardown_all_hosts_def snd_conv
  by (rule schema_host_clustersI; simp add: map_upd_rows_id image_upd_rows schema_keysD schema_refsD)+

lemma upsert_host_schema:
  assumes "db_schema d" "upsert_host d h = Inr d'"
  shows "db_schema d'"
proof -
  from assms(2) have other: "\<And>r. r \<in> set (hosts d) \<Longrightarrow> h_id r \<noteq> h_id h \<Longrightarrow> h_hostname r \<noteq> h_hostname h"
    by (auto simp: upsert_host_def list_ex_iff split: if_splits)
  note k = schema_keysD(1,2) [OF assms(1)]
  show ?thesis
  proof (cases "h_id h \<in> h_id ` set (hosts d)")
    case True
    have d': "d' = d\<lparr>hosts := upd_rows (\<lambda>r. h_id r = h_id h) (\<lambda>_. h) (hosts d)\<rparr>"
      using assms(2) True unfolding upsert_host_def list_ex_key by (simp split: if_splits)
    have e: "map h_id (upd_rows (\<lambda>r. h_id r = h_id h) (\<lambda>_. h) (hosts d)) = map h_id (hosts d)"
      by (simp add: upd_rows_def)
    then have s: "h_id ` set (upd_rows (\<lambda>r. h_id r = h_id h) (\<lambda>_. h) (hosts d)) = h_id ` set (hosts d)"
      by (simp only: set_map [symmetric])
    have "distinct (map h_hostname (upd_rows (\<lambda>r. h_id r = h_id h) (\<lambda>_. h) (hosts d)))"
      using distinct_map_upd_row [of h_id "hosts d" h_hostname "h_id h" h] k other by simp
    then show ?thesis unfolding d' by (rule schema_hostsI [OF assms(1), rotated]) (simp_all add: e s k)
  next
    case False
    have d': "d' = d\<lparr>hosts := hosts d @ [h]\<rparr>"
      using assms(2) False unfolding upsert_host_def list_ex_key by (simp split: if_splits)
    have "h_hostname h \<notin> h_hostname ` set (hosts d)"
    proof
      assume "h_hostname h \<in> h_hostname ` set (hosts d)"
      then obtain r where r: "r \<in> set (hosts d)" "h_hostname r = h_hostname h" by auto
      with other [of r] have "h_id r = h_id h" by blast
      with r(1) False show False by (metis image_eqI)
    qed
    with False k show ?thesis unfolding d' by (intro schema_hostsI [OF assms(1)]) auto
  qed
qed

lemma mark_hosts_unhealthy_schema:
  "db_schema d \<Longrightarrow> db_schema (mark_host_unhealthy d i)"
  "db_schema d \<Longrightarrow> db_schema (snd (mark_stale_hosts_unhealthy d cutoff))"
  unfolding mark_host_unhealthy_def mark_stale_hosts_unhealthy_def snd_conv
  by (rule schema_hostsI; simp add: map_upd_rows_id image_upd_rows schema_keysD)+

lemma pool_row_sel [simp]: "hp_host_id (pool_row hid p) = hid" "hp_pool (pool_row hid p) = pl_pool p"
  by (simp_all add: pool_row_def)

lemma device_row_sel [simp]: "hd_host_id (device_row hid p dev) = hid" "hd_pool (device_row hid p dev) = pl_pool p"
  "hd_device_id (device_row hid p dev) = pd_device_id dev"
  by (simp_all add: device_row_def)

lemma heartbeat_devices_distinct:
  assumes "distinct (map pl_pool pools)" "\<forall>p \<in> set pools. distinct (map pd_device_id (pl_devices p))"
  shows "distinct (map (\<lambda>r. (hd_host_id r, hd_pool r, hd_device_id r)) (concat (map (\<lambda>p. map (device_row hid p) (pl_devices p)) pools)))"
  using assms
proof (induction pools)
  case Nil
  then show ?case by simp
next
  case (Cons p ps)
  have "distinct (map (\<lambda>dev. (hid, pl_pool p, pd_device_id dev)) (pl_devices p))"
    using Cons.prems(2) by (simp add: distinct_map inj_on_def)
  with Cons show ?case by (auto simp: comp_def)
qed

lemma record_heartbeat_schema:
  assumes "db_schema d" "record_heartbeat d hid now cap pools = Inr d'"
  shows "db_schema d'"
proof -
  let ?hs = "upd_rows (\<lambda>h. h_id h = hid) (\<lambda>h. h\<lparr>h_last_heartbeat := now, h_healthy := True,
            h_rootfs_total_bytes := sc_rootfs_total_bytes cap, h_rootfs_free_bytes := sc_rootfs_free_bytes cap,
            h_rootfs_metadata_total_bytes := sc_rootfs_metadata_total_bytes cap,
            h_rootfs_metadata_free_bytes := sc_rootfs_metadata_free_bytes cap,
            h_data_total_bytes := sc_data_total_bytes cap, h_data_free_bytes := sc_data_free_bytes cap\<rparr>) (hosts d)"
  let ?ps = "del_rows (\<lambda>r. hp_host_id r = hid) (host_pools d) @ map (pool_row hid) pools"
  let ?ds = "del_rows (\<lambda>r. hd_host_id r = hid) (host_pool_devices d) @
     concat (map (\<lambda>p. map (device_row hid p) (pl_devices p)) pools)"
  from assms(2) have known: "hid \<in> h_id ` set (hosts d)" and dp: "distinct (map pl_pool pools)"
    and dd: "\<forall>p \<in> set pools. distinct (map pd_device_id (pl_devices p))"
    and d': "d' = d\<lparr>hosts := ?hs, host_pools := ?ps, host_pool_devices := ?ds\<rparr>"
    unfolding record_heartbeat_def list_ex_key by (auto simp: list_ex_iff split: if_splits)
  have h: "db_schema (d\<lparr>hosts := ?hs\<rparr>)"
    by (rule schema_hostsI [OF assms(1)]) (simp_all add: map_upd_rows_id image_upd_rows schema_keysD [OF assms(1)])
  have ids: "h_id ` set ?hs = h_id ` set (hosts d)" by (rule image_upd_rows) simp
  have ps: "distinct (map (\<lambda>r. (hp_host_id r, hp_pool r)) ?ps)"
    using distinct_del_rows [OF schema_keysD(16) [OF assms(1)], of "\<lambda>r. hp_host_id r = hid"] dp
    by (auto simp: comp_def distinct_map inj_on_def)
  have ds: "distinct (map (\<lambda>r. (hd_host_id r, hd_pool r, hd_device_id r)) ?ds)"
    unfolding distinct_map_append_iff
    using distinct_del_rows [OF schema_keysD(17) [OF assms(1)]] heartbeat_devices_distinct [OF dp dd] by auto
  have ref: "(\<lambda>r. (hd_host_id r, hd_pool r)) ` set ?ds \<subseteq> (\<lambda>p. (hp_host_id p, hp_pool p)) ` set ?ps"
  proof -
    have "(hd_host_id r, hd_pool r) \<in> (\<lambda>p. (hp_host_id p, hp_pool p)) ` set (del_rows (\<lambda>r. hp_host_id r = hid) (host_pools d))"
      if "r \<in> set (host_pool_devices d)" "hd_host_id r \<noteq> hid" for r
      using schema_refsD(8) [OF assms(1)] that by (fastforce simp: image_subset_iff image_iff)
    moreover have "(hid, pl_pool p) \<in> (\<lambda>p. (hp_host_id p, hp_pool p)) ` set (map (pool_row hid) pools)" if "p \<in> set pools" for p
      using that by (force simp: image_iff)
    ultimately show ?thesis by (auto simp: image_Un)
  qed
  have "hp_host_id ` set ?ps \<subseteq> h_id ` set ?hs"
    unfolding ids using schema_refsD(7) [OF assms(1)] known by (auto simp: image_subset_iff)
  with schema_poolsI [OF h ps _ ds ref] show ?thesis by (simp add: d')
qed

subsection \<open>Addresses\<close>

lemma insert_ip_schema:
  assumes "db_schema d" "insert_ip d r = Inr d'"
  shows "db_schema d'"
proof -
  from assms(2) have d': "d' = d\<lparr>ip_allocations := ip_allocations d @ [r]\<rparr>"
    and ok: "(ia_vm_id r = None) \<noteq> (ia_cluster_id r = None)" "ia_ip_address r \<notin> ia_ip_address ` set (ip_allocations d)"
    by (auto simp: insert_ip_def split: if_splits)
  show ?thesis unfolding d' using schema_keysD(12) [OF assms(1)] schema_refsD(9) [OF assms(1)] ok
    by (intro schema_ipsI [OF assms(1)]) auto
qed

lemma allocate_from_range_schema:
  "db_schema d \<Longrightarrow> allocate_from_range d scope rg vm cl = Inr (n, d') \<Longrightarrow> db_schema d'"
  by (auto simp: allocate_from_range_def intro: insert_ip_schema split: option.splits sum.splits)

lemma reserve_specific_ip_schema: "db_schema d \<Longrightarrow> reserve_specific_ip d scope n vm cl = Inr d' \<Longrightarrow> db_schema d'"
  by (auto simp: reserve_specific_ip_def intro: insert_ip_schema split: sum.splits DbError.splits sql_error.splits)

lemma release_ips_schema:
  "db_schema d \<Longrightarrow> db_schema (release_vm_ips d i)" "db_schema d \<Longrightarrow> db_schema (release_cluster_ips d i)"
  unfolding release_vm_ips_def release_cluster_ips_def
  by (rule schema_ipsI; simp add: distinct_del_rows schema_keysD schema_refsD)+

lemma allocate_service_block_schema:
  assumes "db_schema d" "allocate_service_block d scope rg cid n = Inr (b, d')"
  shows "db_schema d'"
proof -
  from assms(2) obtain ns where "reserve_block d scope cid ns = Inr d'"
    by (auto simp: allocate_service_block_def split: if_splits option.splits sum.splits)
  then show ?thesis unfolding reserve_block_def
    by (rule fold_res_invariant [where I = db_schema]) (use assms(1) insert_ip_schema in auto)
qed

lemma ensure_host_cluster_active_schema:
  assumes "db_schema d" "ensure_host_cluster_active d c hid = Inr (n, d')"
  shows "db_schema d'"
proof (cases "find (\<lambda>r. hc_cluster_id r = c_id c \<and> hc_host_id r = hid) (host_clusters d)")
  case (Some r)
  with assms(2) have "d' = d\<lparr>host_clusters := upd_rows (\<lambda>r. hc_cluster_id r = c_id c \<and> hc_host_id r = hid)
      (\<lambda>r. r\<lparr>hc_state := 0\<rparr>) (host_clusters d)\<rparr>" by (simp add: ensure_host_cluster_active_def)
  then show ?thesis using assms(1)
    by (simp only:) (rule schema_host_clustersI; simp add: map_upd_rows_id image_upd_rows schema_keysD schema_refsD)
next
  case None
  then have new: "(c_id c, hid) \<notin> (\<lambda>r. (hc_cluster_id r, hc_host_id r)) ` set (host_clusters d)"
    by (auto simp: find_None_iff)
  from None assms(2) have f: "find (\<lambda>n. n \<notin> cluster_bridge_ips d (c_id c)) (candidates (bridge_range c)) = Some n"
    and refs: "c_id c \<in> c_id ` set (clusters d)" "hid \<in> h_id ` set (hosts d)"
    and d': "d' = d\<lparr>host_clusters := host_clusters d @
      [\<lparr>hc_cluster_id = c_id c, hc_host_id = hid, hc_ip_address = n, hc_state = 0\<rparr>]\<rparr>"
    by (auto simp: ensure_host_cluster_active_def split: option.splits if_splits)
  have "(c_id c, n) \<notin> (\<lambda>r. (hc_cluster_id r, hc_ip_address r)) ` set (host_clusters d)"
    using find_Some_mem [OF f] by (auto simp: cluster_bridge_ips_def)
  with new refs show ?thesis unfolding d'
    using schema_keysD(6,7) [OF assms(1)] schema_refsD(1,2) [OF assms(1)]
    by (intro schema_host_clustersI [OF assms(1)]) simp_all
qed

subsection \<open>Machines\<close>

text \<open>Rows appended without a clash, among themselves and with the old ones, keep a key distinct.\<close>

lemma distinct_append_no_clash:
  assumes "distinct (map f xs)" "\<forall>y \<in> set ys. \<forall>x \<in> set xs. f x \<noteq> f y" "sorted_wrt (\<lambda>x y. f x \<noteq> f y) ys"
  shows "distinct (map f (xs @ ys))"
proof -
  have "distinct (map f ys)" using assms(3) by (induction ys) auto
  with assms(1,2) show ?thesis by fastforce
qed

lemma insert_vm_schema:
  assumes "db_schema d" "insert_vm d v gpus disks = Inr d'"
  shows "db_schema d'"
proof -
  note i = insert_vm_Inr [OF assms(2)] and k = schema_keysD [OF assms(1)] and rf = schema_refsD [OF assms(1)]
  let ?vs = "vms d @ [v]" and ?gs = "vm_gpus d @ gpus" and ?ps = "pool_disk_assignment d @ map (assignment_row v) disks"
  from i have gate: "capacity_gate d v" and fresh: "\<forall>r \<in> set (vms d). \<not> vm_key_clash v r"
    and cl: "vm_cluster_id v \<in> c_id ` set (clusters d)"
    and g: "\<forall>g \<in> set gpus. ga_vm_id g \<in> vm_id ` set ?vs" "\<forall>g \<in> set gpus. \<forall>r \<in> set (vm_gpus d). \<not> gpu_clash g r"
      "sorted_wrt (\<lambda>r g. \<not> gpu_clash g r) gpus"
    and p: "\<forall>r' \<in> set (map (assignment_row v) disks). \<forall>r \<in> set (pool_disk_assignment d). \<not> disk_clash r' r"
      "sorted_wrt (\<lambda>r p. \<not> disk_clash p r) (map (assignment_row v) disks)"
    and d': "d' = d\<lparr>vms := ?vs, vm_gpus := ?gs\<rparr>\<lparr>pool_disk_assignment := ?ps\<rparr>" by simp_all
  have host: "vm_host_id v \<in> h_id ` set (hosts d)" using gate by (auto simp: capacity_gate_def list_ex_iff intro: rev_image_eqI)
  have gk: "distinct (map (\<lambda>r. (ga_vm_id r, ga_pci_address r)) ?gs)" "distinct (map (\<lambda>r. (ga_host_id r, ga_pci_address r)) ?gs)"
    by (rule distinct_append_no_clash; use k(10,11) g(2,3) in \<open>auto simp: gpu_clash_def elim!: sorted_wrt_mono_rel [rotated]\<close>)+
  have pk: "distinct (map pa_assignment_id ?ps)" "distinct (map (\<lambda>r. (pa_vm_id r, pa_disk_index r)) ?ps)"
    by (rule distinct_append_no_clash; use k(13,14) p in \<open>auto simp: disk_clash_def elim!: sorted_wrt_mono_rel [rotated]\<close>)+
  have vk: "distinct (map vm_id ?vs)" "distinct (map (\<lambda>r. (vm_cluster_id r, vm_name r)) ?vs)"
    using k(8,9) fresh by (auto simp: vm_key_clash_def)
  have "db_schema (d\<lparr>vms := ?vs, vm_gpus := ?gs\<rparr>)"
    by (rule schema_vmsI [OF assms(1) vk _ _ gk]) (use rf(3-5) cl host g(1) in \<open>auto simp: image_subset_iff\<close>)
  then show ?thesis unfolding d' by (rule schema_assignmentsI) (rule pk)+
qed

text \<open>Updates of other columns of machines.\<close>

lemma schema_upd_vmsI:
  assumes "db_schema d" "\<And>v. vm_id (g v) = vm_id v" "\<And>v. vm_name (g v) = vm_name v"
    "\<And>v. vm_cluster_id (g v) = vm_cluster_id v" "\<And>v. vm_host_id (g v) = vm_host_id v"
  shows "db_schema (d\<lparr>vms := upd_rows P g (vms d)\<rparr>)"
proof -
  have "db_schema (d\<lparr>vms := upd_rows P g (vms d), vm_gpus := vm_gpus d\<rparr>)"
    by (rule schema_vmsI [OF assms(1)])
      (simp_all add: map_upd_rows_id image_upd_rows assms(2-5) schema_keysD [OF assms(1)] schema_refsD [OF assms(1)])
  then show ?thesis by simp
qed

lemma vm_state_schema:
  "db_schema d \<Longrightarrow> update_vm_state d i st msg now = Inr d' \<Longrightarrow> db_schema d'"
  "db_schema d \<Longrightarrow> mark_vm_pending_teardown d i now = Inr d' \<Longrightarrow> db_schema d'"
  "db_schema d \<Longrightarrow> db_schema (snd (mark_vms_failed_on_host d hid reason now))"
  by (auto simp: update_vm_state_def mark_vm_pending_teardown_def mark_vms_failed_on_host_def
      intro!: schema_upd_vmsI split: if_splits)

lemma ack_vm_schema:
  assumes "db_schema d"
  shows "db_schema (ack_vm hid i d)"
proof -
  let ?vs = "del_rows (ackable_vm hid i) (vms d)"
  let ?gs = "del_rows (\<lambda>g. list_ex (\<lambda>v. ackable_vm hid i v \<and> ga_vm_id g = vm_id v) (vms d)) (vm_gpus d)"
  note k = schema_keysD [OF assms] and rf = schema_refsD [OF assms]
  have gs: "ga_vm_id ` set ?gs \<subseteq> vm_id ` set ?vs"
  proof
    fix x assume "x \<in> ga_vm_id ` set ?gs"
    then obtain g where g: "g \<in> set (vm_gpus d)" "x = ga_vm_id g"
      "\<not> list_ex (\<lambda>v. ackable_vm hid i v \<and> ga_vm_id g = vm_id v) (vms d)" by auto
    with rf(5) obtain v where v: "v \<in> set (vms d)" "x = vm_id v" by auto
    with g have "\<not> ackable_vm hid i v" by (auto simp: list_ex_iff)
    with v show "x \<in> vm_id ` set ?vs" by auto
  qed
  have "db_schema (d\<lparr>vms := ?vs, vm_gpus := ?gs\<rparr>)"
    by (rule schema_vmsI [OF assms _ _ _ _ _ _ gs]) (use k rf(3,4) in \<open>auto simp: image_subset_iff\<close>)
  then have "db_schema (d\<lparr>vms := ?vs, vm_gpus := ?gs\<rparr>\<lparr>ip_allocations := del_rows (\<lambda>r. ia_vm_id r = Some i) (ip_allocations d)\<rparr>)"
    by (rule schema_ipsI) (use k(12) rf(9) in auto)
  then show ?thesis unfolding ack_vm_def by (rule back_subst [of db_schema]) simp
qed

lemma ack_cluster_schema:
  assumes "db_schema d"
  shows "db_schema (ack_cluster hid vni d)"
proof (cases "find (\<lambda>c. c_vni c = int vni) (clusters d)")
  case None
  with assms show ?thesis by (simp add: ack_cluster_def)
next
  case (Some c)
  let ?d = "d\<lparr>host_clusters := del_rows (\<lambda>r. hc_host_id r = hid \<and> hc_state r = 1 \<and> hc_cluster_id r = c_id c) (host_clusters d)\<rparr>"
  have d: "db_schema ?d" using schema_keysD(6,7) [OF assms] schema_refsD(1,2) [OF assms]
    by (intro schema_host_clustersI [OF assms]) (auto simp: image_subset_iff)
  have "db_schema (drop_drained_cluster (c_id c) ?d)"
  proof (cases "drop_drained_cluster (c_id c) ?d = ?d")
    case False
    then have "c_id c \<notin> hc_cluster_id ` set (host_clusters ?d)" "c_id c \<notin> vm_cluster_id ` set (vms ?d)"
      by (auto simp: drop_drained_cluster_def filter_empty_conv split: if_splits)
    note dc = drop_cluster_schema [OF d this]
    have "db_schema ((?d\<lparr>clusters := del_rows (\<lambda>x. c_id x = c_id c) (clusters ?d),
       cluster_lan_vip_owner := del_rows (\<lambda>r. lo_cluster_id r = c_id c) (cluster_lan_vip_owner ?d)\<rparr>)
       \<lparr>ip_allocations := del_rows (\<lambda>r. ia_cluster_id r = Some (c_id c)) (ip_allocations d)\<rparr>)"
      by (rule schema_ipsI [OF dc]) (use schema_keysD(12) [OF assms] schema_refsD(9) [OF assms] in auto)
    then show ?thesis using False by (auto simp: drop_drained_cluster_def elim!: back_subst [of db_schema] split: if_splits)
  qed (use d in simp)
  with Some show ?thesis by (simp add: ack_cluster_def)
qed

lemma ack_tombstones_schema:
  assumes "db_schema d"
  shows "db_schema (ack_tombstones d hid vnis ids)"
proof -
  have "db_schema x \<Longrightarrow> db_schema (fold (ack_vm hid) ids x)" for x
    by (induction ids arbitrary: x) (simp_all add: ack_vm_schema)
  moreover have "db_schema x \<Longrightarrow> db_schema (fold (ack_cluster hid) vnis x)" for x
    by (induction vnis arbitrary: x) (simp_all add: ack_cluster_schema)
  ultimately show ?thesis using assms by (simp add: ack_tombstones_def)
qed

subsection \<open>Storage and outbox\<close>

lemma set_device_scheduling_state_schema:
  assumes "db_schema d" "set_device_scheduling_state d hid pool dev state reason = Inr d'"
  shows "db_schema d'"
proof -
  note k = schema_keysD(18) [OF assms(1)]
  let ?f = "\<lambda>r. (ds_host_id r, ds_pool r, ds_device_id r)"
  have "distinct (map ?f (upsert_drain row (device_scheduling_state d)))" for row
  proof (cases "?f row \<in> ?f ` set (device_scheduling_state d)")
    case True
    then have "list_ex (\<lambda>r. ds_host_id r = ds_host_id row \<and> ds_pool r = ds_pool row \<and> ds_device_id r = ds_device_id row)
      (device_scheduling_state d)" by (auto simp: list_ex_iff)
    with k show ?thesis by (simp add: upsert_drain_def Let_def map_upd_rows_id)
  next
    case False
    then have "\<not> list_ex (\<lambda>r. ds_host_id r = ds_host_id row \<and> ds_pool r = ds_pool row \<and> ds_device_id r = ds_device_id row)
      (device_scheduling_state d)" by (force simp: list_ex_iff image_iff)
    with k False show ?thesis by (simp add: upsert_drain_def Let_def)
  qed
  with k assms show ?thesis
    by (auto simp: set_device_scheduling_state_def intro!: schema_drainsI split: if_splits)
qed

lemma outbox_schema:
  assumes "db_schema d"
  shows "db_schema (snd (enqueue_pending_command d hid vid payload))" "db_schema (mark_command_sent d i)"
    "db_schema (ack_pending_commands_for_vm d vid)"
proof -
  note k = schema_keysD(19,20) [OF assms]
  show "db_schema (snd (enqueue_pending_command d hid vid payload))"
    unfolding enqueue_pending_command_def snd_conv using k by (intro schema_commandsI [OF assms]) (auto simp: less_Suc_eq)
  have keep: "db_schema (d\<lparr>pending_command := rs\<rparr>)" if "distinct (map pc_id rs)" "\<forall>r \<in> set rs. pc_id r < next_command_id d" for rs
    using schema_commandsI [OF assms that] by simp
  show "db_schema (mark_command_sent d i)" "db_schema (ack_pending_commands_for_vm d vid)"
    unfolding mark_command_sent_def ack_pending_commands_for_vm_def
    by (rule keep; use k in \<open>auto simp: map_upd_rows_id in_upd_rows\<close>)+
qed

lemma those_map_key: "those (map f xs) = Some ys \<Longrightarrow> (\<And>x y. f x = Some y \<Longrightarrow> g y = g x) \<Longrightarrow> map g ys = map g xs"
  by (induction xs arbitrary: ys) (auto split: option.splits)

lemma commit_disk_assignment_schema:
  assumes "db_schema d" "commit_disk_assignment d hid a = Some d'"
  shows "db_schema d'"
proof -
  let ?ps = "upd_rows (\<lambda>r. pa_assignment_id r = asg_assignment_id a \<and> pa_host_id r = hid)
     (\<lambda>r. r\<lparr>pa_state := ''committed'', pa_actual_size_gib := Some (as_i64 (asg_actual_size_gib a))\<rparr>) (pool_disk_assignment d)"
  from assms(2) obtain vs where vs: "those (map (patch_vm a) (vms d)) = Some vs"
    and d': "d' = d\<lparr>pool_disk_assignment := ?ps, vms := vs\<rparr>" by (auto simp: commit_disk_assignment_def)
  have p: "patch_vm a x = Some y \<Longrightarrow> vm_id y = vm_id x \<and> vm_name y = vm_name x \<and> vm_cluster_id y = vm_cluster_id x \<and>
      vm_host_id y = vm_host_id x" for x y by (auto simp: patch_vm_def split: if_splits)
  have m: "map vm_id vs = map vm_id (vms d)" "map (\<lambda>r. (vm_cluster_id r, vm_name r)) vs = map (\<lambda>r. (vm_cluster_id r, vm_name r)) (vms d)"
    "map vm_cluster_id vs = map vm_cluster_id (vms d)" "map vm_host_id vs = map vm_host_id (vms d)"
    by (rule those_map_key [OF vs]; use p in simp)+
  have s: "db_schema (d\<lparr>pool_disk_assignment := ?ps\<rparr>)"
    by (rule schema_assignmentsI [OF assms(1)]) (simp_all add: map_upd_rows_id schema_keysD [OF assms(1)])
  have img: "vm_id ` set vs = vm_id ` set (vms d)" "vm_cluster_id ` set vs = vm_cluster_id ` set (vms d)"
    "vm_host_id ` set vs = vm_host_id ` set (vms d)"
    using m by (simp_all only: set_map [symmetric])
  have "db_schema (d\<lparr>pool_disk_assignment := ?ps\<rparr>\<lparr>vms := vs, vm_gpus := vm_gpus d\<rparr>)"
    by (rule schema_vmsI [OF s]) (simp_all add: m img schema_keysD [OF assms(1)] schema_refsD [OF assms(1)])
  then show ?thesis unfolding d' by simp
qed

subsection \<open>The machine\<close>

inductive db_step :: "db \<Rightarrow> db \<Rightarrow> bool" where
  "insert_cluster d c = Inr d' \<Longrightarrow> db_step d d'"
| "db_step d (update_cluster_trust_domain d i td)"
| "delete_cluster d i = Inr d' \<Longrightarrow> db_step d d'"
| "elect_lan_vip_owner d cid hs = Inr (h, d') \<Longrightarrow> db_step d d'"
| "db_step d (mark_host_cluster_pending_teardown d cid hid)"
| "db_step d (snd (mark_cluster_pending_teardown_all_hosts d cid))"
| "upsert_host d h = Inr d' \<Longrightarrow> db_step d d'"
| "db_step d (mark_host_unhealthy d hid)"
| "db_step d (snd (mark_stale_hosts_unhealthy d cutoff))"
| "record_heartbeat d hid now cap pools = Inr d' \<Longrightarrow> db_step d d'"
| "allocate_from_range d scope rg vm cl = Inr (n, d') \<Longrightarrow> db_step d d'"
| "reserve_specific_ip d scope n vm cl = Inr d' \<Longrightarrow> db_step d d'"
| "db_step d (release_vm_ips d vid)"
| "db_step d (release_cluster_ips d cid)"
| "allocate_service_block d scope rg cid k = Inr (b, d') \<Longrightarrow> db_step d d'"
| "ensure_host_cluster_active d c hid = Inr (n, d') \<Longrightarrow> db_step d d'"
| "insert_vm d v gpus disks = Inr d' \<Longrightarrow> db_step d d'"
| "update_vm_state d vid st msg now = Inr d' \<Longrightarrow> db_step d d'"
| "mark_vm_pending_teardown d vid now = Inr d' \<Longrightarrow> db_step d d'"
| "db_step d (snd (mark_vms_failed_on_host d hid reason now))"
| "db_step d (ack_tombstones d hid vnis ids)"
| "set_device_scheduling_state d hid pool dev state reason = Inr d' \<Longrightarrow> db_step d d'"
| "db_step d (snd (enqueue_pending_command d hid vid payload))"
| "db_step d (mark_command_sent d cmd)"
| "db_step d (ack_pending_commands_for_vm d vid)"
| "commit_disk_assignment d hid a = Some d' \<Longrightarrow> db_step d d'"

lemmas op_schema = insert_cluster_schema update_cluster_trust_domain_schema delete_cluster_schema
  elect_lan_vip_owner_schema mark_membership_schema upsert_host_schema mark_hosts_unhealthy_schema record_heartbeat_schema
  allocate_from_range_schema reserve_specific_ip_schema release_ips_schema allocate_service_block_schema
  ensure_host_cluster_active_schema insert_vm_schema vm_state_schema ack_tombstones_schema
  set_device_scheduling_state_schema outbox_schema commit_disk_assignment_schema

lemma db_step_schema: "db_step d d' \<Longrightarrow> db_schema d \<Longrightarrow> db_schema d'"
  by (induction rule: db_step.induct) (blast intro: op_schema)+

lemma empty_db_schema: "db_schema (empty_db ratio)"
  by (simp add: schema_defs empty_db_def)

interpretation controller_db: invariant_machine "\<lambda>d. \<exists>ratio. d = empty_db ratio" db_step db_schema
  by unfold_locales (auto simp: empty_db_schema intro: db_step_schema)

subsection \<open>Property\<close>

text \<open>
  C16.  The database is well-formed in every reachable state: from an empty file, after any
  sequence of the transactions, all keys are unique and all references resolve.  In
  particular no GPU of a host is claimed by two machines, no address is allocated twice, no two
  hosts share a bridge address of a cluster, no two clusters a VNI or a name, and every
  machine's cluster and host exist.
\<close>

theorem reachable_schema:
  assumes "reach (\<lambda>d. \<exists>ratio. d = empty_db ratio) db_step d"
  shows "db_schema d \<and>
    (\<forall>g1 \<in> set (vm_gpus d). \<forall>g2 \<in> set (vm_gpus d). ga_host_id g1 = ga_host_id g2 \<and> ga_pci_address g1 = ga_pci_address g2 \<longrightarrow> g1 = g2) \<and>
    (\<forall>a \<in> set (ip_allocations d). \<forall>b \<in> set (ip_allocations d). ia_ip_address a = ia_ip_address b \<longrightarrow> a = b) \<and>
    (\<forall>v \<in> set (vms d). vm_cluster_id v \<in> c_id ` set (clusters d) \<and> vm_host_id v \<in> h_id ` set (hosts d))"
proof -
  have s: "db_schema d" by (rule controller_db.reach_inv [OF assms])
  have "g1 = g2" if "g1 \<in> set (vm_gpus d)" "g2 \<in> set (vm_gpus d)" "ga_host_id g1 = ga_host_id g2"
      "ga_pci_address g1 = ga_pci_address g2" for g1 g2
    using distinct_map_eq [OF schema_keysD(11) [OF s] that(1,2)] that(3,4) by simp
  moreover have "a = b" if "a \<in> set (ip_allocations d)" "b \<in> set (ip_allocations d)" "ia_ip_address a = ia_ip_address b" for a b
    by (rule distinct_map_eq [OF schema_keysD(12) [OF s] that])
  moreover have "vm_cluster_id v \<in> c_id ` set (clusters d)" "vm_host_id v \<in> h_id ` set (hosts d)"
    if "v \<in> set (vms d)" for v
    using schema_refsD(3,4) [OF s] that by auto
  ultimately show ?thesis using s by (intro conjI ballI impI) simp_all
qed

text \<open>Witness of C16: a database with one cluster, reached by inserting it.\<close>

theorem reachable_schema_witness: "db_schema ((empty_db (4, 2))\<lparr>clusters := [example_cluster]\<rparr>)"
proof -
  have "reach (\<lambda>d. \<exists>ratio. d = empty_db ratio) db_step (empty_db (4, 2))" by (rule reach_init) blast
  moreover have "db_step (empty_db (4, 2)) ((empty_db (4, 2))\<lparr>clusters := [example_cluster]\<rparr>)"
    by (rule db_step.intros(1) [of _ example_cluster]) (simp add: insert_cluster_def empty_db_def)
  ultimately have "reach (\<lambda>d. \<exists>ratio. d = empty_db ratio) db_step ((empty_db (4, 2))\<lparr>clusters := [example_cluster]\<rparr>)"
    by (rule reach_step)
  from reachable_schema [OF this] show ?thesis by blast
qed

end
