(* ===== verification/Server_Reconcile.thy ===== *)
theory Server_Reconcile
  imports Db_Machine
begin

text \<open>
  The state the controller's services share (\<open>SharedCtx\<close> of \<open>basis-controller/src/server.rs\<close>):
  building the authoritative reconcile command of a host, pushing it, diffing an agent's
  inventory against the database, and rolling a failed machine into the teardown pipeline.  The
  server's state is the database, the connected agents, the waiting creations and the commands
  handed to the agents' channels.  Reads and writes of the database that can only fail by I/O
  do not fail here.
\<close>

subsection \<open>Status codes and wire messages\<close>

datatype Status =
    S_invalid_argument | S_not_found | S_already_exists | S_resource_exhausted | S_unavailable
  | S_internal | S_permission_denied | S_unauthenticated | S_failed_precondition
  | S_deadline_exceeded | S_data_loss

fun db_status :: "DbError \<Rightarrow> Status" where
  "db_status (NotFound _) = S_not_found"
| "db_status (Conflict _) = S_already_exists"
| "db_status (Exhausted _) = S_resource_exhausted"
| "db_status (HostUnavailable _) = S_unavailable"
| "db_status (CapacityRaced _) = S_unavailable"
| "db_status (AllocationRaced _) = S_unavailable"
| "db_status (Sqlx _) = S_internal"
| "db_status (Malformed _) = S_internal"

text \<open>
  The identity of a peer as \<open>tls::request_peer_identity\<close> extracts it: an error, no certificate,
  or the name.
\<close>

datatype peer = Peer_error | Peer_none | Peer string

definition CAPI_PROVIDER_IDENTITY :: string where
  "CAPI_PROVIDER_IDENTITY = ''basis-capi-provider''"

fun peer_identity :: "peer \<Rightarrow> (Status, string) res" where
  "peer_identity (Peer i) = Inr i"
| "peer_identity Peer_none = Inl S_unauthenticated"
| "peer_identity Peer_error = Inl S_unauthenticated"

definition require_capi_caller :: "peer \<Rightarrow> (Status, unit) res" where
  "require_capi_caller p = and_then (peer_identity p)
     (\<lambda>i. if i = CAPI_PROVIDER_IDENTITY then Inr () else Inl S_permission_denied)"

definition provider_id :: "string \<Rightarrow> string" where
  "provider_id vid = ''basis://'' @ vid"

datatype ApiserverVisibility = ApiserverPublic | ApiserverPrivate

text \<open>\<open>ApiserverVisibility::try_from(x as i32)\<close>.\<close>

definition as_i32 :: "int \<Rightarrow> int" where
  "as_i32 x = (x + 2 ^ 31) mod 2 ^ 32 - 2 ^ 31"

definition visibility_try_from :: "int \<Rightarrow> ApiserverVisibility option" where
  "visibility_try_from x =
     (if as_i32 x = 0 then Some ApiserverPublic else if as_i32 x = 1 then Some ApiserverPrivate else None)"

record ClusterVip =
  cv_cidr :: Ipv4Net
  cv_owner_host_id :: string

record ClusterState =
  cst_cluster_id :: string
  cst_vni :: nat
  cst_cidr :: Ipv4Net
  cst_gateway_ip :: "ipv4 option"
  cst_prefix_len :: nat
  cst_vtep_addresses :: "ipv4 list"
  cst_trust_domain :: string
  cst_cluster_vips :: "ClusterVip list"
  cst_internal_cluster_vips :: "Ipv4Net list"

text \<open>The network of a tombstone or of an inventory entry; \<open>None\<close> is the empty string.\<close>

record ClusterTombstone =
  ct_vni :: nat
  ct_cluster_id :: string
  ct_cidr :: "Ipv4Net option"

record ReconcileHostCommand =
  rh_clusters :: "ClusterState list"
  rh_cluster_tombstones :: "ClusterTombstone list"
  rh_vm_tombstones :: "string list"

record CommandedDisk =
  cd_assignment_id :: string
  cd_min_size_gib :: nat
  cd_pool :: string
  cd_device_id :: string
  cd_disk_index :: nat
  cd_cluster_id :: string
  cd_purpose :: DiskPurpose

text \<open>The bootstrap data of a machine is an opaque payload that is only passed on; it is left out.\<close>

record CreateVmCommand =
  cc_vm_id :: string
  cc_name :: string
  cc_cpu :: nat
  cc_memory_mib :: nat
  cc_disk_gib :: nat
  cc_image :: string
  cc_ip_address :: ipv4
  cc_gateway :: ipv4
  cc_prefix_len :: nat
  cc_gpus :: nat
  cc_min_group_size :: "nat option"
  cc_dns_servers :: "string list"
  cc_gpu_pci_addresses :: "string list"
  cc_storage_disks :: "CommandedDisk list"
  cc_cluster_id :: string
  cc_vni :: nat

record RegisterHostResponse =
  ra_host_id :: string
  ra_initial_state :: ReconcileHostCommand
  ra_bgp_asn :: nat
  ra_bgp_reflector_address :: "ipv4 option"

datatype ControllerCommand =
    CreateVm CreateVmCommand
  | RegisterAck RegisterHostResponse
  | ReconcileHost ReconcileHostCommand

record InventoryCluster =
  ic_vni :: nat
  ic_cidr :: "Ipv4Net option"

record HostInventory =
  inv_vm_ids :: "string list"
  inv_clusters :: "InventoryCluster list"

subsection \<open>The server's state\<close>

text \<open>
  \<open>srv_agents\<close> maps a host to the epoch of its registered stream, \<open>srv_pending_ops\<close> a machine
  to the host a creation waits on; \<open>srv_sent\<close> is what has been handed to the channels, with the
  host it was for.
\<close>

record srv =
  srv_db :: db
  srv_agents :: "string \<rightharpoonup> nat"
  srv_pending_ops :: "string \<rightharpoonup> string"
  srv_next_epoch :: nat
  srv_sent :: "(string \<times> ControllerCommand) list"

subsection \<open>The reconcile command\<close>

definition classify_cluster_vips ::
  "ClusterRow \<Rightarrow> ApiserverVisibility \<Rightarrow> Pool \<Rightarrow> string \<Rightarrow> ClusterVip list \<times> Ipv4Net list" where
  "classify_cluster_vips c vis pool owner =
     (let api = (if vis = ApiserverPublic then [\<lparr>net_addr = c_control_plane_endpoint c, net_prefix = 32\<rparr>] else []);
          block = (case c_service_block_cidr c of Some b \<Rightarrow> [b] | None \<Rightarrow> []) in
      if is_tree pool then ([], api @ block)
      else (map (\<lambda>v. \<lparr>cv_cidr = v, cv_owner_host_id = owner\<rparr>) (api @ block), []))"

definition carried_state :: "db \<Rightarrow> ClusterRow \<Rightarrow> ipv4 \<Rightarrow> ClusterVip list \<times> Ipv4Net list \<Rightarrow> ClusterState" where
  "carried_state d c bridge vips = \<lparr>cst_cluster_id = c_id c, cst_vni = as_u32 (c_vni c), cst_cidr = c_cidr c,
     cst_gateway_ip = Some bridge, cst_prefix_len = as_u32 (c_prefix_len c),
     cst_vtep_addresses = list_cluster_vteps d (c_id c), cst_trust_domain = c_trust_domain c,
     cst_cluster_vips = fst vips, cst_internal_cluster_vips = snd vips\<rparr>"

text \<open>The loop over the active memberships; each election is committed on its own.\<close>

fun carried_states ::
  "NetworkConfig \<Rightarrow> (ClusterRow \<times> ipv4) list \<Rightarrow> db \<Rightarrow> (DbError, ClusterState list) res \<times> db" where
  "carried_states net [] d = (Inr [], d)"
| "carried_states net ((c, bridge) # ms) d =
     (case visibility_try_from (c_apiserver_visibility c) of
        None \<Rightarrow> (Inl (Malformed (c_id c)), d)
      | Some vis \<Rightarrow>
     (case pool_by_name net (c_external_pool c) of
        None \<Rightarrow> (Inl (Malformed (c_id c)), d)
      | Some pool \<Rightarrow>
     (case elect_lan_vip_owner d (c_id c) (list_active_carriers d (c_id c)) of
        Inl e \<Rightarrow> (Inl e, d)
      | Inr (owner, d1) \<Rightarrow>
     (case carried_states net ms d1 of
        (Inl e, d2) \<Rightarrow> (Inl e, d2)
      | (Inr sts, d2) \<Rightarrow> (Inr (carried_state d1 c bridge (classify_cluster_vips c vis pool owner) # sts), d2)))))"

definition ghost_state :: "db \<Rightarrow> ClusterRow \<Rightarrow> Ipv4Net list \<Rightarrow> ClusterState" where
  "ghost_state d c vips = \<lparr>cst_cluster_id = c_id c, cst_vni = as_u32 (c_vni c), cst_cidr = c_cidr c,
     cst_gateway_ip = None, cst_prefix_len = 0, cst_vtep_addresses = list_cluster_vteps d (c_id c),
     cst_trust_domain = c_trust_domain c, cst_cluster_vips = [], cst_internal_cluster_vips = vips\<rparr>"

text \<open>The eager bootstrap of tree-scoped clusters the host does not carry.\<close>

fun ghost_states :: "NetworkConfig \<Rightarrow> string list \<Rightarrow> db \<Rightarrow> ClusterRow list \<Rightarrow> (DbError, ClusterState list) res" where
  "ghost_states net carried d [] = Inr []"
| "ghost_states net carried d (c # cs) =
     (if c_id c \<in> set carried then ghost_states net carried d cs
      else case pool_by_name net (c_external_pool c) of
        None \<Rightarrow> Inl (Malformed (c_id c))
      | Some pool \<Rightarrow>
          if \<not> is_tree pool then ghost_states net carried d cs
          else case visibility_try_from (c_apiserver_visibility c) of
            None \<Rightarrow> Inl (Malformed (c_id c))
          | Some vis \<Rightarrow> and_then (ghost_states net carried d cs)
              (\<lambda>sts. Inr (ghost_state d c (snd (classify_cluster_vips c vis pool '''')) # sts)))"

definition build_reconcile_command ::
  "NetworkConfig \<Rightarrow> db \<Rightarrow> string \<Rightarrow> (DbError, ReconcileHostCommand) res \<times> db" where
  "build_reconcile_command net d hid =
     (let ms = list_active_host_clusters d hid in
      case carried_states net ms d of
        (Inl e, d1) \<Rightarrow> (Inl e, d1)
      | (Inr sts, d1) \<Rightarrow>
          (and_then (ghost_states net (map (c_id \<circ> fst) ms) d1 (clusters d1)) (\<lambda>gs. Inr \<lparr>
             rh_clusters = sts @ gs,
             rh_cluster_tombstones = map (\<lambda>(cid, vni, cidr). \<lparr>ct_vni = as_u32 vni, ct_cluster_id = cid, ct_cidr = Some cidr\<rparr>)
               (list_pending_cluster_tombstones d1 hid),
             rh_vm_tombstones = list_pending_vm_tombstones d1 hid\<rparr>), d1))"

text \<open>
  The inventory an agent reports at registration, diffed against the database: what it has and
  the database does not know becomes a one-shot tombstone, if the operator allowed that
  (\<open>auto\<close> is \<open>safety.auto_reconcile_orphan_inventory\<close>).
\<close>

definition orphan_vm_ids :: "db \<Rightarrow> string \<Rightarrow> HostInventory \<Rightarrow> ReconcileHostCommand \<Rightarrow> string list" where
  "orphan_vm_ids d hid inven cmd = filter (\<lambda>v. v \<notin> set (rh_vm_tombstones cmd) \<and>
     \<not> (case get_vm d v of Inr row \<Rightarrow> vm_host_id row = hid | Inl _ \<Rightarrow> False)) (inv_vm_ids inven)"

definition tracked_vnis :: "db \<Rightarrow> string \<Rightarrow> nat set" where
  "tracked_vnis d hid = set (map (\<lambda>(c, _). as_u32 (c_vni c)) (list_active_host_clusters d hid)) \<union>
     set (map (\<lambda>(_, vni, _). as_u32 vni) (list_pending_cluster_tombstones d hid))"

definition orphan_clusters :: "db \<Rightarrow> string \<Rightarrow> HostInventory \<Rightarrow> ReconcileHostCommand \<Rightarrow> InventoryCluster list" where
  "orphan_clusters d hid inven cmd = filter (\<lambda>c. ic_vni c \<notin> tracked_vnis d hid \<and>
     ic_vni c \<notin> set (map ct_vni (rh_cluster_tombstones cmd))) (inv_clusters inven)"

definition extend_with_orphan_tombstones ::
  "bool \<Rightarrow> db \<Rightarrow> string \<Rightarrow> HostInventory \<Rightarrow> ReconcileHostCommand \<Rightarrow> ReconcileHostCommand" where
  "extend_with_orphan_tombstones auto d hid inven cmd =
     (let vs = orphan_vm_ids d hid inven cmd; cs = orphan_clusters d hid inven cmd in
      if vs = [] \<and> cs = [] then cmd
      else if \<not> auto then cmd
      else cmd\<lparr>rh_vm_tombstones := rh_vm_tombstones cmd @ vs,
               rh_cluster_tombstones := rh_cluster_tombstones cmd @
                 map (\<lambda>c. \<lparr>ct_vni = ic_vni c, ct_cluster_id = '''', ct_cidr = ic_cidr c\<rparr>) cs\<rparr>)"

subsection \<open>Pushing and cleaning up\<close>

definition send_command :: "string \<Rightarrow> ControllerCommand \<Rightarrow> srv \<Rightarrow> srv" where
  "send_command hid cmd s = s\<lparr>srv_sent := srv_sent s @ [(hid, cmd)]\<rparr>"

text \<open>Only a connected agent has a channel; what a closed channel loses the next registration rebuilds.\<close>

definition push_reconcile :: "NetworkConfig \<Rightarrow> string \<Rightarrow> srv \<Rightarrow> srv" where
  "push_reconcile net hid s =
     (case build_reconcile_command net (srv_db s) hid of
        (Inl _, d) \<Rightarrow> s\<lparr>srv_db := d\<rparr>
      | (Inr cmd, d) \<Rightarrow>
          (if srv_agents s hid = None then s\<lparr>srv_db := d\<rparr>
           else send_command hid (ReconcileHost cmd) (s\<lparr>srv_db := d\<rparr>)))"

definition broadcast_cluster :: "NetworkConfig \<Rightarrow> string \<Rightarrow> srv \<Rightarrow> srv" where
  "broadcast_cluster net cid s = fold (push_reconcile net) (list_hosts_in_cluster (srv_db s) cid) s"

definition cleanup_failed_vm :: "NetworkConfig \<Rightarrow> string \<Rightarrow> string \<Rightarrow> string \<Rightarrow> string \<Rightarrow> srv \<Rightarrow> srv" where
  "cleanup_failed_vm net now vid cid hid s =
     (let d1 = (case mark_vm_pending_teardown (srv_db s) vid now of Inr d \<Rightarrow> d | Inl _ \<Rightarrow> srv_db s);
          d2 = release_vm_ips d1 vid;
          d3 = mark_host_cluster_pending_teardown d2 cid hid in
      push_reconcile net hid (s\<lparr>srv_db := d3\<rparr>))"

text \<open>Rows the database has and the inventory lacks.\<close>

definition live_orphans :: "db \<Rightarrow> string \<Rightarrow> HostInventory \<Rightarrow> VmRow list" where
  "live_orphans d hid inven = filter (\<lambda>v. vm_id v \<notin> set (inv_vm_ids inven) \<and>
     vm_state v \<in> {STATE_PENDING, STATE_CREATING, STATE_RUNNING}) (list_vms_on_host d hid)"

definition pending_vm_orphans :: "db \<Rightarrow> string \<Rightarrow> HostInventory \<Rightarrow> string list" where
  "pending_vm_orphans d hid inven = map vm_id (filter (\<lambda>v. vm_id v \<notin> set (inv_vm_ids inven) \<and>
     vm_state v = VM_STATE_PENDING_TEARDOWN) (list_vms_on_host d hid))"

definition pending_cluster_orphans :: "db \<Rightarrow> string \<Rightarrow> HostInventory \<Rightarrow> nat list" where
  "pending_cluster_orphans d hid inven = filter (\<lambda>vni. vni \<notin> set (map ic_vni (inv_clusters inven)))
     (map (\<lambda>(_, vni, _). as_u32 vni) (list_pending_cluster_tombstones d hid))"

definition reap_db_orphans_from_inventory ::
  "NetworkConfig \<Rightarrow> bool \<Rightarrow> string \<Rightarrow> string \<Rightarrow> HostInventory \<Rightarrow> srv \<Rightarrow> srv" where
  "reap_db_orphans_from_inventory net auto now hid inven s =
     (let d = srv_db s; live = live_orphans d hid inven; pv = pending_vm_orphans d hid inven;
          pcl = pending_cluster_orphans d hid inven in
      if live = [] \<and> pv = [] \<and> pcl = [] then s
      else if \<not> auto then s
      else let s1 = fold (\<lambda>v. cleanup_failed_vm net now (vm_id v) (vm_cluster_id v) hid) live s in
        if pv = [] \<and> pcl = [] then s1
        else s1\<lparr>srv_db := ack_tombstones (srv_db s1) hid pcl pv\<rparr>)"

subsection \<open>Elections and the reconcile command\<close>

text \<open>The recorded owner of a cluster's LAN addresses, and a database step that only re-elects.\<close>

definition lan_owner :: "db \<Rightarrow> string \<Rightarrow> string option" where
  "lan_owner d cid = map_option lo_host_id (find (\<lambda>r. lo_cluster_id r = cid) (cluster_lan_vip_owner d))"

definition election_step :: "db \<Rightarrow> db \<Rightarrow> bool" where
  "election_step d d' \<longleftrightarrow> (\<exists>os. d' = d\<lparr>cluster_lan_vip_owner := os\<rparr>) \<and>
     (\<forall>cid h. lan_owner d cid = Some h \<and> h \<in> set (list_active_carriers d cid) \<longrightarrow> lan_owner d' cid = Some h)"

lemma owner_update_reads [simp]:
  "list_active_carriers (d\<lparr>cluster_lan_vip_owner := os\<rparr>) cid = list_active_carriers d cid"
  "list_cluster_vteps (d\<lparr>cluster_lan_vip_owner := os\<rparr>) cid = list_cluster_vteps d cid"
  "list_pending_cluster_tombstones (d\<lparr>cluster_lan_vip_owner := os\<rparr>) hid = list_pending_cluster_tombstones d hid"
  "list_pending_vm_tombstones (d\<lparr>cluster_lan_vip_owner := os\<rparr>) hid = list_pending_vm_tombstones d hid"
  "list_active_host_clusters (d\<lparr>cluster_lan_vip_owner := os\<rparr>) hid = list_active_host_clusters d hid"
  "list_hosts_in_cluster (d\<lparr>cluster_lan_vip_owner := os\<rparr>) cid = list_hosts_in_cluster d cid"
  "get_vm (d\<lparr>cluster_lan_vip_owner := os\<rparr>) vid = get_vm d vid"
  "list_vms_on_host (d\<lparr>cluster_lan_vip_owner := os\<rparr>) hid = list_vms_on_host d hid"
  by (simp_all add: list_active_carriers_def list_cluster_vteps_def list_pending_cluster_tombstones_def
      list_pending_vm_tombstones_def list_active_host_clusters_def list_hosts_in_cluster_def get_vm_def
      list_vms_on_host_def cong: if_cong)

lemma election_step_refl [simp, intro]: "election_step d d"
  unfolding election_step_def by (metis db.surjective db.update_convs(12))

lemma election_step_carriers:
  "election_step d d' \<Longrightarrow> list_active_carriers d' cid = list_active_carriers d cid"
  by (auto simp: election_step_def)

lemma election_step_trans: "election_step d d' \<Longrightarrow> election_step d' d'' \<Longrightarrow> election_step d d''"
  unfolding election_step_def by (auto; metis)

lemma find_del_append:
  "find (\<lambda>r. f r = b) (del_rows (\<lambda>r. f r = a) xs @ [x]) =
     (if f x = a \<and> b = a then Some x
      else if b = a then (if f x = b then Some x else None)
      else case find (\<lambda>r. f r = b) xs of Some r \<Rightarrow> Some r | None \<Rightarrow> if f x = b then Some x else None)"
  by (induction xs) (auto simp: del_rows_def split: option.splits)

lemma elect_lan_vip_owner_cases:
  assumes "elect_lan_vip_owner d cid cs = Inr (h, d')"
  shows "(cs = [] \<and> h = '''' \<and> d' = d) \<or>
    (h \<in> set cs \<and> lan_owner d' cid = Some h \<and> (\<exists>os. d' = d\<lparr>cluster_lan_vip_owner := os\<rparr>) \<and>
     (\<forall>c. c \<noteq> cid \<longrightarrow> lan_owner d' c = lan_owner d c) \<and>
     (\<forall>o'. lan_owner d cid = Some o' \<and> o' \<in> set cs \<longrightarrow> o' = h))"
proof (cases "\<exists>r. find (\<lambda>r. lo_cluster_id r = cid) (cluster_lan_vip_owner d) = Some r \<and> lo_host_id r \<in> set cs")
  case True
  then have "d' = d" "h \<in> set cs" "lan_owner d cid = Some h"
    using assms by (auto simp: elect_lan_vip_owner_def lan_owner_def)
  then show ?thesis by (metis db.surjective db.update_convs(12) option.inject)
next
  case False
  then have r: "replace_lan_vip_owner d cid cs = Inr (h, d')"
    using assms by (auto simp: elect_lan_vip_owner_def split: option.splits if_splits)
  have n: "o' \<notin> set cs" if "lan_owner d cid = Some o'" for o'
    using False that by (auto simp: lan_owner_def)
  show ?thesis
  proof (cases cs)
    case Nil
    then show ?thesis using r by (simp add: replace_lan_vip_owner_def)
  next
    case (Cons x xs)
    then have "h = x" and d': "d' = d\<lparr>cluster_lan_vip_owner :=
        del_rows (\<lambda>r. lo_cluster_id r = cid) (cluster_lan_vip_owner d) @ [\<lparr>lo_cluster_id = cid, lo_host_id = x\<rparr>]\<rparr>"
      using r by (auto simp: replace_lan_vip_owner_def split: if_splits)
    moreover have "lan_owner d' c = (if c = cid then Some x else lan_owner d c)" for c
      unfolding d' lan_owner_def by (simp add: find_del_append split: option.split)
    ultimately show ?thesis using Cons n by auto
  qed
qed

lemma elect_election_step:
  assumes "elect_lan_vip_owner d cid (list_active_carriers d cid) = Inr (h, d')"
  shows "election_step d d'"
  using elect_lan_vip_owner_cases [OF assms]
proof (elim disjE conjE)
  assume h: "lan_owner d' cid = Some h" "\<exists>os. d' = d\<lparr>cluster_lan_vip_owner := os\<rparr>"
    and other: "\<forall>c. c \<noteq> cid \<longrightarrow> lan_owner d' c = lan_owner d c"
    and keep: "\<forall>o'. lan_owner d cid = Some o' \<and> o' \<in> set (list_active_carriers d cid) \<longrightarrow> o' = h"
  have "lan_owner d' c = Some o'" if "lan_owner d c = Some o'" "o' \<in> set (list_active_carriers d c)" for c o'
    using that h(1) other keep by (cases "c = cid") auto
  then show ?thesis using h(2) unfolding election_step_def by simp
qed simp

text \<open>
  What the LAN addresses of a cluster state must satisfy in a database: without a carrier no
  owner is named, otherwise the recorded owner, which is a carrier.
\<close>

definition lan_vips_ok :: "db \<Rightarrow> ClusterState \<Rightarrow> bool" where
  "lan_vips_ok d st \<longleftrightarrow> (\<forall>v \<in> set (cst_cluster_vips st).
     (if list_active_carriers d (cst_cluster_id st) = [] then cv_owner_host_id v = ''''
      else cv_owner_host_id v \<in> set (list_active_carriers d (cst_cluster_id st)) \<and>
           lan_owner d (cst_cluster_id st) = Some (cv_owner_host_id v)))"

definition lan_scoped :: "NetworkConfig \<Rightarrow> ClusterRow list \<Rightarrow> ClusterState \<Rightarrow> bool" where
  "lan_scoped net cs st \<longleftrightarrow> (cst_cluster_vips st \<noteq> [] \<longrightarrow>
     (\<exists>c \<in> set cs. \<exists>p. c_id c = cst_cluster_id st \<and> pool_by_name net (c_external_pool c) = Some p \<and> \<not> is_tree p))"

lemma lan_vips_ok_step: "election_step d d' \<Longrightarrow> lan_vips_ok d st \<Longrightarrow> lan_vips_ok d' st"
  by (auto simp: lan_vips_ok_def election_step_carriers) (auto simp: election_step_def)

lemma classify_owner: "v \<in> set (fst (classify_cluster_vips c vis p h)) \<Longrightarrow> cv_owner_host_id v = h"
  by (auto simp: classify_cluster_vips_def Let_def split: if_splits option.splits)

lemma classify_tree: "is_tree p \<Longrightarrow> fst (classify_cluster_vips c vis p h) = []"
  by (simp add: classify_cluster_vips_def Let_def)

lemma carried_state_sel [simp]:
  "cst_cluster_id (carried_state d c b v) = c_id c" "cst_cluster_vips (carried_state d c b v) = fst v"
  "cst_internal_cluster_vips (carried_state d c b v) = snd v" "cst_vni (carried_state d c b v) = as_u32 (c_vni c)"
  by (simp_all add: carried_state_def)

lemma ghost_state_sel [simp]:
  "cst_cluster_id (ghost_state d c v) = c_id c" "cst_cluster_vips (ghost_state d c v) = []"
  "cst_internal_cluster_vips (ghost_state d c v) = v" "cst_vni (ghost_state d c v) = as_u32 (c_vni c)"
  by (simp_all add: ghost_state_def)

lemma elected_vips_ok:
  assumes "elect_lan_vip_owner d (c_id c) (list_active_carriers d (c_id c)) = Inr (h, d1)"
  shows "lan_vips_ok d1 (carried_state d1 c b (classify_cluster_vips c vis p h))"
  using elect_lan_vip_owner_cases [OF assms] election_step_carriers [OF elect_election_step [OF assms]]
  by (auto simp: lan_vips_ok_def classify_owner)

lemma carried_states_election: "election_step d (snd (carried_states net ms d))"
proof (induction net ms d rule: carried_states.induct)
  case (2 net c bridge ms d)
  show ?case
  proof (cases "elect_lan_vip_owner d (c_id c) (list_active_carriers d (c_id c))")
    case (Inr r)
    obtain h d1 where r: "r = (h, d1)" by (cases r)
    note step = elect_election_step [OF Inr [unfolded r]]
    have "election_step d1 (snd (carried_states net ms d1))"
      if "visibility_try_from (c_apiserver_visibility c) = Some vis" "pool_by_name net (c_external_pool c) = Some p" for vis p
      using 2 [OF that Inr r [symmetric]] .
    then show ?thesis
      using Inr r election_step_trans [OF step]
      by (auto split: option.splits prod.splits sum.splits)
  qed (auto split: option.splits)
qed simp

lemma carried_states_ids:
  "carried_states net ms d = (Inr sts, d') \<Longrightarrow> map cst_cluster_id sts = map (c_id \<circ> fst) ms \<and>
     map cst_vni sts = map (\<lambda>m. as_u32 (c_vni (fst m))) ms"
  by (induction net ms d arbitrary: sts rule: carried_states.induct)
    (auto split: option.splits sum.splits prod.splits)

lemma carried_states_ok:
  "carried_states net ms d = (Inr sts, d') \<Longrightarrow> st \<in> set sts \<Longrightarrow>
     lan_vips_ok d' st \<and> lan_scoped net (map fst ms) st"
proof (induction net ms d arbitrary: sts rule: carried_states.induct)
  case (2 net c bridge ms d)
  from "2.prems"(1) obtain vis p h d1 sts1 where eq:
      "visibility_try_from (c_apiserver_visibility c) = Some vis" "pool_by_name net (c_external_pool c) = Some p"
      "elect_lan_vip_owner d (c_id c) (list_active_carriers d (c_id c)) = Inr (h, d1)"
      "carried_states net ms d1 = (Inr sts1, d')"
      "sts = carried_state d1 c bridge (classify_cluster_vips c vis p h) # sts1"
    by (auto split: option.splits sum.splits prod.splits)
  have step: "election_step d1 d'" using carried_states_election [of d1 net ms] eq(4) by simp
  have IH: "lan_vips_ok d' st \<and> lan_scoped net (map fst ms) st" if "st \<in> set sts1"
    using "2.IH" [OF eq(1,2,3) refl eq(4) that] .
  show ?case
  proof (cases "st \<in> set sts1")
    case True
    then show ?thesis using IH by (auto simp: lan_scoped_def)
  next
    case False
    then have st: "st = carried_state d1 c bridge (classify_cluster_vips c vis p h)" using "2.prems"(2) eq(5) by simp
    then show ?thesis
      using lan_vips_ok_step [OF step elected_vips_ok [OF eq(3)]] eq(2) classify_tree [of p]
      by (auto simp: lan_scoped_def)
  qed
qed simp

lemma ghost_states_spec:
  "ghost_states net carried d cs = Inr sts \<Longrightarrow>
     map cst_cluster_id sts = map c_id (filter (\<lambda>c. c_id c \<notin> set carried \<and>
        (\<exists>p. pool_by_name net (c_external_pool c) = Some p \<and> is_tree p)) cs) \<and>
     map cst_vni sts = map (\<lambda>c. as_u32 (c_vni c)) (filter (\<lambda>c. c_id c \<notin> set carried \<and>
        (\<exists>p. pool_by_name net (c_external_pool c) = Some p \<and> is_tree p)) cs) \<and>
     (\<forall>st \<in> set sts. cst_cluster_vips st = [])"
  by (induction cs arbitrary: sts) (auto simp: and_then_def split: if_splits option.splits sum.splits)

text \<open>The parts of a command that was built.\<close>

lemma build_reconcile_command_parts:
  assumes "build_reconcile_command net d hid = (Inr cmd, d')"
  obtains sts gs where "carried_states net (list_active_host_clusters d hid) d = (Inr sts, d')"
    "ghost_states net (map (c_id \<circ> fst) (list_active_host_clusters d hid)) d' (clusters d') = Inr gs"
    "rh_clusters cmd = sts @ gs"
    "rh_cluster_tombstones cmd = map (\<lambda>(cid, vni, cidr). \<lparr>ct_vni = as_u32 vni, ct_cluster_id = cid, ct_cidr = Some cidr\<rparr>)
       (list_pending_cluster_tombstones d hid)"
    "rh_vm_tombstones cmd = list_pending_vm_tombstones d hid"
    "election_step d d'"
proof -
  obtain sts where c: "carried_states net (list_active_host_clusters d hid) d = (Inr sts, d')"
    using assms by (auto simp: build_reconcile_command_def Let_def split: prod.splits sum.splits)
  have step: "election_step d d'"
    using carried_states_election [of d net "list_active_host_clusters d hid"] c by simp
  then have same: "list_pending_cluster_tombstones d' hid = list_pending_cluster_tombstones d hid"
      "list_pending_vm_tombstones d' hid = list_pending_vm_tombstones d hid"
    by (auto simp: election_step_def)
  show thesis
    using that [OF c _ _ _ _ step] assms c
    by (auto simp: build_reconcile_command_def Let_def and_then_def same split: sum.splits)
qed

lemma build_election: "election_step d (snd (build_reconcile_command net d hid))"
  using carried_states_election [of d net "list_active_host_clusters d hid"]
  by (auto simp: build_reconcile_command_def Let_def split: prod.splits sum.splits)

lemma build_states_ok:
  assumes b: "build_reconcile_command net d hid = (Inr cmd, d')" and st: "st \<in> set (rh_clusters cmd)"
  shows "lan_vips_ok d' st \<and> lan_scoped net (clusters d) st"
proof -
  from b obtain sts gs where p: "carried_states net (list_active_host_clusters d hid) d = (Inr sts, d')"
      "ghost_states net (map (c_id \<circ> fst) (list_active_host_clusters d hid)) d' (clusters d') = Inr gs"
      "rh_clusters cmd = sts @ gs"
    by (rule build_reconcile_command_parts)
  have sub: "fst ` set (list_active_host_clusters d hid) \<subseteq> set (clusters d)"
    by (auto simp: list_active_host_clusters_def)
  show ?thesis
  proof (cases "st \<in> set sts")
    case True
    then show ?thesis using carried_states_ok [OF p(1) True] sub by (auto simp: lan_scoped_def)
  next
    case False
    then have "cst_cluster_vips st = []" using ghost_states_spec [OF p(2)] p(3) st by auto
    then show ?thesis by (simp add: lan_vips_ok_def lan_scoped_def)
  qed
qed

subsection \<open>What a sequence of pushes sends\<close>

definition pushes_ok :: "NetworkConfig \<Rightarrow> srv \<Rightarrow> srv \<Rightarrow> bool" where
  "pushes_ok net s s' \<longleftrightarrow> election_step (srv_db s) (srv_db s') \<and>
     srv_agents s' = srv_agents s \<and> srv_pending_ops s' = srv_pending_ops s \<and> srv_next_epoch s' = srv_next_epoch s \<and>
     (\<exists>new. srv_sent s' = srv_sent s @ new \<and>
        (\<forall>(h, c) \<in> set new. srv_agents s h \<noteq> None \<and> (\<exists>m. c = ReconcileHost m \<and>
           (\<forall>st \<in> set (rh_clusters m). lan_vips_ok (srv_db s') st \<and> lan_scoped net (clusters (srv_db s)) st))))"

lemma pushes_ok_refl [simp, intro]: "pushes_ok net s s"
  by (simp add: pushes_ok_def)

lemma election_step_clusters: "election_step d d' \<Longrightarrow> clusters d' = clusters d"
  by (auto simp: election_step_def)

lemma push_reconcile_ok: "pushes_ok net s (push_reconcile net hid s)"
  using build_election [of "srv_db s" net hid] build_states_ok [of net "srv_db s" hid]
  by (auto simp: pushes_ok_def push_reconcile_def send_command_def split: prod.splits sum.splits)

lemma pushes_ok_trans:
  assumes 1: "pushes_ok net s s'" and 2: "pushes_ok net s' s''"
  shows "pushes_ok net s s''"
proof -
  from 1 obtain n1 where n1: "srv_sent s' = srv_sent s @ n1" "\<forall>(h, c) \<in> set n1. srv_agents s h \<noteq> None \<and>
      (\<exists>m. c = ReconcileHost m \<and> (\<forall>st \<in> set (rh_clusters m). lan_vips_ok (srv_db s') st \<and> lan_scoped net (clusters (srv_db s)) st))"
    unfolding pushes_ok_def by blast
  from 2 obtain n2 where n2: "srv_sent s'' = srv_sent s' @ n2" "\<forall>(h, c) \<in> set n2. srv_agents s' h \<noteq> None \<and>
      (\<exists>m. c = ReconcileHost m \<and> (\<forall>st \<in> set (rh_clusters m). lan_vips_ok (srv_db s'') st \<and> lan_scoped net (clusters (srv_db s')) st))"
    unfolding pushes_ok_def by blast
  have step: "election_step (srv_db s) (srv_db s')" "election_step (srv_db s') (srv_db s'')"
    and ag: "srv_agents s' = srv_agents s"
    using 1 2 by (simp_all add: pushes_ok_def)
  note cl = election_step_clusters [OF step(1)]
  have "\<forall>(h, c) \<in> set (n1 @ n2). srv_agents s h \<noteq> None \<and> (\<exists>m. c = ReconcileHost m \<and>
      (\<forall>st \<in> set (rh_clusters m). lan_vips_ok (srv_db s'') st \<and> lan_scoped net (clusters (srv_db s)) st))"
    using n1(2) n2(2) lan_vips_ok_step [OF step(2)] unfolding ag cl by fastforce
  then show ?thesis
    using 1 2 n1(1) n2(1) election_step_trans [OF step] unfolding pushes_ok_def by auto
qed

lemma fold_pushes_ok: "pushes_ok net s (fold (push_reconcile net) hs s)"
  by (induction hs arbitrary: s) (auto intro: pushes_ok_trans push_reconcile_ok)


text \<open>Two hosts that carry a cluster of a LAN pool, both connected.\<close>

definition example_srv_db :: db where
  "example_srv_db = (empty_db (4, 2))\<lparr>hosts := [example_host ''h1'' Map.empty [], example_host ''h2'' Map.empty []],
     clusters := [example_cluster],
     host_clusters := [\<lparr>hc_cluster_id = ''c1'', hc_host_id = ''h1'', hc_ip_address = 167772161, hc_state = 0\<rparr>,
       \<lparr>hc_cluster_id = ''c1'', hc_host_id = ''h2'', hc_ip_address = 167772162, hc_state = 0\<rparr>],
     vms := [example_vm ''v1'' ''m1'' 167772193 2, (example_vm ''v2'' ''m2'' 167772194 2)\<lparr>vm_host_id := ''h2''\<rparr>]\<rparr>"

definition example_srv :: srv where
  "example_srv = \<lparr>srv_db = example_srv_db, srv_agents = [''h1'' \<mapsto> 1, ''h2'' \<mapsto> 2], srv_pending_ops = Map.empty,
     srv_next_epoch = 3, srv_sent = []\<rparr>"

definition example_state :: "ipv4 \<Rightarrow> ClusterState" where
  "example_state gw = \<lparr>cst_cluster_id = ''c1'', cst_vni = 10000, cst_cidr = \<lparr>net_addr = 167772160, net_prefix = 24\<rparr>,
     cst_gateway_ip = Some gw, cst_prefix_len = 24, cst_vtep_addresses = [], cst_trust_domain = '''',
     cst_cluster_vips = [\<lparr>cv_cidr = \<lparr>net_addr = 0, net_prefix = 32\<rparr>, cv_owner_host_id = ''h1''\<rparr>],
     cst_internal_cluster_vips = []\<rparr>"

lemma example_carriers: "list_active_carriers (example_srv_db\<lparr>cluster_lan_vip_owner := os\<rparr>) ''c1'' = [''h1'', ''h2'']"
  by (simp add: list_active_carriers_def example_srv_db_def empty_db_def example_host_def less_eq_char_def less_char_def)

lemma example_elect:
  "elect_lan_vip_owner example_srv_db ''c1'' [''h1'', ''h2''] = Inr (''h1'', example_srv_db\<lparr>cluster_lan_vip_owner := [\<lparr>lo_cluster_id = ''c1'', lo_host_id = ''h1''\<rparr>]\<rparr>)"
  "elect_lan_vip_owner (example_srv_db\<lparr>cluster_lan_vip_owner := [\<lparr>lo_cluster_id = ''c1'', lo_host_id = ''h1''\<rparr>]\<rparr>) ''c1'' [''h1'', ''h2''] =
     Inr (''h1'', example_srv_db\<lparr>cluster_lan_vip_owner := [\<lparr>lo_cluster_id = ''c1'', lo_host_id = ''h1''\<rparr>]\<rparr>)"
  by (simp_all add: elect_lan_vip_owner_def replace_lan_vip_owner_def example_srv_db_def empty_db_def example_cluster_id del_rows_def)

lemma example_members:
  "list_active_host_clusters example_srv_db ''h1'' = [(example_cluster, 167772161)]"
  "list_active_host_clusters example_srv_db ''h2'' = [(example_cluster, 167772162)]"
  "list_cluster_vteps example_srv_db ''c1'' = []"
  "clusters example_srv_db = [example_cluster]"
  "list_pending_cluster_tombstones example_srv_db h = []"
  "list_pending_vm_tombstones example_srv_db h = []"
  "list_hosts_in_cluster example_srv_db ''c1'' = [''h1'', ''h2'']"
  by (simp_all add: list_active_host_clusters_def list_cluster_vteps_def list_pending_cluster_tombstones_def
      list_pending_vm_tombstones_def list_hosts_in_cluster_def example_srv_db_def empty_db_def example_cluster_id
      example_host_def example_vm_def machine_state_defs List.map_filter_def)

lemma example_carried:
  "carried_state d example_cluster gw (classify_cluster_vips example_cluster ApiserverPublic
      \<lparr>p_name = ''lan'', p_cidr = \<lparr>net_addr = 3232235520, net_prefix = 24\<rparr>, p_scope = Lan\<rparr> ''h1'') =
     (example_state gw)\<lparr>cst_vtep_addresses := list_cluster_vteps d ''c1''\<rparr>"
  "visibility_try_from (c_apiserver_visibility example_cluster) = Some ApiserverPublic"
  "pool_by_name example_config (c_external_pool example_cluster) = 
     Some \<lparr>p_name = ''lan'', p_cidr = \<lparr>net_addr = 3232235520, net_prefix = 24\<rparr>, p_scope = Lan\<rparr>"
  by (simp_all add: carried_state_def classify_cluster_vips_def is_tree_def example_cluster_def example_state_def as_u32_def
    visibility_try_from_def as_i32_def pool_by_name_def example_config_def)

lemma example_broadcast:
  "srv_sent (broadcast_cluster example_config ''c1'' example_srv) =
     [(''h1'', ReconcileHost \<lparr>rh_clusters = [example_state 167772161], rh_cluster_tombstones = [], rh_vm_tombstones = []\<rparr>),
      (''h2'', ReconcileHost \<lparr>rh_clusters = [example_state 167772162], rh_cluster_tombstones = [], rh_vm_tombstones = []\<rparr>)]"
  by (simp add: broadcast_cluster_def push_reconcile_def build_reconcile_command_def send_command_def example_srv_def
    example_members example_carried example_elect example_cluster_id example_carriers example_carriers [of "cluster_lan_vip_owner example_srv_db", simplified] example_state_def and_then_def)


subsection \<open>What a command says\<close>

text \<open>A host's membership in a cluster.\<close>

definition membership :: "db \<Rightarrow> string \<Rightarrow> int \<Rightarrow> ClusterRow \<Rightarrow> bool" where
  "membership d hid st c \<longleftrightarrow> (\<exists>r \<in> set (host_clusters d). hc_cluster_id r = c_id c \<and> hc_host_id r = hid \<and> hc_state r = st)"

definition tree_cluster :: "NetworkConfig \<Rightarrow> ClusterRow \<Rightarrow> bool" where
  "tree_cluster net c \<longleftrightarrow> (\<exists>p. pool_by_name net (c_external_pool c) = Some p \<and> is_tree p)"

lemma active_memberships:
  "fst ` set (list_active_host_clusters d hid) = {c \<in> set (clusters d). membership d hid 0 c}"
  by (force simp: list_active_host_clusters_def membership_def)

lemma pending_memberships:
  "set (list_pending_cluster_tombstones d hid) =
     (\<lambda>c. (c_id c, c_vni c, c_cidr c)) ` {c \<in> set (clusters d). membership d hid 1 c}"
  by (force simp: list_pending_cluster_tombstones_def membership_def)

lemma membership_unique:
  assumes "db_schema d" "membership d hid a c" "membership d hid b c"
  shows "a = b"
proof -
  from assms(2,3) obtain r r' where r: "r \<in> set (host_clusters d)" "r' \<in> set (host_clusters d)"
      "hc_cluster_id r = c_id c" "hc_host_id r = hid" "hc_cluster_id r' = c_id c" "hc_host_id r' = hid"
      "hc_state r = a" "hc_state r' = b"
    unfolding membership_def by blast
  have "r = r'" using distinct_map_eq [OF schema_keysD(6) [OF assms(1)] r(1,2)] r(3-6) by simp
  then show ?thesis using r(7,8) by simp
qed

lemma as_u32_inj: "0 \<le> x \<Longrightarrow> x < 2 ^ 32 \<Longrightarrow> 0 \<le> y \<Longrightarrow> y < 2 ^ 32 \<Longrightarrow> as_u32 x = as_u32 y \<longleftrightarrow> x = y"
  by (simp add: as_u32_def eq_nat_nat_iff)

lemma build_cluster_ids:
  assumes "build_reconcile_command net d hid = (Inr cmd, d')"
  shows "cst_cluster_id ` set (rh_clusters cmd) =
      c_id ` {c \<in> set (clusters d). membership d hid 0 c \<or> tree_cluster net c}"
    and "cst_vni ` set (rh_clusters cmd) =
      (\<lambda>c. as_u32 (c_vni c)) ` ({c \<in> set (clusters d). membership d hid 0 c} \<union>
        {c \<in> set (clusters d). tree_cluster net c \<and> c_id c \<notin> c_id ` {c \<in> set (clusters d). membership d hid 0 c}})"
proof -
  from assms obtain sts gs where p: "carried_states net (list_active_host_clusters d hid) d = (Inr sts, d')"
      "ghost_states net (map (c_id \<circ> fst) (list_active_host_clusters d hid)) d' (clusters d') = Inr gs"
      "rh_clusters cmd = sts @ gs" "election_step d d'"
    by (rule build_reconcile_command_parts)
  let ?A = "{c \<in> set (clusters d). membership d hid 0 c}"
  have cl: "clusters d' = clusters d" by (rule election_step_clusters [OF p(4)])
  have ids: "set (map (c_id \<circ> fst) (list_active_host_clusters d hid)) = c_id ` ?A"
    unfolding active_memberships [symmetric] by (simp add: image_comp)
  have s1: "set (map cst_cluster_id sts) = c_id ` ?A" using carried_states_ids [OF p(1)] ids by simp
  have s2: "set (map cst_vni sts) = (\<lambda>c. as_u32 (c_vni c)) ` ?A"
    using carried_states_ids [OF p(1)] unfolding active_memberships [symmetric] by (simp add: image_comp comp_def)
  have g1: "set (map cst_cluster_id gs) = c_id ` {c \<in> set (clusters d). tree_cluster net c \<and> c_id c \<notin> c_id ` ?A}"
    and g2: "set (map cst_vni gs) = (\<lambda>c. as_u32 (c_vni c)) ` {c \<in> set (clusters d). tree_cluster net c \<and> c_id c \<notin> c_id ` ?A}"
    using ghost_states_spec [OF p(2)] unfolding ids cl tree_cluster_def
    by (auto simp: conj_commute cong: conj_cong)
  show "cst_cluster_id ` set (rh_clusters cmd) = c_id ` {c \<in> set (clusters d). membership d hid 0 c \<or> tree_cluster net c}"
    using s1 g1 unfolding p(3) by (auto simp: image_Un)
  show "cst_vni ` set (rh_clusters cmd) = (\<lambda>c. as_u32 (c_vni c)) ` (?A \<union>
      {c \<in> set (clusters d). tree_cluster net c \<and> c_id c \<notin> c_id ` ?A})"
    using s2 g2 unfolding p(3) by (simp add: image_Un)
qed


lemma example_srv_db_schema: "db_schema (example_srv_db)"
  by (simp add: db_schema_def db_keys_def db_refs_def example_srv_db_def empty_db_def example_cluster_id
      example_vm_def example_host_def)


text \<open>
  C36: a host leaving a cluster of a tree pool is told both to keep it and to remove it.  While
  the membership is pending teardown the cluster is not carried, so the fan-out of tree pools
  adds it as a ghost: the command has a cluster state and a tombstone of the same VNI.
\<close>

theorem leaving_tree_cluster_contradicts:
  assumes "build_reconcile_command net d hid = (Inr cmd, d')" and "db_schema d"
    and "c \<in> set (clusters d)" and "tree_cluster net c" and "membership d hid 1 c"
  shows "\<exists>st \<in> set (rh_clusters cmd). \<exists>t \<in> set (rh_cluster_tombstones cmd).
    cst_vni st = as_u32 (c_vni c) \<and> ct_vni t = as_u32 (c_vni c)"
proof -
  from assms(1) obtain sts gs where p:
      "rh_cluster_tombstones cmd = map (\<lambda>(cid, vni, cidr). \<lparr>ct_vni = as_u32 vni, ct_cluster_id = cid, ct_cidr = Some cidr\<rparr>)
         (list_pending_cluster_tombstones d hid)"
    by (rule build_reconcile_command_parts)
  have "c_id c \<notin> c_id ` {c \<in> set (clusters d). membership d hid 0 c}"
  proof
    assume "c_id c \<in> c_id ` {c \<in> set (clusters d). membership d hid 0 c}"
    then have "membership d hid 0 c" by (auto simp: membership_def)
    then show False using membership_unique [OF assms(2) _ assms(5)] by force
  qed
  then have "as_u32 (c_vni c) \<in> cst_vni ` set (rh_clusters cmd)"
    unfolding build_cluster_ids(2) [OF assms(1)] using assms(3,4) by blast
  moreover have "as_u32 (c_vni c) \<in> ct_vni ` set (rh_cluster_tombstones cmd)"
    unfolding p set_map pending_memberships image_image using assms(3,5) by auto
  ultimately show ?thesis by force
qed

text \<open>A host that is to leave a cluster of a tree pool.\<close>

definition example_tree_config :: NetworkConfig where
  "example_tree_config = example_config\<lparr>n_pools :=
     [\<lparr>p_name = ''lan'', p_cidr = \<lparr>net_addr = 3232235520, net_prefix = 24\<rparr>, p_scope = Tree\<rparr>]\<rparr>"

definition example_leaving_db :: db where
  "example_leaving_db = (empty_db (4, 2))\<lparr>hosts := [example_host ''h1'' Map.empty []], clusters := [example_cluster],
     host_clusters := [\<lparr>hc_cluster_id = ''c1'', hc_host_id = ''h1'', hc_ip_address = 167772161, hc_state = 1\<rparr>]\<rparr>"

text \<open>Witness of C36: the only host of the example leaves the only cluster.\<close>

theorem leaving_tree_cluster_contradicts_witness:
  "\<exists>cmd d'. build_reconcile_command example_tree_config example_leaving_db ''h1'' = (Inr cmd, d') \<and>
     (\<exists>st \<in> set (rh_clusters cmd). \<exists>t \<in> set (rh_cluster_tombstones cmd). cst_vni st = 10000 \<and> ct_vni t = 10000)"
proof -
  have p: "pool_by_name example_tree_config (c_external_pool example_cluster) =
      Some \<lparr>p_name = ''lan'', p_cidr = \<lparr>net_addr = 3232235520, net_prefix = 24\<rparr>, p_scope = Tree\<rparr>"
    by (simp add: pool_by_name_def example_tree_config_def example_cluster_def)
  have "list_active_host_clusters example_leaving_db ''h1'' = []"
    by (simp add: list_active_host_clusters_def example_leaving_db_def)
  then have "\<exists>cmd d'. build_reconcile_command example_tree_config example_leaving_db ''h1'' = (Inr cmd, d')"
    using p by (simp add: build_reconcile_command_def and_then_def example_leaving_db_def is_tree_def example_carried(2))
  then obtain cmd d' where b: "build_reconcile_command example_tree_config example_leaving_db ''h1'' = (Inr cmd, d')"
    by blast
  have "db_schema example_leaving_db"
    by (simp add: db_schema_def db_keys_def db_refs_def example_leaving_db_def empty_db_def example_cluster_id example_host_def)
  moreover have "example_cluster \<in> set (clusters example_leaving_db)" "membership example_leaving_db ''h1'' 1 example_cluster"
    by (simp_all add: example_leaving_db_def membership_def example_cluster_id)
  moreover have "tree_cluster example_tree_config example_cluster" using p by (simp add: tree_cluster_def is_tree_def)
  moreover have "as_u32 (c_vni example_cluster) = 10000" by (simp add: example_cluster_def as_u32_def)
  ultimately show ?thesis using leaving_tree_cluster_contradicts [OF b, of example_cluster] b by auto
qed

end
