(* ===== verification/Server_Streams.thy ===== *)
theory Server_Streams
  imports Server_Reconcile
begin

text \<open>
  The controller's agent-facing service (\<open>BasisAgentService\<close> of \<open>basis-controller/src/server.rs\<close>):
  opening an agent's stream (identity, registration, the initial state, the outbox replay),
  releasing it by its epoch, and handling the messages agents send.
\<close>

subsection \<open>Agent streams\<close>

text \<open>
  \<open>AGENT_EPOCH.fetch_add(1)\<close>: the counter is a \<open>u64\<close> that counts connections, modelled without
  its wrap-around.
\<close>

definition next_agent_epoch :: "srv \<Rightarrow> nat \<times> srv" where
  "next_agent_epoch s = (srv_next_epoch s, s\<lparr>srv_next_epoch := Suc (srv_next_epoch s)\<rparr>)"

definition release_agent_stream :: "string \<Rightarrow> nat \<Rightarrow> srv \<Rightarrow> srv" where
  "release_agent_stream hid epoch s =
     (if srv_agents s hid \<noteq> Some epoch then s
      else s\<lparr>srv_agents := (srv_agents s)(hid := None),
             srv_pending_ops := (\<lambda>v. if srv_pending_ops s v = Some hid then None else srv_pending_ops s v)\<rparr>)"

record RegisterHostRequest =
  rg_hostname :: string
  rg_total_cpu :: nat
  rg_total_memory_mib :: nat
  rg_storage_capacity :: "StorageCapacity option"
  rg_gpus :: "GpuInfo list"
  rg_vtep_address :: "ipv4 option"
  rg_rank :: nat
  rg_labels :: labels
  rg_current_inventory :: "HostInventory option"

definition StorageCapacityBytes_default :: StorageCapacityBytes where
  "StorageCapacityBytes_default = \<lparr>sc_rootfs_total_bytes = 0, sc_rootfs_free_bytes = 0,
     sc_rootfs_metadata_total_bytes = 0, sc_rootfs_metadata_free_bytes = 0,
     sc_data_total_bytes = 0, sc_data_free_bytes = 0\<rparr>"

definition reported_capacity :: "StorageCapacity option \<Rightarrow> StorageCapacityBytes" where
  "reported_capacity c = (case c of Some c \<Rightarrow> StorageCapacityBytes_from_proto c | None \<Rightarrow> StorageCapacityBytes_default)"

definition registered_host :: "string \<Rightarrow> string \<Rightarrow> RegisterHostRequest \<Rightarrow> HostRow" where
  "registered_host hid now r = (let cap = reported_capacity (rg_storage_capacity r) in \<lparr>
     h_id = hid, h_hostname = rg_hostname r, h_total_cpu = int (rg_total_cpu r),
     h_total_memory_mib = as_i64 (rg_total_memory_mib r),
     h_rootfs_total_bytes = sc_rootfs_total_bytes cap, h_rootfs_free_bytes = sc_rootfs_free_bytes cap,
     h_rootfs_metadata_total_bytes = sc_rootfs_metadata_total_bytes cap,
     h_rootfs_metadata_free_bytes = sc_rootfs_metadata_free_bytes cap,
     h_data_total_bytes = sc_data_total_bytes cap, h_data_free_bytes = sc_data_free_bytes cap,
     h_gpu_inventory = rg_gpus r, h_vtep_address = rg_vtep_address r, h_last_heartbeat = now,
     h_healthy = True, h_rank = int (rg_rank r), h_labels = rg_labels r\<rparr>)"

text \<open>\<open>fresh\<close> is the UUID a first registration mints.\<close>

definition register_or_lookup_host ::
  "string \<Rightarrow> string \<Rightarrow> RegisterHostRequest \<Rightarrow> db \<Rightarrow> (Status, string \<times> db) res" where
  "register_or_lookup_host fresh now r d =
     (let hid = (case get_host_by_hostname d (rg_hostname r) of Some h \<Rightarrow> h_id h | None \<Rightarrow> fresh) in
      case upsert_host d (registered_host hid now r) of
        Inl _ \<Rightarrow> Inl S_internal
      | Inr d' \<Rightarrow> Inr (hid, d'))"

text \<open>
  The outbox replay: \<open>decode\<close> is the protobuf decoder of the stored payload, \<open>k\<close> the number of
  sends the channel accepts before the stream dies.
\<close>

fun replay_outbox ::
  "(nat list \<Rightarrow> ControllerCommand option) \<Rightarrow> string \<Rightarrow> nat \<Rightarrow> (nat \<times> nat list) list \<Rightarrow> srv \<Rightarrow> srv" where
  "replay_outbox decode hid k [] s = s"
| "replay_outbox decode hid k ((i, payload) # rest) s =
     (case decode payload of
        None \<Rightarrow> replay_outbox decode hid k rest s
      | Some cmd \<Rightarrow> (case k of
          0 \<Rightarrow> s
        | Suc k' \<Rightarrow> (let s1 = send_command hid cmd s in
            replay_outbox decode hid k' rest (s1\<lparr>srv_db := mark_command_sent (srv_db s1) i\<rparr>))))"

record server_config =
  sv_network :: NetworkConfig
  sv_bgp :: BgpConfig
  sv_auto_reconcile :: bool
  sv_dns_servers :: "string list"

text \<open>
  The state the registration reply carries, diffed against the inventory in both directions.
  The command extended before the reaping is discarded by the rebuild after it, so only the
  second extension is written.
\<close>

definition initial_state ::
  "server_config \<Rightarrow> string \<Rightarrow> string \<Rightarrow> HostInventory option \<Rightarrow> srv \<Rightarrow> (Status, ReconcileHostCommand) res \<times> srv" where
  "initial_state cfg now hid inventory s =
     (let net = sv_network cfg; auto = sv_auto_reconcile cfg in
      case build_reconcile_command net (srv_db s) hid of
        (Inl _, d) \<Rightarrow> (Inl S_internal, s\<lparr>srv_db := d\<rparr>)
      | (Inr cmd, d) \<Rightarrow> (case inventory of
          None \<Rightarrow> (Inr cmd, s\<lparr>srv_db := d\<rparr>)
        | Some inven \<Rightarrow>
            (let s1 = reap_db_orphans_from_inventory net auto now hid inven (s\<lparr>srv_db := d\<rparr>) in
             case build_reconcile_command net (srv_db s1) hid of
               (Inl _, d1) \<Rightarrow> (Inl S_internal, s1\<lparr>srv_db := d1\<rparr>)
             | (Inr cmd1, d1) \<Rightarrow>
                 (Inr (extend_with_orphan_tombstones auto d1 hid inven cmd1), s1\<lparr>srv_db := d1\<rparr>))))"

text \<open>The registration reply, the registration under a fresh epoch, and the replay.\<close>

definition accept_stream ::
  "server_config \<Rightarrow> (nat list \<Rightarrow> ControllerCommand option) \<Rightarrow> nat \<Rightarrow> string \<Rightarrow> ReconcileHostCommand \<Rightarrow> srv \<Rightarrow> nat \<times> srv" where
  "accept_stream cfg decode k hid cmd s =
     (let s1 = send_command hid (RegisterAck \<lparr>ra_host_id = hid, ra_initial_state = cmd,
            ra_bgp_asn = b_asn (sv_bgp cfg), ra_bgp_reflector_address = b_router_id (sv_bgp cfg)\<rparr>) s;
          (epoch, s2) = next_agent_epoch s1;
          s3 = s2\<lparr>srv_agents := (srv_agents s2)(hid \<mapsto> epoch)\<rparr> in
      (epoch, replay_outbox decode hid k (list_pending_commands (srv_db s3) hid) s3))"

text \<open>
  \<open>stream_messages\<close> up to the spawned tasks: the peer, the first message (a registration or
  anything else), registration, the initial state and the replay.  It returns the host and the
  epoch of the stream.
\<close>

definition open_stream ::
  "server_config \<Rightarrow> (nat list \<Rightarrow> ControllerCommand option) \<Rightarrow> nat \<Rightarrow> string \<Rightarrow> string \<Rightarrow> peer \<Rightarrow>
   RegisterHostRequest option \<Rightarrow> srv \<Rightarrow> (Status, string \<times> nat) res \<times> srv" where
  "open_stream cfg decode k fresh now p first s =
     (case peer_identity p of
        Inl e \<Rightarrow> (Inl e, s)
      | Inr peer_id \<Rightarrow>
     if peer_id = CAPI_PROVIDER_IDENTITY then (Inl S_permission_denied, s)
     else case first of
        None \<Rightarrow> (Inl S_invalid_argument, s)
      | Some r \<Rightarrow>
     if peer_id \<noteq> rg_hostname r then (Inl S_permission_denied, s)
     else case register_or_lookup_host fresh now r (srv_db s) of
        Inl e \<Rightarrow> (Inl e, s)
      | Inr (hid, d) \<Rightarrow>
     (case initial_state cfg now hid (rg_current_inventory r) (s\<lparr>srv_db := d\<rparr>) of
        (Inl e, s1) \<Rightarrow> (Inl e, s1)
      | (Inr cmd, s1) \<Rightarrow> (case accept_stream cfg decode k hid cmd s1 of (epoch, s2) \<Rightarrow> (Inr (hid, epoch), s2))))"

subsection \<open>Messages of an agent\<close>

record VmFailure =
  vf_message :: string
  vf_transient :: bool

record ReportVmState =
  rv_vm_id :: string
  rv_state :: int
  rv_error_message :: string
  rv_transient :: bool

datatype AgentMessage =
    Register
  | Heartbeat "StorageCapacity option"
  | VmState ReportVmState
  | TombstoneAck "nat list" "string list"
  | DiskAssignmentReport "DiskAssignment option"

text \<open>\<open>report.state()\<close>: an unknown number reads as the default, \<open>PENDING\<close>.\<close>

definition reported_state :: "int \<Rightarrow> int" where
  "reported_state n = (if 0 \<le> n \<and> n \<le> 6 then n else STATE_PENDING)"

text \<open>
  What a report resolves: the waiting creation it wakes, with the outcome it hands over.
\<close>

type_synonym wake = "(string \<times> (VmFailure, unit) res) option"

definition resolve_pending_op :: "string \<Rightarrow> ReportVmState \<Rightarrow> srv \<Rightarrow> wake \<times> srv" where
  "resolve_pending_op hid r s =
     (case srv_pending_ops s (rv_vm_id r) of
        Some h \<Rightarrow> if h \<noteq> hid then (None, s)
          else (Some (rv_vm_id r, if reported_state (rv_state r) = STATE_FAILED
                 then Inl \<lparr>vf_message = rv_error_message r, vf_transient = rv_transient r\<rparr> else Inr ()),
                s\<lparr>srv_pending_ops := (srv_pending_ops s)(rv_vm_id r := None),
                  srv_db := ack_pending_commands_for_vm (srv_db s) (rv_vm_id r)\<rparr>)
      | None \<Rightarrow> (None, s\<lparr>srv_db := ack_pending_commands_for_vm (srv_db s) (rv_vm_id r)\<rparr>))"

text \<open>
  A state report reads the row, then writes it in a second statement; \<open>env\<close> is what other
  tasks commit in between.
\<close>

definition handle_vm_state ::
  "(db \<Rightarrow> db) \<Rightarrow> string \<Rightarrow> string \<Rightarrow> ReportVmState \<Rightarrow> srv \<Rightarrow> (DbError, wake) res \<times> srv" where
  "handle_vm_state env now hid r s =
     (case get_vm (srv_db s) (rv_vm_id r) of
        Inl _ \<Rightarrow> (Inr None, s)
      | Inr prev \<Rightarrow>
          if vm_host_id prev \<noteq> hid then (Inr None, s)
          else (let st = reported_state (rv_state r); d0 = env (srv_db s);
                    upd = (if vm_state prev \<noteq> VM_STATE_PENDING_TEARDOWN
                           then update_vm_state d0 (rv_vm_id r) st (rv_error_message r) now else Inr d0) in
                case upd of
                  Inl e \<Rightarrow> (Inl e, s\<lparr>srv_db := d0\<rparr>)
                | Inr d1 \<Rightarrow>
                    (if st = STATE_RUNNING \<or> st = STATE_FAILED
                     then (case resolve_pending_op hid r (s\<lparr>srv_db := d1\<rparr>) of (w, s') \<Rightarrow> (Inr w, s'))
                     else (Inr None, s\<lparr>srv_db := d1\<rparr>))))"

text \<open>
  The result is \<open>None\<close> when a disk report leaves a machine's \<open>storage_disks\<close> column without a
  readable value (\<open>commit_disk_assignment\<close>).
\<close>

definition handle_agent_message ::
  "(db \<Rightarrow> db) \<Rightarrow> string \<Rightarrow> string \<Rightarrow> AgentMessage option \<Rightarrow> srv \<Rightarrow> ((DbError, wake) res \<times> srv) option" where
  "handle_agent_message env now hid msg s =
     (case msg of
        None \<Rightarrow> Some (Inr None, s)
      | Some Register \<Rightarrow> Some (Inr None, s)
      | Some (Heartbeat c) \<Rightarrow>
          (case record_heartbeat (srv_db s) hid now (reported_capacity c)
             (case c of Some c \<Rightarrow> st_pools c | None \<Rightarrow> []) of
             Inl e \<Rightarrow> Some (Inl e, s)
           | Inr d \<Rightarrow> Some (Inr None, s\<lparr>srv_db := d\<rparr>))
      | Some (VmState r) \<Rightarrow> Some (handle_vm_state env now hid r s)
      | Some (TombstoneAck vnis vids) \<Rightarrow> Some (Inr None, s\<lparr>srv_db := ack_tombstones (srv_db s) hid vnis vids\<rparr>)
      | Some (DiskAssignmentReport None) \<Rightarrow> Some (Inr None, s)
      | Some (DiskAssignmentReport (Some a)) \<Rightarrow>
          map_option (\<lambda>d. (Inr None, s\<lparr>srv_db := d\<rparr>)) (commit_disk_assignment (srv_db s) hid a))"

text \<open>The periodic push: it sends on the stream's own channel, registered or not.\<close>

definition periodic_reconcile :: "NetworkConfig \<Rightarrow> string \<Rightarrow> srv \<Rightarrow> srv" where
  "periodic_reconcile net hid s =
     (case build_reconcile_command net (srv_db s) hid of
        (Inl _, d) \<Rightarrow> s\<lparr>srv_db := d\<rparr>
      | (Inr cmd, d) \<Rightarrow> send_command hid (ReconcileHost cmd) (s\<lparr>srv_db := d\<rparr>))"

definition register_pending_op :: "string \<Rightarrow> string \<Rightarrow> srv \<Rightarrow> srv" where
  "register_pending_op vid hid s = s\<lparr>srv_pending_ops := (srv_pending_ops s)(vid \<mapsto> hid)\<rparr>"

subsection \<open>Registrations and epochs\<close>

text \<open>What an operation leaves alone when it neither opens nor closes a stream.\<close>

definition same_conns :: "srv \<Rightarrow> srv \<Rightarrow> bool" where
  "same_conns s s' \<longleftrightarrow> srv_agents s' = srv_agents s \<and> srv_next_epoch s' = srv_next_epoch s"

named_theorems conns \<comment> \<open>operations that keep the registrations\<close>

lemma same_conns_refl [conns]: "same_conns s s"
  by (simp add: same_conns_def)

lemma same_conns_trans: "same_conns s s' \<Longrightarrow> same_conns s' s'' \<Longrightarrow> same_conns s s''"
  by (simp add: same_conns_def)

lemma same_conns_db [conns]: "same_conns s (s\<lparr>srv_db := d\<rparr>)"
  by (simp add: same_conns_def)

lemma same_conns_push [conns]: "same_conns s (push_reconcile net hid s)"
  using push_reconcile_ok [of net s hid] by (simp add: pushes_ok_def same_conns_def)

lemma same_conns_cleanup [conns]: "same_conns s (cleanup_failed_vm net now vid cid hid s)"
  unfolding cleanup_failed_vm_def Let_def by (rule same_conns_trans [OF same_conns_db same_conns_push])

lemma same_conns_fold: "(\<And>x s. same_conns s (f x s)) \<Longrightarrow> same_conns s (fold f xs s)"
  by (induction xs arbitrary: s) (auto intro: conns same_conns_trans)

lemma same_conns_reap [conns]: "same_conns s (reap_db_orphans_from_inventory net auto now hid inven s)"
  unfolding reap_db_orphans_from_inventory_def Let_def
  by (auto intro!: conns same_conns_fold same_conns_trans [OF same_conns_fold same_conns_db])

lemma same_conns_initial_state [conns]: "same_conns s (snd (initial_state cfg now hid inventory s))"
  unfolding initial_state_def Let_def
  by (auto intro!: conns same_conns_trans [OF same_conns_db same_conns_trans [OF same_conns_reap same_conns_db]]
      split: prod.splits sum.splits option.splits)

lemma same_conns_replay [conns]: "same_conns s (replay_outbox decode hid k cs s)"
  by (induction decode hid k cs s rule: replay_outbox.induct)
    (auto simp: same_conns_def send_command_def Let_def split: option.splits nat.splits)

lemma same_conns_resolve [conns]: "same_conns s (snd (resolve_pending_op hid r s))"
  by (auto simp: resolve_pending_op_def same_conns_def split: option.splits)

lemma same_conns_vm_state [conns]: "same_conns s (snd (handle_vm_state env now hid r s))"
proof -
  have "same_conns s (snd (resolve_pending_op hid r (s\<lparr>srv_db := d\<rparr>)))" for d
    by (rule same_conns_trans [OF same_conns_db same_conns_resolve])
  then show ?thesis
    by (auto simp: handle_vm_state_def Let_def conns split: sum.splits prod.splits) (metis snd_conv)+
qed

lemma same_conns_message [conns]:
  "handle_agent_message env now hid msg s = Some (r, s') \<Longrightarrow> same_conns s s'"
  by (auto simp: handle_agent_message_def conns split: option.splits AgentMessage.splits sum.splits)
    (metis same_conns_vm_state snd_conv)

lemma same_conns_periodic [conns]: "same_conns s (periodic_reconcile net hid s)"
  by (auto simp: periodic_reconcile_def same_conns_def send_command_def split: prod.splits sum.splits)

lemma accept_stream_conns:
  assumes "accept_stream cfg decode k hid cmd s = (e, s')"
  shows "e = srv_next_epoch s \<and> srv_agents s' = (srv_agents s)(hid \<mapsto> e) \<and> srv_next_epoch s' = Suc (srv_next_epoch s)"
  using assms same_conns_replay [of _ decode hid k]
  by (auto simp: accept_stream_def send_command_def next_agent_epoch_def same_conns_def)

lemma open_stream_Inr:
  assumes "open_stream cfg decode k fresh now p first s = (Inr (hid, e), s')"
  shows "e = srv_next_epoch s \<and> srv_agents s' = (srv_agents s)(hid \<mapsto> e) \<and> srv_next_epoch s' = Suc (srv_next_epoch s)"
proof -
  from assms obtain i d s1 cmd where s1: "initial_state cfg now hid i (s\<lparr>srv_db := d\<rparr>) = (Inr cmd, s1)"
      and s': "accept_stream cfg decode k hid cmd s1 = (e, s')"
    by (auto simp: open_stream_def split: sum.splits if_splits option.splits prod.splits)
  have "same_conns s s1"
    using same_conns_trans [OF same_conns_db [of s d] same_conns_initial_state [of _ cfg now hid i]] s1 by simp
  then show ?thesis using accept_stream_conns [OF s'] by (simp add: same_conns_def)
qed

lemma open_stream_Inl: "open_stream cfg decode k fresh now p first s = (Inl st, s') \<Longrightarrow> same_conns s s'"
proof -
  have "same_conns s (snd (initial_state cfg now h i (s\<lparr>srv_db := d\<rparr>)))" for d h i
    by (rule same_conns_trans [OF same_conns_db same_conns_initial_state])
  then show "open_stream cfg decode k fresh now p first s = (Inl st, s') \<Longrightarrow> same_conns s s'"
    by (auto simp: open_stream_def conns
        split: sum.splits if_splits option.splits prod.splits) (metis snd_conv)+
qed

text \<open>
  The server with its streams: the ones whose inbound task still runs, and for every host the
  epoch of the stream it opened last.
\<close>

record conn =
  cx_srv :: srv
  cx_open :: "(string \<times> nat) set"
  cx_newest :: "string \<rightharpoonup> nat"

inductive stream_step :: "conn \<Rightarrow> conn \<Rightarrow> bool" where
  connect: "open_stream cfg decode k fresh now p first (cx_srv c) = (Inr (hid, e), s) \<Longrightarrow>
     stream_step c (c\<lparr>cx_srv := s, cx_open := insert (hid, e) (cx_open c), cx_newest := (cx_newest c)(hid \<mapsto> e)\<rparr>)"
| refuse: "open_stream cfg decode k fresh now p first (cx_srv c) = (Inl st, s) \<Longrightarrow> stream_step c (c\<lparr>cx_srv := s\<rparr>)"
| message: "(hid, e) \<in> cx_open c \<Longrightarrow> handle_agent_message env now hid msg (cx_srv c) = Some (r, s) \<Longrightarrow>
     stream_step c (c\<lparr>cx_srv := s\<rparr>)"
| tick: "(hid, e) \<in> cx_open c \<Longrightarrow> stream_step c (c\<lparr>cx_srv := periodic_reconcile net hid (cx_srv c)\<rparr>)"
| close: "(hid, e) \<in> cx_open c \<Longrightarrow>
     stream_step c (c\<lparr>cx_srv := release_agent_stream hid e (cx_srv c), cx_open := cx_open c - {(hid, e)}\<rparr>)"
| api: "same_conns (cx_srv c) s \<Longrightarrow> stream_step c (c\<lparr>cx_srv := s\<rparr>)"

definition no_streams :: "conn \<Rightarrow> bool" where
  "no_streams c \<longleftrightarrow> cx_open c = {} \<and> cx_newest c = Map.empty \<and> srv_agents (cx_srv c) = Map.empty"

definition streams_ok :: "conn \<Rightarrow> bool" where
  "streams_ok c \<longleftrightarrow>
     (\<forall>h e. (h, e) \<in> cx_open c \<longrightarrow> e < srv_next_epoch (cx_srv c)) \<and>
     (\<forall>h e. srv_agents (cx_srv c) h = Some e \<longleftrightarrow> cx_newest c h = Some e \<and> (h, e) \<in> cx_open c)"

lemma streams_ok_same:
  "streams_ok c \<Longrightarrow> same_conns (cx_srv c) s \<Longrightarrow> streams_ok (c\<lparr>cx_srv := s\<rparr>)"
  by (simp add: streams_ok_def same_conns_def)

lemma stream_step_ok:
  assumes "streams_ok c" "stream_step c c'"
  shows "streams_ok c'"
  using assms(2)
proof cases
  case (connect cfg decode k fresh now p first hid e s)
  then show ?thesis
    using assms(1) open_stream_Inr [OF connect(2)] by (auto simp: streams_ok_def less_Suc_eq)
next
  case (close hid e)
  then show ?thesis using assms(1) by (auto simp: streams_ok_def release_agent_stream_def)
qed (auto intro: streams_ok_same [OF assms(1)] same_conns_periodic dest: same_conns_message open_stream_Inl)

interpretation streams: invariant_machine no_streams stream_step streams_ok
proof
  show "streams_ok c" if "no_streams c" for c using that by (simp add: no_streams_def streams_ok_def)
qed (rule stream_step_ok)

text \<open>
  C9: registrations follow the newest connection.  However connections, reconnections, messages
  and cleanups of one host interleave, its agent is registered exactly as long as the stream it
  opened last is open: the late cleanup of a stream that was superseded changes neither the
  registration nor the waiting creations, and no closed stream stays registered.
\<close>

theorem registration_follows_newest_stream:
  assumes "reach no_streams stream_step c"
  shows "(srv_agents (cx_srv c) h = Some e \<longleftrightarrow> cx_newest c h = Some e \<and> (h, e) \<in> cx_open c) \<and>
    (cx_newest c h \<noteq> Some e \<longrightarrow> release_agent_stream h e (cx_srv c) = cx_srv c)"
  using streams.reach_inv [OF assms] by (auto simp: streams_ok_def release_agent_stream_def)

text \<open>Two connections of one agent; its first stream closes after the second one is registered.\<close>

definition example_agent_config :: server_config where
  "example_agent_config = \<lparr>sv_network = example_config, sv_bgp = \<lparr>b_asn = 64512, b_router_id = None\<rparr>,
     sv_auto_reconcile = False, sv_dns_servers = []\<rparr>"

definition example_register :: RegisterHostRequest where
  "example_register = \<lparr>rg_hostname = ''node1'', rg_total_cpu = 16, rg_total_memory_mib = 65536,
     rg_storage_capacity = None, rg_gpus = [], rg_vtep_address = None, rg_rank = 0, rg_labels = Map.empty,
     rg_current_inventory = None\<rparr>"

definition example_start :: conn where
  "example_start = \<lparr>cx_srv = \<lparr>srv_db = empty_db (4, 2), srv_agents = Map.empty, srv_pending_ops = Map.empty,
     srv_next_epoch = 1, srv_sent = []\<rparr>, cx_open = {}, cx_newest = Map.empty\<rparr>"

lemma example_open:
  assumes "hosts (srv_db s) = [] \<or> (\<exists>h. hosts (srv_db s) = [h] \<and> h_hostname h = ''node1'' \<and> h_id h = ''h1'')"
    and "clusters (srv_db s) = []" "pending_command (srv_db s) = []"
  shows "\<exists>s'. open_stream example_agent_config (\<lambda>_. None) 0 ''h1'' now (Peer ''node1'') (Some example_register) s =
      (Inr (''h1'', srv_next_epoch s), s') \<and>
    (\<exists>h. hosts (srv_db s') = [h] \<and> h_hostname h = ''node1'' \<and> h_id h = ''h1'') \<and>
    clusters (srv_db s') = [] \<and> pending_command (srv_db s') = [] \<and> srv_next_epoch s' = Suc (srv_next_epoch s)"
  using assms
  by (auto simp: open_stream_def example_agent_config_def example_register_def CAPI_PROVIDER_IDENTITY_def
      register_or_lookup_host_def get_host_by_hostname_def upsert_host_def registered_host_def upd_rows_def
      initial_state_def build_reconcile_command_def list_active_host_clusters_def list_pending_cluster_tombstones_def
      and_then_def accept_stream_def send_command_def next_agent_epoch_def list_pending_commands_def Let_def)

text \<open>Witness of C9: after the late cleanup of the first stream the second one is still registered.\<close>

theorem registration_follows_newest_stream_witness:
  "\<exists>c. reach no_streams stream_step c \<and> cx_open c = {(''h1'', 2)} \<and> srv_agents (cx_srv c) ''h1'' = Some 2"
proof -
  have init: "reach no_streams stream_step example_start"
    by (rule reach_init) (simp add: no_streams_def example_start_def)
  obtain s1 where s1: "open_stream example_agent_config (\<lambda>_. None) 0 ''h1'' '''' (Peer ''node1'') (Some example_register)
        (cx_srv example_start) = (Inr (''h1'', 1), s1)"
      and i1: "\<exists>h. hosts (srv_db s1) = [h] \<and> h_hostname h = ''node1'' \<and> h_id h = ''h1''"
        "clusters (srv_db s1) = []" "pending_command (srv_db s1) = []" "srv_next_epoch s1 = 2"
    using example_open [of "cx_srv example_start" "''''"] by (auto simp: example_start_def empty_db_def numeral_2_eq_2)
  obtain s2 where s2: "open_stream example_agent_config (\<lambda>_. None) 0 ''h1'' '''' (Peer ''node1'') (Some example_register) s1 =
      (Inr (''h1'', 2), s2)"
    using example_open [of s1 "''''"] i1 by auto
  let ?c2 = "\<lparr>cx_srv = s2, cx_open = {(''h1'', 2), (''h1'', 1)}, cx_newest = [''h1'' \<mapsto> 2]\<rparr>"
  let ?c3 = "?c2\<lparr>cx_srv := release_agent_stream ''h1'' 1 s2, cx_open := cx_open ?c2 - {(''h1'', 1)}\<rparr>"
  have "stream_step example_start \<lparr>cx_srv = s1, cx_open = {(''h1'', 1)}, cx_newest = [''h1'' \<mapsto> 1]\<rparr>"
    using connect [OF s1] by (simp add: example_start_def)
  moreover have "stream_step \<lparr>cx_srv = s1, cx_open = {(''h1'', 1)}, cx_newest = [''h1'' \<mapsto> 1]\<rparr> ?c2"
    using connect [of _ _ _ _ _ _ _ "\<lparr>cx_srv = s1, cx_open = {(''h1'', 1)}, cx_newest = [''h1'' \<mapsto> 1]\<rparr>"] s2 by fastforce
  moreover have "stream_step ?c2 ?c3" using close [of "''h1''" 1 ?c2] by simp
  ultimately have r: "reach no_streams stream_step ?c3" using init by (meson reach_step)
  have "cx_open ?c3 = {(''h1'', 2)}" by auto
  moreover from registration_follows_newest_stream [OF r, of "''h1''" 2]
  have "srv_agents (cx_srv ?c3) ''h1'' = Some 2" by simp
  ultimately show ?thesis using r by blast
qed

subsection \<open>The inventory of an agent\<close>

lemma list_pending_vm_tombstones_set:
  "set (list_pending_vm_tombstones d hid) =
     vm_id ` {v \<in> set (vms d). vm_host_id v = hid \<and> vm_state v = VM_STATE_PENDING_TEARDOWN}"
  by (auto simp: list_pending_vm_tombstones_def)

lemma build_vm_tombstones:
  "build_reconcile_command net d hid = (Inr cmd, d') \<Longrightarrow>
     rh_vm_tombstones cmd = list_pending_vm_tombstones d' hid \<and> election_step d d'"
  by (erule build_reconcile_command_parts) (auto simp: election_step_def)

lemma extend_vm_tombstones:
  "set (rh_vm_tombstones (extend_with_orphan_tombstones auto d hid inven cmd)) \<subseteq>
     set (rh_vm_tombstones cmd) \<union> {v \<in> set (inv_vm_ids inven). auto \<and> \<not> (\<exists>r. get_vm d v = Inr r \<and> vm_host_id r = hid)}"
proof -
  have "v \<in> set (inv_vm_ids inven) \<and> \<not> (\<exists>r. get_vm d v = Inr r \<and> vm_host_id r = hid)"
    if "v \<in> set (orphan_vm_ids d hid inven cmd)" for v
    using that by (cases "get_vm d v") (auto simp: orphan_vm_ids_def)
  then show ?thesis by (auto simp: extend_with_orphan_tombstones_def Let_def split: if_splits)
qed

lemma reap_frozen: "reap_db_orphans_from_inventory net False now hid inven s = s"
  by (simp add: reap_db_orphans_from_inventory_def Let_def)

lemma extend_frozen: "extend_with_orphan_tombstones False d hid inven cmd = cmd"
  by (simp add: extend_with_orphan_tombstones_def Let_def)

lemma initial_state_Inr:
  assumes "initial_state cfg now hid inventory s = (Inr cmd, s')"
  shows "\<exists>cmd1 d s1. build_reconcile_command (sv_network cfg) d hid = (Inr cmd1, srv_db s') \<and> s' = s1\<lparr>srv_db := srv_db s'\<rparr> \<and>
    (case inventory of
       None \<Rightarrow> cmd = cmd1 \<and> s1 = s \<and> d = srv_db s
     | Some inven \<Rightarrow> cmd = extend_with_orphan_tombstones (sv_auto_reconcile cfg) (srv_db s') hid inven cmd1 \<and>
         d = srv_db s1 \<and> (\<exists>d0. election_step (srv_db s) d0 \<and> s1 = reap_db_orphans_from_inventory (sv_network cfg)
           (sv_auto_reconcile cfg) now hid inven (s\<lparr>srv_db := d0\<rparr>)))"
proof (cases inventory)
  case None
  then show ?thesis using assms by (auto simp: initial_state_def Let_def split: prod.splits sum.splits)
next
  case (Some inven)
  then show ?thesis
    using assms build_election [of "srv_db s" "sv_network cfg" hid]
    by (fastforce simp: initial_state_def Let_def split: prod.splits sum.splits)
qed


text \<open>Witness of C22: an agent that reports a machine an empty database does not know keeps it.\<close>

definition example_inventory :: HostInventory where
  "example_inventory = \<lparr>inv_vm_ids = [''v9''], inv_clusters = []\<rparr>"


subsection \<open>The messages of an agent\<close>

lemma get_vm_mem: "get_vm d i = Inr v \<Longrightarrow> v \<in> set (vms d) \<and> vm_id v = i"
  by (auto simp: get_vm_def dest: find_Some_mem split: option.splits)

lemma resolve_vms [simp]: "vms (srv_db (snd (resolve_pending_op hid r s))) = vms (srv_db s)"
  by (auto simp: resolve_pending_op_def ack_pending_commands_for_vm_def split: option.splits)

lemma vm_state_vms:
  "vms (srv_db (snd (handle_vm_state id now hid r s))) =
     (case get_vm (srv_db s) (rv_vm_id r) of
        Inl _ \<Rightarrow> vms (srv_db s)
      | Inr prev \<Rightarrow> if vm_host_id prev \<noteq> hid \<or> vm_state prev = VM_STATE_PENDING_TEARDOWN then vms (srv_db s)
          else upd_rows (\<lambda>v. vm_id v = rv_vm_id r) (\<lambda>v. v\<lparr>vm_state := reported_state (rv_state r),
            vm_error_message := rv_error_message r, vm_updated_at := now\<rparr>) (vms (srv_db s)))"
proof (cases "get_vm (srv_db s) (rv_vm_id r)")
  case (Inr prev)
  then have "list_ex (\<lambda>v. vm_id v = rv_vm_id r) (vms (srv_db s))"
    using get_vm_mem [OF Inr] by (auto simp: list_ex_iff)
  then show ?thesis using Inr by (simp add: handle_vm_state_def update_vm_state_def Let_def case_prod_beta)
qed (simp add: handle_vm_state_def)

lemma heartbeat_vms: "record_heartbeat d hid now cap pools = Inr d' \<Longrightarrow> vms d' = vms d \<and> vm_gpus d' = vm_gpus d"
  by (auto simp: record_heartbeat_def split: if_splits)

text \<open>What one message may do to a machine's row.\<close>

definition message_may_change :: "string \<Rightarrow> AgentMessage option \<Rightarrow> VmRow \<Rightarrow> bool" where
  "message_may_change hid msg v \<longleftrightarrow> vm_host_id v = hid \<and> (case msg of
     Some (VmState r) \<Rightarrow> rv_vm_id r = vm_id v \<and> vm_state v \<noteq> VM_STATE_PENDING_TEARDOWN
   | Some (TombstoneAck _ ids) \<Rightarrow> vm_id v \<in> set ids \<and> vm_state v = VM_STATE_PENDING_TEARDOWN
   | _ \<Rightarrow> False)"

lemma vm_state_isolated:
  assumes "db_schema (srv_db s)" and d'_def: "d' = srv_db (snd (handle_vm_state id now hid rep s))"
    and may_def: "may = message_may_change hid (Some (VmState rep))"
  shows "(\<forall>v \<in> set (vms (srv_db s)). \<not> may v \<longrightarrow> v \<in> set (vms d')) \<and>
    (\<forall>v' \<in> set (vms d'). v' \<in> set (vms (srv_db s)) \<or>
       (\<exists>v \<in> set (vms (srv_db s)). vm_id v' = vm_id v \<and> vm_host_id v' = hid \<and> may v))"
proof (cases "get_vm (srv_db s) (rv_vm_id rep)")
  case (Inr prev)
  note prev = get_vm_mem [OF Inr]
  have uniq: "v = prev" if "v \<in> set (vms (srv_db s))" "vm_id v = rv_vm_id rep" for v
    using distinct_map_eq [OF schema_keysD(8) [OF assms(1)] that(1)] prev that(2) by simp
  show ?thesis
  proof (cases "vm_host_id prev \<noteq> hid \<or> vm_state prev = VM_STATE_PENDING_TEARDOWN")
    case True
    then show ?thesis unfolding d'_def vm_state_vms Inr by simp
  next
    case False
    then have m: "may prev" using prev by (simp add: message_may_change_def may_def)
    let ?f = "\<lambda>v. v\<lparr>vm_state := reported_state (rv_state rep), vm_error_message := rv_error_message rep, vm_updated_at := now\<rparr>"
    have eq: "vms d' = upd_rows (\<lambda>v. vm_id v = rv_vm_id rep) ?f (vms (srv_db s))"
      using False unfolding d'_def vm_state_vms Inr by simp
    have "v \<in> set (vms d')" if "v \<in> set (vms (srv_db s))" "\<not> may v" for v
      unfolding eq in_upd_rows using that m uniq [OF that(1)] by (intro bexI [of _ v]) auto
    moreover have "v' \<in> set (vms (srv_db s)) \<or> (vm_id v' = vm_id prev \<and> vm_host_id v' = hid)"
      if v': "v' \<in> set (vms d')" for v'
    proof -
      from v' obtain v where v: "v \<in> set (vms (srv_db s))" "v' = (if vm_id v = rv_vm_id rep then ?f v else v)"
        unfolding eq in_upd_rows by blast
      then show ?thesis using uniq [OF v(1)] False by (cases "vm_id v = rv_vm_id rep") simp_all
    qed
    ultimately show ?thesis using m prev by blast
  qed
qed (simp add: d'_def vm_state_vms)


text \<open>Witness of C21: a late \<open>RUNNING\<close> report for a machine that is being deleted.\<close>

definition example_report_running :: ReportVmState where
  "example_report_running = \<lparr>rv_vm_id = ''v1'', rv_state = 2, rv_error_message = '''', rv_transient = False\<rparr>"

definition example_deleting :: srv where
  "example_deleting = \<lparr>srv_db = example_busy 6, srv_agents = [''h1'' \<mapsto> 1], srv_pending_ops = Map.empty,
     srv_next_epoch = 2, srv_sent = []\<rparr>"


text \<open>
  The check against a teardown is not atomic with the write it guards: if a deletion is
  recorded between the two statements, the report overwrites it, and the host is never told to
  remove the machine.
\<close>

definition record_teardown :: "string \<Rightarrow> string \<Rightarrow> db \<Rightarrow> db" where
  "record_teardown vid now d = (case mark_vm_pending_teardown d vid now of Inr d' \<Rightarrow> d' | Inl _ \<Rightarrow> d)"

theorem state_report_races_teardown:
  assumes "get_vm (srv_db s) (rv_vm_id r) = Inr prev" and "vm_host_id prev = hid"
    and "vm_state prev \<noteq> VM_STATE_PENDING_TEARDOWN" and "reported_state (rv_state r) \<noteq> VM_STATE_PENDING_TEARDOWN"
  shows "rv_vm_id r \<in> set (list_pending_vm_tombstones (record_teardown (rv_vm_id r) now (srv_db s)) hid) \<and>
    rv_vm_id r \<notin> set (list_pending_vm_tombstones
      (srv_db (snd (handle_vm_state (record_teardown (rv_vm_id r) now) now hid r s))) hid)"
proof -
  note prev = get_vm_mem [OF assms(1)]
  have ex: "list_ex (\<lambda>v. vm_id v = rv_vm_id r) (vms (srv_db s))" using prev by (auto simp: list_ex_iff)
  let ?d = "(srv_db s)\<lparr>vms := upd_rows (\<lambda>v. vm_id v = rv_vm_id r)
      (\<lambda>v. v\<lparr>vm_state := VM_STATE_PENDING_TEARDOWN, vm_updated_at := now\<rparr>) (vms (srv_db s))\<rparr>"
  have d: "record_teardown (rv_vm_id r) now (srv_db s) = ?d"
    using ex by (simp add: record_teardown_def mark_vm_pending_teardown_def)
  have ex': "list_ex (\<lambda>v. vm_id v = rv_vm_id r) (vms ?d)"
    using ex unfolding list_ex_key by (simp add: image_upd_rows)
  have eq: "vms (srv_db (snd (handle_vm_state (record_teardown (rv_vm_id r) now) now hid r s))) =
      upd_rows (\<lambda>v. vm_id v = rv_vm_id r) (\<lambda>v. v\<lparr>vm_state := reported_state (rv_state r),
        vm_error_message := rv_error_message r, vm_updated_at := now\<rparr>) (vms ?d)"
    using assms(1-3) ex' unfolding handle_vm_state_def Let_def d
    by (simp add: update_vm_state_def case_prod_beta)
  have "rv_vm_id r \<notin> set (list_pending_vm_tombstones
      (srv_db (snd (handle_vm_state (record_teardown (rv_vm_id r) now) now hid r s))) hid)"
  proof
    assume "rv_vm_id r \<in> set (list_pending_vm_tombstones
      (srv_db (snd (handle_vm_state (record_teardown (rv_vm_id r) now) now hid r s))) hid)"
    then obtain w where "w \<in> set (vms ?d)" "vm_id (if vm_id w = rv_vm_id r then w\<lparr>vm_state := reported_state (rv_state r),
          vm_error_message := rv_error_message r, vm_updated_at := now\<rparr> else w) = rv_vm_id r"
        "vm_state (if vm_id w = rv_vm_id r then w\<lparr>vm_state := reported_state (rv_state r),
          vm_error_message := rv_error_message r, vm_updated_at := now\<rparr> else w) = VM_STATE_PENDING_TEARDOWN"
      unfolding list_pending_vm_tombstones_set eq by (auto simp only: in_upd_rows image_iff mem_Collect_eq)
    then show False using assms(4) by (cases "vm_id w = rv_vm_id r") simp_all
  qed
  moreover have "rv_vm_id r \<in> set (list_pending_vm_tombstones ?d hid)"
    unfolding list_pending_vm_tombstones_set using prev assms(2)
    by (intro image_eqI [of _ _ "prev\<lparr>vm_state := VM_STATE_PENDING_TEARDOWN, vm_updated_at := now\<rparr>"])
      (auto simp: in_upd_rows intro!: bexI [of _ prev])
  ultimately show ?thesis unfolding d by blast
qed

text \<open>
  A disk report is not checked against the host of the stream: an agent can rewrite the disk
  assignments of a machine of another host.
\<close>

theorem disk_report_crosses_hosts:
  assumes "db_schema (srv_db s)" and "v \<in> set (vms (srv_db s))" and "vm_host_id v \<noteq> hid"
    and "asg_vm_id a = vm_id v" and "asg_disk_index a < length (vm_storage_disks v)" and "asg_actual_size_gib a < 2 ^ 63"
  shows "\<exists>s'. handle_agent_message id now hid (Some (DiskAssignmentReport (Some a))) s = Some (Inr None, s') \<and>
    v\<lparr>vm_storage_disks := (vm_storage_disks v)[asg_disk_index a := patch_disk a (vm_storage_disks v ! asg_disk_index a)]\<rparr>
      \<in> set (vms (srv_db s'))"
proof -
  let ?g = "\<lambda>w. if w = v then v\<lparr>vm_storage_disks := (vm_storage_disks v)[asg_disk_index a :=
      patch_disk a (vm_storage_disks v ! asg_disk_index a)]\<rparr> else w"
  have "patch_vm a w = Some (?g w)" if "w \<in> set (vms (srv_db s))" for w
    using distinct_map_eq [OF schema_keysD(8) [OF assms(1)] that assms(2)] assms(4-6)
    by (auto simp: patch_vm_def patch_disks_def)
  then have "those (map (patch_vm a) (vms (srv_db s))) = Some (map ?g (vms (srv_db s)))" by (rule those_map_Some)
  then show ?thesis
    using assms(2) by (auto simp: handle_agent_message_def commit_disk_assignment_def intro!: image_eqI [of _ _ v])
qed

end
