(* ===== verification/Server_Clusters.thy ===== *)
theory Server_Clusters
  imports Server_Streams
begin

text \<open>
  The cluster requests of the controller's API (\<open>BasisApiService\<close> of
  \<open>basis-controller/src/server.rs\<close>): creating, deleting and reading clusters.  A request runs
  its database statements one after the other; what other requests and streams commit between
  them is an argument \<open>env\<close>, one function per gap.
\<close>

subsection \<open>Messages\<close>

record CreateClusterRequest =
  cr_name :: string
  cr_external_ip_pool :: string
  cr_external_service_ips :: nat
  cr_apiserver_visibility :: int
  cr_trust_domain :: string

record CreateClusterResponse =
  rp_cluster_id :: string
  rp_control_plane_endpoint :: ipv4
  rp_vni :: nat
  rp_cidr :: Ipv4Net
  rp_service_block_cidr :: "Ipv4Net option"
  rp_bgp_reflector_address :: "ipv4 option"
  rp_bgp_asn :: nat

record Cluster =
  cl_cluster_id :: string
  cl_name :: string
  cl_control_plane_endpoint :: ipv4
  cl_vni :: nat
  cl_cidr :: Ipv4Net
  cl_service_block_cidr :: "Ipv4Net option"
  cl_apiserver_visibility :: int
  cl_trust_domain :: string

definition cluster_to_proto :: "ClusterRow \<Rightarrow> Cluster" where
  "cluster_to_proto c = \<lparr>cl_cluster_id = c_id c, cl_name = c_name c,
     cl_control_plane_endpoint = c_control_plane_endpoint c, cl_vni = as_u32 (c_vni c), cl_cidr = c_cidr c,
     cl_service_block_cidr = c_service_block_cidr c, cl_apiserver_visibility = as_i32 (c_apiserver_visibility c),
     cl_trust_domain = c_trust_domain c\<rparr>"

definition create_cluster_response :: "ClusterRow \<Rightarrow> BgpConfig \<Rightarrow> CreateClusterResponse" where
  "create_cluster_response c bgp = \<lparr>rp_cluster_id = c_id c, rp_control_plane_endpoint = c_control_plane_endpoint c,
     rp_vni = as_u32 (c_vni c), rp_cidr = c_cidr c, rp_service_block_cidr = c_service_block_cidr c,
     rp_bgp_reflector_address = b_router_id bgp, rp_bgp_asn = b_asn bgp\<rparr>"

subsection \<open>Creating a cluster\<close>

definition resolve_pool :: "NetworkConfig \<Rightarrow> string \<Rightarrow> (Status, Pool) res" where
  "resolve_pool net name =
     (if name = '''' then Inl S_invalid_argument
      else case pool_by_name net name of Some p \<Rightarrow> Inr p | None \<Rightarrow> Inl S_invalid_argument)"

definition allocate_apiserver_vip ::
  "ipnet \<Rightarrow> ApiserverVisibility \<Rightarrow> Pool \<Rightarrow> ClusterNetwork \<Rightarrow> string \<Rightarrow> db \<Rightarrow> (Status, ipv4 \<times> db) res" where
  "allocate_apiserver_vip ip vis pool cn cid d =
     (case vis of
        ApiserverPublic \<Rightarrow>
          (case allocate_pool_vip ip d pool cid of Inl e \<Rightarrow> Inl (db_status e) | Inr r \<Rightarrow> Inr r)
      | ApiserverPrivate \<Rightarrow>
          (case reserve_specific_ip d (cluster_scope cid) (private_apiserver_ip ip cn) None (Some cid) of
             Inl e \<Rightarrow> Inl (db_status e)
           | Inr d' \<Rightarrow> Inr (private_apiserver_ip ip cn, d')))"

definition allocate_service_block_for ::
  "ipnet \<Rightarrow> Pool \<Rightarrow> string \<Rightarrow> nat \<Rightarrow> db \<Rightarrow> (Status, Ipv4Net option \<times> db) res" where
  "allocate_service_block_for ip pool cid count d =
     (if count = 0 then Inr (None, d)
      else case allocate_service_block d (p_name pool) (parse_pool_range ip pool) cid count of
        Inl e \<Rightarrow> Inl (db_status e)
      | Inr (b, d') \<Rightarrow> Inr (Some b, d'))"

definition visibility_number :: "ApiserverVisibility \<Rightarrow> int" where
  "visibility_number vis = (case vis of ApiserverPublic \<Rightarrow> 0 | ApiserverPrivate \<Rightarrow> 1)"

type_synonym env = "nat \<Rightarrow> db \<Rightarrow> db"

text \<open>
  The insert of a round and its rollbacks; \<open>None\<close> is \<open>continue\<close>, the next round.
\<close>

definition commit_cluster :: "env \<Rightarrow> ClusterRow \<Rightarrow> db \<Rightarrow> (Status, ClusterRow) res option \<times> db" where
  "commit_cluster env row d =
     (case insert_cluster d row of
        Inr d1 \<Rightarrow> (Some (Inr row), d1)
      | Inl e \<Rightarrow> (let d1 = release_cluster_ips d (c_id row) in
          case e of
            Conflict _ \<Rightarrow> (let d2 = env 4 d1 in
              (Some (case get_cluster_by_name d2 (c_name row) of Some c \<Rightarrow> Inr c | None \<Rightarrow> Inl S_internal), d2))
          | AllocationRaced _ \<Rightarrow> (None, d1)
          | _ \<Rightarrow> (Some (Inl (db_status e)), d1)))"

text \<open>One round of the allocation loop for a freshly minted cluster id.\<close>

definition create_cluster_attempt ::
  "ipnet \<Rightarrow> NetworkConfig \<Rightarrow> CreateClusterRequest \<Rightarrow> ApiserverVisibility \<Rightarrow> Pool \<Rightarrow> nat \<Rightarrow> string \<Rightarrow> string \<Rightarrow> env \<Rightarrow> db \<Rightarrow>
   (Status, ClusterRow) res option \<times> db" where
  "create_cluster_attempt ip net req vis pool count now cid env d =
     (let d0 = env 0 d in
      case allocate_cluster_network ip d0 net of
        Inl e \<Rightarrow> (Some (Inl (db_status e)), d0)
      | Inr cn \<Rightarrow>
     (let d1 = env 1 d0 in
      case allocate_apiserver_vip ip vis pool cn cid d1 of
        Inl st \<Rightarrow> (Some (Inl st), release_cluster_ips d1 cid)
      | Inr (endpoint, d2) \<Rightarrow>
     (let d3 = env 2 d2 in
      case allocate_service_block_for ip pool cid count d3 of
        Inl st \<Rightarrow> (Some (Inl st), release_cluster_ips d3 cid)
      | Inr (block, d4) \<Rightarrow>
          commit_cluster env (from_network \<lparr>ci_id = cid, ci_name = cr_name req, ci_control_plane_endpoint = endpoint,
            ci_apiserver_visibility = visibility_number vis, ci_external_pool = cr_external_ip_pool req,
            ci_service_block_cidr = block, ci_trust_domain = cr_trust_domain req, ci_created_at = now\<rparr> cn)
            (env 3 d4))))"

definition MAX_ALLOCATION_ATTEMPTS :: nat where "MAX_ALLOCATION_ATTEMPTS = 8"

fun create_cluster_loop ::
  "(string \<Rightarrow> env \<Rightarrow> db \<Rightarrow> (Status, ClusterRow) res option \<times> db) \<Rightarrow> (string \<times> env) list \<Rightarrow> db \<Rightarrow>
   (Status, ClusterRow) res \<times> db" where
  "create_cluster_loop attempt [] d = (Inl S_resource_exhausted, d)"
| "create_cluster_loop attempt ((cid, env) # rounds) d =
     (case attempt cid env d of
        (Some r, d') \<Rightarrow> (r, d')
      | (None, d') \<Rightarrow> create_cluster_loop attempt rounds d')"

definition service_count :: "NetworkConfig \<Rightarrow> CreateClusterRequest \<Rightarrow> nat" where
  "service_count net req =
     (if cr_external_service_ips req = 0 then n_default_external_service_ips net else cr_external_service_ips req)"

text \<open>The handler; \<open>rounds i\<close> is the id and the interference of round \<open>i\<close>.\<close>

definition create_cluster ::
  "ipnet \<Rightarrow> server_config \<Rightarrow> string \<Rightarrow> (nat \<Rightarrow> string \<times> env) \<Rightarrow> peer \<Rightarrow> CreateClusterRequest \<Rightarrow> srv \<Rightarrow>
   (Status, CreateClusterResponse) res \<times> srv" where
  "create_cluster ip cfg now rounds p req s =
     (let net = sv_network cfg in
      case require_capi_caller p of
        Inl e \<Rightarrow> (Inl e, s)
      | Inr _ \<Rightarrow>
     (case visibility_try_from (cr_apiserver_visibility req) of
        None \<Rightarrow> (Inl S_invalid_argument, s)
      | Some vis \<Rightarrow>
     if cr_name req = '''' then (Inl S_invalid_argument, s)
     else if \<not> is_power_of_two (service_count net req) then (Inl S_invalid_argument, s)
     else case resolve_pool net (cr_external_ip_pool req) of
        Inl e \<Rightarrow> (Inl e, s)
      | Inr pool \<Rightarrow>
     (case get_cluster_by_name (srv_db s) (cr_name req) of
        Some existing \<Rightarrow>
          if cr_trust_domain req \<noteq> '''' \<and> cr_trust_domain req \<noteq> c_trust_domain existing then
            (Inr (create_cluster_response (existing\<lparr>c_trust_domain := cr_trust_domain req\<rparr>) (sv_bgp cfg)),
             broadcast_cluster net (c_id existing)
               (s\<lparr>srv_db := update_cluster_trust_domain (srv_db s) (c_id existing) (cr_trust_domain req)\<rparr>))
          else (Inr (create_cluster_response existing (sv_bgp cfg)), s)
      | None \<Rightarrow>
          (case create_cluster_loop (create_cluster_attempt ip net req vis pool (service_count net req) now)
                  (map rounds [0..<MAX_ALLOCATION_ATTEMPTS]) (srv_db s) of
             (Inl e, d) \<Rightarrow> (Inl e, s\<lparr>srv_db := d\<rparr>)
           | (Inr row, d) \<Rightarrow> (Inr (create_cluster_response row (sv_bgp cfg)), s\<lparr>srv_db := d\<rparr>)))))"

subsection \<open>Deleting and reading clusters\<close>

definition delete_cluster_rpc ::
  "NetworkConfig \<Rightarrow> string \<Rightarrow> peer \<Rightarrow> string \<Rightarrow> srv \<Rightarrow> (Status, unit) res \<times> srv" where
  "delete_cluster_rpc net now p cid s =
     (case require_capi_caller p of
        Inl e \<Rightarrow> (Inl e, s)
      | Inr _ \<Rightarrow>
     (case get_cluster (srv_db s) cid of
        Inl (NotFound _) \<Rightarrow> (Inr (), s)
      | Inl e \<Rightarrow> (Inl (db_status e), s)
      | Inr _ \<Rightarrow>
          (let d1 = fold (\<lambda>v. record_teardown (vm_id v) now) (list_vms (srv_db s) (Some cid)) (srv_db s);
               (affected, d2) = mark_cluster_pending_teardown_all_hosts d1 cid in
           (Inr (), fold (push_reconcile net) affected (s\<lparr>srv_db := d2\<rparr>)))))"

definition get_cluster_rpc :: "peer \<Rightarrow> string \<Rightarrow> srv \<Rightarrow> (Status, Cluster) res" where
  "get_cluster_rpc p cid s = and_then (require_capi_caller p) (\<lambda>_.
     case get_cluster (srv_db s) cid of Inl e \<Rightarrow> Inl (db_status e) | Inr c \<Rightarrow> Inr (cluster_to_proto c))"

definition list_clusters_rpc :: "peer \<Rightarrow> srv \<Rightarrow> (Status, Cluster list) res" where
  "list_clusters_rpc p s = and_then (require_capi_caller p) (\<lambda>_. Inr (map cluster_to_proto (clusters (srv_db s))))"

subsection \<open>The addresses a request holds\<close>

definition owned_ips :: "string \<Rightarrow> db \<Rightarrow> IpAllocationRow list" where
  "owned_ips cid d = filter (\<lambda>r. ia_cluster_id r = Some cid) (ip_allocations d)"

definition block_addrs :: "Ipv4Net option \<Rightarrow> ipv4 list" where
  "block_addrs b = (case b of None \<Rightarrow> [] | Some n \<Rightarrow> [net_addr n ..< net_addr n + 2 ^ (32 - net_prefix n)])"

text \<open>Other requests do not touch the addresses of the ids this one mints.\<close>

definition leaves_ips :: "string set \<Rightarrow> env \<Rightarrow> bool" where
  "leaves_ips C env \<longleftrightarrow> (\<forall>i d. \<forall>c \<in> C. owned_ips c (env i d) = owned_ips c d)"

lemma owned_insert_ip:
  "insert_ip d r = Inr d' \<Longrightarrow> owned_ips c d' = owned_ips c d @ (if ia_cluster_id r = Some c then [r] else [])"
  by (auto simp: insert_ip_def owned_ips_def split: if_splits)

lemma owned_release [simp]: "owned_ips c (release_cluster_ips d cid) = (if c = cid then [] else owned_ips c d)"
  by (induction "ip_allocations d") (auto simp: owned_ips_def release_cluster_ips_def del_rows_def filter_empty_conv
      intro!: filter_cong)

lemma owned_insert_cluster: "insert_cluster d row = Inr d' \<Longrightarrow> owned_ips c d' = owned_ips c d"
  by (auto simp: insert_cluster_def owned_ips_def split: if_splits)

lemma owned_range:
  assumes "allocate_from_range d scope rg None (Some cid) = Inr (n, d')"
  shows "map ia_ip_address (owned_ips c d') = map ia_ip_address (owned_ips c d) @ (if c = cid then [n] else [])"
  using assms by (auto simp: allocate_from_range_def owned_insert_ip split: option.splits sum.splits)

lemma owned_vip:
  assumes "allocate_apiserver_vip ip vis pool cn cid d = Inr (n, d')"
  shows "map ia_ip_address (owned_ips c d') = map ia_ip_address (owned_ips c d) @ (if c = cid then [n] else [])"
  using assms
  by (auto simp: allocate_apiserver_vip_def allocate_pool_vip_def owned_range reserve_specific_ip_def owned_insert_ip
      split: ApiserverVisibility.splits sum.splits DbError.splits sql_error.splits)

lemma owned_reserve_block:
  "reserve_block d scope cid ns = Inr d' \<Longrightarrow>
     map ia_ip_address (owned_ips c d') = map ia_ip_address (owned_ips c d) @ (if c = cid then ns else [])"
proof (induction ns arbitrary: d)
  case (Cons n ns)
  from Cons.prems obtain d1 where d1: "insert_ip d \<lparr>ia_ip_address = n, ia_scope = scope, ia_vm_id = None, ia_cluster_id = Some cid\<rparr> = Inr d1"
      "reserve_block d1 scope cid ns = Inr d'"
    by (auto simp: reserve_block_def split: sum.splits)
  show ?case using Cons.IH [OF d1(2)] owned_insert_ip [OF d1(1)] by simp
qed (simp add: reserve_block_def)

lemma owned_block:
  assumes "allocate_service_block_for ip pool cid count d = Inr (b, d')"
  shows "map ia_ip_address (owned_ips c d') = map ia_ip_address (owned_ips c d) @ (if c = cid then block_addrs b else [])"
proof (cases "count = 0")
  case False
  with assms obtain start where s: "is_power_of_two count"
      "find_block (service_used d (p_name pool)) count (r_end (parse_pool_range ip pool))
         (align_up (r_start (parse_pool_range ip pool)) count) = Some start"
      "reserve_block d (p_name pool) cid [start..<start + count] = Inr d'"
      "b = Some \<lparr>net_addr = start, net_prefix = 32 - trailing_zeros count\<rparr>"
    by (auto simp: allocate_service_block_for_def allocate_service_block_def split: sum.splits if_splits option.splits)
  then obtain k where k: "count = 2 ^ k" by (auto simp: is_power_of_two_iff)
  have "start + count \<le> Suc (min (r_end (parse_pool_range ip pool)) u32_max)"
    using find_block_sound [OF s(2)] k by (simp add: align_up_def)
  then have "count \<le> 2 ^ 32" by (simp add: u32_max_def)
  then have "k \<le> 32" unfolding k by (rule power_le_imp_le_exp [rotated]) simp
  then have "block_addrs b = [start..<start + count]" using s(4) k by (simp add: block_addrs_def)
  then show ?thesis using owned_reserve_block [OF s(3), of c] by simp
qed (use assms in \<open>auto simp: allocate_service_block_for_def block_addrs_def\<close>)

text \<open>What one round leaves behind: nothing, or exactly the addresses of the cluster it created.\<close>

definition round_ok :: "string set \<Rightarrow> string \<Rightarrow> (Status, ClusterRow) res option \<Rightarrow> db \<Rightarrow> bool" where
  "round_ok C cid r d \<longleftrightarrow> (\<forall>c \<in> C - {cid}. owned_ips c d = []) \<and>
     (owned_ips cid d = [] \<or>
      (\<exists>row. r = Some (Inr row) \<and> c_id row = cid \<and>
         map ia_ip_address (owned_ips cid d) = c_control_plane_endpoint row # block_addrs (c_service_block_cidr row)))"

lemma leaves_ipsD: "leaves_ips C env \<Longrightarrow> c \<in> C \<Longrightarrow> owned_ips c (env i d) = owned_ips c d"
  by (simp add: leaves_ips_def)

lemma owned_Nil_map: "owned_ips c d = [] \<longleftrightarrow> map ia_ip_address (owned_ips c d) = []"
  by simp

lemma round_released: "\<forall>c \<in> C - {cid}. owned_ips c d = [] \<Longrightarrow> round_ok C cid r (release_cluster_ips d cid)"
  by (auto simp: round_ok_def)

lemma commit_cluster_ok:
  assumes env: "leaves_ips C env" and cid: "c_id row \<in> C"
    and own: "\<And>c. c \<in> C \<Longrightarrow> map ia_ip_address (owned_ips c d) =
        (if c = c_id row then c_control_plane_endpoint row # block_addrs (c_service_block_cidr row) else [])"
    and r: "commit_cluster env row d = (r, d')"
  shows "round_ok C (c_id row) r d'"
proof -
  have o: "\<forall>c \<in> C - {c_id row}. owned_ips c d = []"
  proof
    fix c assume "c \<in> C - {c_id row}"
    then show "owned_ips c d = []" using own [of c] by simp
  qed
  note rel = round_released [OF o]
  show ?thesis
  proof (cases "insert_cluster d row")
    case (Inr d1)
    then have d': "r = Some (Inr row)" "d' = d1" using r by (simp_all add: commit_cluster_def)
    show ?thesis using o own [OF cid] unfolding round_ok_def d' owned_insert_cluster [OF Inr] by simp
  next
    case (Inl e)
    have c4: "round_ok C (c_id row) q (env 4 (release_cluster_ips d (c_id row)))" for q
      using o cid leaves_ipsD [OF env] by (simp add: round_ok_def)
    show ?thesis
      using r Inl rel c4 by (auto simp: commit_cluster_def Let_def split: DbError.splits)
  qed
qed

lemma create_cluster_attempt_ok:
  assumes env: "leaves_ips C env" and cid: "cid \<in> C" and init: "\<forall>c \<in> C. owned_ips c d = []"
    and a: "create_cluster_attempt ip net req vis pool count now cid env d = (r, d')"
  shows "round_ok C cid r d'"
proof -
  note l = leaves_ipsD [OF env]
  have 1: "owned_ips c (env 1 (env 0 d)) = []" if "c \<in> C" for c using init that by (simp add: l)
  have vip: "map ia_ip_address (owned_ips c (env 2 d2)) = (if c = cid then [ep] else [])"
    if "allocate_apiserver_vip ip vis pool cn cid (env 1 (env 0 d)) = Inr (ep, d2)" "c \<in> C" for cn ep d2 c
    using owned_vip [OF that(1)] 1 [OF that(2)] that(2) by (simp add: l)
  have block: "map ia_ip_address (owned_ips c (env 3 d4)) = (if c = cid then ep # block_addrs b else [])"
    if "allocate_apiserver_vip ip vis pool cn cid (env 1 (env 0 d)) = Inr (ep, d2)"
      "allocate_service_block_for ip pool cid count (env 2 d2) = Inr (b, d4)" "c \<in> C" for cn ep d2 b d4 c
    using owned_block [OF that(2)] vip [OF that(1,3)] that(3) by (simp add: l)
  have commit: "round_ok C cid r d'"
    if "allocate_apiserver_vip ip vis pool cn cid (env 1 (env 0 d)) = Inr (ep, d2)"
      "allocate_service_block_for ip pool cid count (env 2 d2) = Inr (b, d4)"
      "commit_cluster env (from_network \<lparr>ci_id = cid, ci_name = cr_name req, ci_control_plane_endpoint = ep,
         ci_apiserver_visibility = visibility_number vis, ci_external_pool = cr_external_ip_pool req,
         ci_service_block_cidr = b, ci_trust_domain = cr_trust_domain req, ci_created_at = now\<rparr> cn) (env 3 d4) = (r, d')"
    for cn ep d2 b d4
    using commit_cluster_ok [OF env _ _ that(3)] block [OF that(1,2)] cid by (simp add: from_network_def)
  have "round_ok C cid q (env 0 d)" for q using init cid by (simp add: round_ok_def l)
  moreover have "round_ok C cid q (release_cluster_ips (env 1 (env 0 d)) cid)" for q
    by (rule round_released) (use 1 in blast)
  moreover have "round_ok C cid q (release_cluster_ips (env 2 d2) cid)"
    if "allocate_apiserver_vip ip vis pool cn cid (env 1 (env 0 d)) = Inr (ep, d2)" for q cn ep d2
  proof (intro round_released ballI)
    fix c assume "c \<in> C - {cid}"
    then show "owned_ips c (env 2 d2) = []" using vip [OF that, of c] by simp
  qed
  ultimately show ?thesis
    using a commit unfolding create_cluster_attempt_def Let_def
    by (auto simp only: split: sum.splits prod.splits)
qed

lemma create_cluster_loop_ok:
  assumes "\<forall>(cid, env) \<in> set rounds. leaves_ips C env \<and> cid \<in> C" and "\<forall>c \<in> C. owned_ips c d = []"
    and "\<And>cid env d r d'. leaves_ips C env \<Longrightarrow> cid \<in> C \<Longrightarrow> \<forall>c \<in> C. owned_ips c d = [] \<Longrightarrow>
           attempt cid env d = (r, d') \<Longrightarrow> round_ok C cid r d'"
    and "create_cluster_loop attempt rounds d = (r, d')" and "c \<in> C" and "owned_ips c d' \<noteq> []"
  shows "\<exists>row. r = Inr row \<and> c_id row = c \<and>
    map ia_ip_address (owned_ips c d') = c_control_plane_endpoint row # block_addrs (c_service_block_cidr row)"
  using assms(1,2,4)
proof (induction rounds arbitrary: d)
  case Nil
  then show ?case using assms(5,6) by auto
next
  case (Cons x rounds)
  obtain cid env q d1 where x: "x = (cid, env)" and a: "attempt cid env d = (q, d1)" by (cases x) (metis surj_pair)
  have ok: "round_ok C cid q d1" by (rule assms(3) [OF _ _ _ a]) (use Cons.prems x in auto)
  show ?case
  proof (cases q)
    case None
    then have "\<forall>c \<in> C. owned_ips c d1 = []" using ok by (auto simp: round_ok_def)
    then show ?thesis using Cons.IH [of d1] Cons.prems x a None by auto
  next
    case (Some v)
    then have "d' = d1" "r = v" using Cons.prems(3) x a by auto
    then show ?thesis using ok Some assms(5,6) by (cases "c = cid") (auto simp: round_ok_def)
  qed
qed

lemma create_cluster_cases:
  assumes "create_cluster ip cfg now rounds p req s = (res, s')"
  obtains "s' = s"
  | i td where "s' = broadcast_cluster (sv_network cfg) i (s\<lparr>srv_db := update_cluster_trust_domain (srv_db s) i td\<rparr>)"
  | vis pool q d where
      "create_cluster_loop (create_cluster_attempt ip (sv_network cfg) req vis pool (service_count (sv_network cfg) req) now)
         (map rounds [0..<MAX_ALLOCATION_ATTEMPTS]) (srv_db s) = (q, d)" "srv_db s' = d"
      "res = (case q of Inl e \<Rightarrow> Inl e | Inr row \<Rightarrow> Inr (create_cluster_response row (sv_bgp cfg)))"
  using assms unfolding create_cluster_def Let_def
  by (auto split: sum.splits option.splits if_splits prod.splits)

text \<open>
  C17: creating a cluster leaks no address.  However other requests interfere between its
  statements, as long as they leave the addresses of the ids it mints alone: if the request
  ends holding addresses under one of these ids, it succeeded with that cluster, and they are
  exactly the apiserver address and the addresses of the Service block it returned; a request
  that fails, loses a race or finds the name taken holds none.
\<close>

theorem create_cluster_no_leak:
  assumes "create_cluster ip cfg now rounds p req s = (res, s')"
    and "C = fst ` rounds ` {..<MAX_ALLOCATION_ATTEMPTS}"
    and "\<forall>i < MAX_ALLOCATION_ATTEMPTS. leaves_ips C (snd (rounds i))"
    and "\<forall>c \<in> C. owned_ips c (srv_db s) = []" and "c \<in> C" and "owned_ips c (srv_db s') \<noteq> []"
  shows "\<exists>rp. res = Inr rp \<and> rp_cluster_id rp = c \<and>
    map ia_ip_address (owned_ips c (srv_db s')) = rp_control_plane_endpoint rp # block_addrs (rp_service_block_cidr rp)"
proof -
  have rounds: "\<forall>(cid, env) \<in> set (map rounds [0..<MAX_ALLOCATION_ATTEMPTS]). leaves_ips C env \<and> cid \<in> C"
    using assms(2,3) by (auto simp: image_iff) (metis fst_conv lessThan_iff snd_conv)+
  have s: "owned_ips c (srv_db s) = []" using assms(4,5) by blast
  have same: "owned_ips c (srv_db (broadcast_cluster net i (s\<lparr>srv_db := update_cluster_trust_domain (srv_db s) i td\<rparr>))) = []" for net i td
  proof -
    have "election_step (update_cluster_trust_domain (srv_db s) i td) (srv_db (broadcast_cluster net i
        (s\<lparr>srv_db := update_cluster_trust_domain (srv_db s) i td\<rparr>)))"
      using fold_pushes_ok [of net "s\<lparr>srv_db := update_cluster_trust_domain (srv_db s) i td\<rparr>"]
      by (simp add: broadcast_cluster_def pushes_ok_def)
    then show ?thesis using s by (auto simp: election_step_def owned_ips_def update_cluster_trust_domain_def)
  qed
  from assms(1) obtain vis pool q d where q:
      "create_cluster_loop (create_cluster_attempt ip (sv_network cfg) req vis pool (service_count (sv_network cfg) req) now)
         (map rounds [0..<MAX_ALLOCATION_ATTEMPTS]) (srv_db s) = (q, d)" "srv_db s' = d"
      "res = (case q of Inl e \<Rightarrow> Inl e | Inr row \<Rightarrow> Inr (create_cluster_response row (sv_bgp cfg)))"
    by (rule create_cluster_cases) (use assms(6) s same in auto)
  have "\<exists>row. q = Inr row \<and> c_id row = c \<and>
      map ia_ip_address (owned_ips c d) = c_control_plane_endpoint row # block_addrs (c_service_block_cidr row)"
    by (rule create_cluster_loop_ok [OF rounds assms(4) _ q(1) assms(5)])
      (use create_cluster_attempt_ok assms(6) q(2) in blast)+
  then show ?thesis using q(2,3) by (auto simp: create_cluster_response_def)
qed

text \<open>A request for a cluster with a private apiserver and one Service address, on an empty database.\<close>

definition example_create :: CreateClusterRequest where
  "example_create = \<lparr>cr_name = ''demo'', cr_external_ip_pool = ''lan'', cr_external_service_ips = 1,
     cr_apiserver_visibility = 1, cr_trust_domain = ''''\<rparr>"

definition example_rounds :: "nat \<Rightarrow> string \<times> env" where
  "example_rounds i = (show_nat i, \<lambda>_ d. d)"

lemma example_network_private:
  "private_apiserver_ip ipnet_ref (carve ipnet_ref 10000 \<lparr>net_addr = 167772160, net_prefix = 24\<rparr> 24 32) = 167772414"
  by (simp add: private_apiserver_ip_def carve_def ipnet_ref_def net_size_def)

lemma example_one: "is_power_of_two (Suc 0)" "trailing_zeros (Suc 0) = 0"
  by (simp_all add: is_power_of_two_def trailing_zeros.simps)

lemma example_service_block:
  "allocate_service_block_for ipnet_ref \<lparr>p_name = ''lan'', p_cidr = \<lparr>net_addr = 3232235520, net_prefix = 24\<rparr>, p_scope = Lan\<rparr>
     cid 1 ((empty_db (4, 2))\<lparr>ip_allocations := [\<lparr>ia_ip_address = 167772414, ia_scope = cluster_scope cid, ia_vm_id = None, ia_cluster_id = Some cid\<rparr>]\<rparr>) =
   Inr (Some \<lparr>net_addr = 3232235521, net_prefix = 32\<rparr>, (empty_db (4, 2))\<lparr>ip_allocations :=
     [\<lparr>ia_ip_address = 167772414, ia_scope = cluster_scope cid, ia_vm_id = None, ia_cluster_id = Some cid\<rparr>,
      \<lparr>ia_ip_address = 3232235521, ia_scope = ''lan'', ia_vm_id = None, ia_cluster_id = Some cid\<rparr>]\<rparr>)"
  by (simp add: allocate_service_block_for_def allocate_service_block_def example_one parse_pool_range_def ipnet_ref_def
      net_size_def align_up_def find_block.simps checked_add_u32_def u32_max_def wrap_u32_def service_used_def scope_ips_def
      host_vteps_def empty_db_def cluster_scope_def reserve_block_def insert_ip_def)

lemma example_round:
  "\<exists>row d'. create_cluster_attempt ipnet_ref example_config example_create ApiserverPrivate
     \<lparr>p_name = ''lan'', p_cidr = \<lparr>net_addr = 3232235520, net_prefix = 24\<rparr>, p_scope = Lan\<rparr> (Suc 0) '''' cid (\<lambda>_ d. d) (empty_db (4, 2)) =
     (Some (Inr row), d') \<and> owned_ips cid d' \<noteq> []"
proof -
  have "allocate_apiserver_vip ipnet_ref ApiserverPrivate
      \<lparr>p_name = ''lan'', p_cidr = \<lparr>net_addr = 3232235520, net_prefix = 24\<rparr>, p_scope = Lan\<rparr>
      (carve ipnet_ref 10000 \<lparr>net_addr = 167772160, net_prefix = 24\<rparr> 24 32) cid (empty_db (4, 2)) =
      Inr (167772414, (empty_db (4, 2))\<lparr>ip_allocations :=
        [\<lparr>ia_ip_address = 167772414, ia_scope = cluster_scope cid, ia_vm_id = None, ia_cluster_id = Some cid\<rparr>]\<rparr>)"
    by (simp add: allocate_apiserver_vip_def reserve_specific_ip_def insert_ip_def example_network_private empty_db_def)
  then show ?thesis
    using example_service_block [of cid]
    by (simp add: create_cluster_attempt_def example_network)
      (simp add: commit_cluster_def insert_cluster_def owned_ips_def empty_db_def)
qed

lemma example_created:
  "\<exists>rp s'. create_cluster ipnet_ref example_agent_config '''' example_rounds (Peer ''basis-capi-provider'') example_create
     (cx_srv example_start) = (Inr rp, s') \<and> owned_ips (show_nat 0) (srv_db s') \<noteq> []"
proof -
  obtain row d' where r: "create_cluster_attempt ipnet_ref example_config example_create ApiserverPrivate
     \<lparr>p_name = ''lan'', p_cidr = \<lparr>net_addr = 3232235520, net_prefix = 24\<rparr>, p_scope = Lan\<rparr> (Suc 0) '''' (show_nat 0) (\<lambda>_ d. d)
       (empty_db (4, 2)) = (Some (Inr row), d')" "owned_ips (show_nat 0) d' \<noteq> []"
    using example_round by blast
  have pool: "resolve_pool example_config ''lan'' =
      Inr \<lparr>p_name = ''lan'', p_cidr = \<lparr>net_addr = 3232235520, net_prefix = 24\<rparr>, p_scope = Lan\<rparr>"
    by (simp add: resolve_pool_def pool_by_name_def example_config_def)
  have loop: "create_cluster_loop (create_cluster_attempt ipnet_ref example_config example_create ApiserverPrivate
     \<lparr>p_name = ''lan'', p_cidr = \<lparr>net_addr = 3232235520, net_prefix = 24\<rparr>, p_scope = Lan\<rparr> (Suc 0) '''')
      (map example_rounds [0..<MAX_ALLOCATION_ATTEMPTS]) (empty_db (4, 2)) = (Inr row, d')"
    using r(1) by (simp add: MAX_ALLOCATION_ATTEMPTS_def example_rounds_def upt_rec)
  show ?thesis
    using loop r(2) pool
    by (simp add: create_cluster_def example_agent_config_def require_capi_caller_def and_then_def CAPI_PROVIDER_IDENTITY_def
        visibility_try_from_def as_i32_def service_count_def example_one example_start_def example_create_def
        get_cluster_by_name_def empty_db_def)
qed

text \<open>Witness of C17: the example request, which creates its cluster in the first round.\<close>

theorem create_cluster_no_leak_witness:
  "\<exists>rp s'. create_cluster ipnet_ref example_agent_config '''' example_rounds (Peer ''basis-capi-provider'') example_create
     (cx_srv example_start) = (Inr rp, s') \<and> rp_cluster_id rp = show_nat 0"
proof -
  obtain rp s' where c: "create_cluster ipnet_ref example_agent_config '''' example_rounds (Peer ''basis-capi-provider'')
      example_create (cx_srv example_start) = (Inr rp, s')" "owned_ips (show_nat 0) (srv_db s') \<noteq> []"
    using example_created by blast
  have "\<forall>i < MAX_ALLOCATION_ATTEMPTS. leaves_ips X (snd (example_rounds i))" for X
    by (simp add: example_rounds_def leaves_ips_def)
  moreover have "owned_ips x (srv_db (cx_srv example_start)) = []" for x
    by (simp add: owned_ips_def example_start_def empty_db_def)
  moreover have "show_nat 0 \<in> fst ` example_rounds ` {..<MAX_ALLOCATION_ATTEMPTS}"
    by (force simp: example_rounds_def MAX_ALLOCATION_ATTEMPTS_def)
  ultimately show ?thesis using create_cluster_no_leak [OF c(1) refl _ _ _ c(2)] c(1) by auto
qed

end
