(* ===== verification/Server_Deletion.thy ===== *)
theory Server_Deletion
  imports Server_Clusters
begin

text \<open>
  The deletion of a cluster to its end: \<open>delete_cluster_rpc\<close> records the intent, the reconcile
  commands carry the tombstones, and the acknowledgements of the agents
  (\<open>handle_agent_message\<close> with \<open>ack_tombstones\<close>) drop the rows.
\<close>

subsection \<open>Acknowledging everything a command asked for\<close>

text \<open>What an agent acknowledges once it has applied a whole command.\<close>

definition full_ack :: "string \<Rightarrow> db \<Rightarrow> AgentMessage" where
  "full_ack hid d = TombstoneAck (map (\<lambda>(_, vni, _). as_u32 vni) (list_pending_cluster_tombstones d hid))
     (list_pending_vm_tombstones d hid)"

definition acked :: "string \<Rightarrow> db \<Rightarrow> db" where
  "acked hid d = ack_tombstones d hid (map (\<lambda>(_, vni, _). as_u32 vni) (list_pending_cluster_tombstones d hid))
     (list_pending_vm_tombstones d hid)"

definition clusters_keyed :: "db \<Rightarrow> bool" where
  "clusters_keyed d \<longleftrightarrow> distinct (map c_id (clusters d)) \<and> distinct (map c_vni (clusters d)) \<and>
     (\<forall>c \<in> set (clusters d). 0 \<le> c_vni c \<and> c_vni c < 2 ^ 32)"

text \<open>
  A cluster on its way out, and one that is gone; \<open>W\<close> are the ids its machines had.
\<close>

definition members :: "ClusterRow \<Rightarrow> db \<Rightarrow> HostClusterRow set" where
  "members c d = {r \<in> set (host_clusters d). hc_cluster_id r = c_id c}"

definition leaving :: "string set \<Rightarrow> ClusterRow \<Rightarrow> db \<Rightarrow> bool" where
  "leaving W c d \<longleftrightarrow> c \<in> set (clusters d) \<and> members c d \<noteq> {} \<and> (\<forall>r \<in> members c d. hc_state r = 1) \<and>
     (\<forall>v \<in> set (vms d). vm_cluster_id v = c_id c \<longrightarrow>
        vm_state v = VM_STATE_PENDING_TEARDOWN \<and> vm_host_id v \<in> hc_host_id ` members c d) \<and>
     (\<forall>r \<in> set (ip_allocations d). \<forall>w \<in> W. ia_vm_id r = Some w \<longrightarrow>
        (\<exists>v \<in> set (vms d). vm_cluster_id v = c_id c \<and> vm_id v = w))"

definition gone :: "string set \<Rightarrow> ClusterRow \<Rightarrow> db \<Rightarrow> bool" where
  "gone W c d \<longleftrightarrow> c_id c \<notin> c_id ` set (clusters d) \<and> c_id c \<notin> hc_cluster_id ` set (host_clusters d) \<and>
     c_id c \<notin> vm_cluster_id ` set (vms d) \<and>
     (\<forall>r \<in> set (ip_allocations d). ia_cluster_id r \<noteq> Some (c_id c) \<and> (\<forall>w \<in> W. ia_vm_id r \<noteq> Some w))"

lemma clusters_keyed_ack_cluster: "clusters_keyed d \<Longrightarrow> clusters_keyed (ack_cluster hid n d)"
  by (auto simp: clusters_keyed_def ack_cluster_def drop_drained_cluster_def split: option.splits)

lemma clusters_keyed_ack_vms [simp]: "clusters_keyed (fold (ack_vm hid) ids d) = clusters_keyed d"
  by (simp add: clusters_keyed_def fold_ack_vm)

lemma ack_cluster_shrinks:
  "set (clusters (ack_cluster hid n d)) \<subseteq> set (clusters d)" "set (host_clusters (ack_cluster hid n d)) \<subseteq> set (host_clusters d)"
  "vms (ack_cluster hid n d) = vms d" "set (ip_allocations (ack_cluster hid n d)) \<subseteq> set (ip_allocations d)"
  by (auto simp: ack_cluster_def drop_drained_cluster_def split: option.splits if_splits)

lemma gone_mono:
  assumes "gone W c d" "set (clusters d') \<subseteq> set (clusters d)" "set (host_clusters d') \<subseteq> set (host_clusters d)"
    "set (vms d') \<subseteq> set (vms d)" "set (ip_allocations d') \<subseteq> set (ip_allocations d)"
  shows "gone W c d'"
  using assms unfolding gone_def by blast

lemma gone_ack_cluster: "gone W c d \<Longrightarrow> gone W c (ack_cluster hid n d)"
  using ack_cluster_shrinks by (metis gone_mono order_refl)

lemma gone_ack_vms: "gone W c d \<Longrightarrow> gone W c (fold (ack_vm hid) ids d)"
  by (rule gone_mono) (auto simp: fold_ack_vm)

lemma find_vni:
  assumes "clusters_keyed d" "c \<in> set (clusters d)"
  shows "find (\<lambda>x. c_vni x = int (as_u32 (c_vni c))) (clusters d) = Some c"
proof -
  have "int (as_u32 (c_vni c)) = c_vni c" using assms by (simp add: clusters_keyed_def as_u32_def)
  then show ?thesis using find_distinct_key [of c_vni "clusters d" c] assms by (simp add: clusters_keyed_def)
qed

lemma ack_other_cluster:
  assumes k: "clusters_keyed d" and c: "c \<in> set (clusters d)" and n: "int n \<noteq> c_vni c"
  shows "members c (ack_cluster hid n d) = members c d" and "c \<in> set (clusters (ack_cluster hid n d))"
proof -
  have "c_id x \<noteq> c_id c" if "find (\<lambda>x. c_vni x = int n) (clusters d) = Some x" for x
    using find_Some_mem [OF that] distinct_map_eq [of c_id "clusters d" x c] k c n by (auto simp: clusters_keyed_def)
  then show "members c (ack_cluster hid n d) = members c d" "c \<in> set (clusters (ack_cluster hid n d))"
    using c by (auto simp: ack_cluster_def drop_drained_cluster_def members_def split: option.splits)
qed

lemma leaving_rows:
  assumes "leaving W c d" and "c \<in> set (clusters d')" and "vms d' = vms d" and "set (ip_allocations d') \<subseteq> set (ip_allocations d)"
    and "members c d' = members c d"
  shows "leaving W c d'"
  using assms(1,2,4) unfolding leaving_def assms(3,5) by blast

text \<open>One acknowledged VNI of a host that holds no machine of the cluster any more.\<close>

lemma leaving_ack_cluster:
  assumes l: "leaving W c d" and k: "clusters_keyed d"
    and off: "\<forall>v \<in> set (vms d). vm_cluster_id v = c_id c \<longrightarrow> vm_host_id v \<noteq> hid"
  shows "(leaving W c (ack_cluster hid n d) \<and>
      members c (ack_cluster hid n d) = (if int n = c_vni c then {r \<in> members c d. hc_host_id r \<noteq> hid} else members c d)) \<or>
    gone W c (ack_cluster hid n d)"
proof (cases "int n = c_vni c")
  case False
  have c: "c \<in> set (clusters d)" using l by (simp add: leaving_def)
  show ?thesis
    using leaving_rows [OF l ack_other_cluster(2) [OF k c] ack_cluster_shrinks(3,4) ack_other_cluster(1) [OF k c]] False
      ack_other_cluster(1) [OF k c] by metis
next
  case True
  have c: "c \<in> set (clusters d)" using l by (simp add: leaving_def)
  have "n = as_u32 (c_vni c)" using True by (metis as_u32_def k c clusters_keyed_def mod_pos_pos_trivial nat_int)
  then have f: "find (\<lambda>x. c_vni x = int n) (clusters d) = Some c" using find_vni [OF k c] by simp
  let ?d1 = "d\<lparr>host_clusters := del_rows (\<lambda>r. hc_host_id r = hid \<and> hc_state r = 1 \<and> hc_cluster_id r = c_id c) (host_clusters d)\<rparr>"
  have e: "ack_cluster hid n d = drop_drained_cluster (c_id c) ?d1" using f by (simp add: ack_cluster_def)
  have m: "members c ?d1 = {r \<in> members c d. hc_host_id r \<noteq> hid}"
    using l by (auto simp: members_def leaving_def)
  have vm: "vm_host_id v \<in> hc_host_id ` members c ?d1" if "v \<in> set (vms d)" "vm_cluster_id v = c_id c" for v
    using l off that unfolding m leaving_def by blast
  show ?thesis
  proof (cases "members c ?d1 = {}")
    case True
    then have "\<forall>v \<in> set (vms d). vm_cluster_id v \<noteq> c_id c" using vm by blast
    moreover have "\<forall>r \<in> set (host_clusters ?d1). hc_cluster_id r \<noteq> c_id c" using True by (auto simp: members_def)
    moreover have "\<forall>r \<in> set (ip_allocations d). \<forall>w \<in> W. ia_vm_id r \<noteq> Some w"
      using l calculation(1) unfolding leaving_def by blast
    ultimately have "gone W c (drop_drained_cluster (c_id c) ?d1)"
      by (auto simp: drop_drained_cluster_def gone_def filter_empty_conv)
    then show ?thesis unfolding e by blast
  next
    case False
    then have e2: "ack_cluster hid n d = ?d1"
      unfolding e by (auto simp: drop_drained_cluster_def members_def filter_empty_conv)
    have "leaving W c ?d1" using l False vm m unfolding leaving_def by auto
    then show ?thesis unfolding e2 m using \<open>int n = c_vni c\<close> by simp
  qed
qed

lemma leaving_ack_clusters:
  assumes "leaving W c d" "clusters_keyed d" "\<forall>v \<in> set (vms d). vm_cluster_id v = c_id c \<longrightarrow> vm_host_id v \<noteq> hid"
  shows "gone W c (fold (ack_cluster hid) ns d) \<or>
    (leaving W c (fold (ack_cluster hid) ns d) \<and> members c (fold (ack_cluster hid) ns d) \<subseteq> members c d \<and>
     (c_vni c \<in> int ` set ns \<longrightarrow> (\<forall>r \<in> members c (fold (ack_cluster hid) ns d). hc_host_id r \<noteq> hid)))"
  using assms
proof (induction ns arbitrary: d)
  case (Cons n ns)
  have fg: "gone W c x \<Longrightarrow> gone W c (fold (ack_cluster hid) ns x)" for x
    by (induction ns arbitrary: x) (simp_all add: gone_ack_cluster)
  from leaving_ack_cluster [OF Cons.prems(1,2,3), of n]
  show ?case
  proof
    assume l: "leaving W c (ack_cluster hid n d) \<and>
      members c (ack_cluster hid n d) = (if int n = c_vni c then {r \<in> members c d. hc_host_id r \<noteq> hid} else members c d)"
    have "\<forall>v \<in> set (vms (ack_cluster hid n d)). vm_cluster_id v = c_id c \<longrightarrow> vm_host_id v \<noteq> hid"
      using Cons.prems(3) by (simp add: ack_cluster_shrinks(3))
    from Cons.IH [OF conjunct1 [OF l] clusters_keyed_ack_cluster [OF Cons.prems(2)] this]
    show ?thesis using conjunct2 [OF l] by (auto split: if_splits)
  qed (simp add: fg)
qed simp

lemma leaving_ack_vms:
  assumes l: "leaving W c d" and d'_def: "d' = fold (ack_vm hid) (list_pending_vm_tombstones d hid) d"
  shows "leaving W c d'" and "\<forall>v \<in> set (vms d'). vm_cluster_id v = c_id c \<longrightarrow> vm_host_id v \<noteq> hid"
    and "members c d' = members c d"
proof -
  have vs: "set (vms d') = {v \<in> set (vms d). \<not> (vm_id v \<in> set (list_pending_vm_tombstones d hid) \<and> vm_host_id v = hid \<and>
      vm_state v = VM_STATE_PENDING_TEARDOWN)}"
    by (simp add: d'_def fold_ack_vm)
  have ips: "set (ip_allocations d') = {r \<in> set (ip_allocations d). \<forall>i \<in> set (list_pending_vm_tombstones d hid). ia_vm_id r \<noteq> Some i}"
    by (simp add: d'_def fold_ack_vm)
  show m: "members c d' = members c d" by (simp add: d'_def fold_ack_vm members_def)
  have cl: "clusters d' = clusters d" by (simp add: d'_def fold_ack_vm)
  have own: "\<exists>v \<in> set (vms d'). vm_cluster_id v = c_id c \<and> vm_id v = w"
    if "r \<in> set (ip_allocations d')" "w \<in> W" "ia_vm_id r = Some w" for r w
  proof -
    from that l obtain v where "v \<in> set (vms d)" "vm_cluster_id v = c_id c" "vm_id v = w"
      unfolding ips leaving_def by blast
    moreover have "w \<notin> set (list_pending_vm_tombstones d hid)" using that unfolding ips by blast
    ultimately show ?thesis unfolding vs by blast
  qed
  then show "leaving W c d'" using l unfolding leaving_def m cl vs by blast
  show "\<forall>v \<in> set (vms d'). vm_cluster_id v = c_id c \<longrightarrow> vm_host_id v \<noteq> hid"
    using l unfolding vs leaving_def list_pending_vm_tombstones_set by blast
qed

lemma leaving_acked:
  assumes l: "leaving W c d" and k: "clusters_keyed d"
  shows "gone W c (acked hid d) \<or> (leaving W c (acked hid d) \<and> members c (acked hid d) \<subseteq> members c d \<and>
    (\<forall>r \<in> members c (acked hid d). hc_host_id r \<noteq> hid))"
proof -
  let ?ns = "map (\<lambda>(_, vni, _). as_u32 vni) (list_pending_cluster_tombstones d hid)"
  note v = leaving_ack_vms [OF l refl, of hid]
  have c: "c \<in> set (clusters d)" and s: "\<forall>r \<in> members c d. hc_state r = 1" using l by (simp_all add: leaving_def)
  have "c_vni c \<in> int ` set ?ns" if "r \<in> members c d" "hc_host_id r = hid" for r
  proof -
    have "membership d hid 1 c" using that s by (auto simp: membership_def members_def)
    then have "as_u32 (c_vni c) \<in> set ?ns" unfolding set_map pending_memberships image_image using c by auto
    moreover have "int (as_u32 (c_vni c)) = c_vni c" using k c by (simp add: clusters_keyed_def as_u32_def)
    ultimately show ?thesis by (metis image_eqI)
  qed
  with leaving_ack_clusters [OF v(1) _ v(2), of ?ns] k v(3) show ?thesis
    unfolding acked_def ack_tombstones_def by auto
qed

lemma gone_acked: "gone W c d \<Longrightarrow> gone W c (acked hid d)"
proof -
  have "gone W c x \<Longrightarrow> gone W c (fold (ack_cluster hid) ns x)" for x ns
    by (induction ns arbitrary: x) (simp_all add: gone_ack_cluster)
  then show "gone W c d \<Longrightarrow> gone W c (acked hid d)"
    by (simp add: acked_def ack_tombstones_def gone_ack_vms)
qed

lemma clusters_keyed_acked: "clusters_keyed d \<Longrightarrow> clusters_keyed (acked hid d)"
proof -
  have "clusters_keyed x \<Longrightarrow> clusters_keyed (fold (ack_cluster hid) ns x)" for x ns
    by (induction ns arbitrary: x) (simp_all add: clusters_keyed_ack_cluster)
  then show "clusters_keyed d \<Longrightarrow> clusters_keyed (acked hid d)" by (simp add: acked_def ack_tombstones_def)
qed

lemma leaving_all_acked:
  assumes "leaving W c d" "clusters_keyed d"
  shows "gone W c (fold acked hs d) \<or> (leaving W c (fold acked hs d) \<and>
    (\<forall>r \<in> members c (fold acked hs d). r \<in> members c d \<and> hc_host_id r \<notin> set hs))"
  using assms
proof (induction hs arbitrary: d)
  case (Cons h hs)
  have fg: "gone W c x \<Longrightarrow> gone W c (fold acked hs x)" for x
    by (induction hs arbitrary: x) (simp_all add: gone_acked)
  from leaving_acked [OF Cons.prems, of h] show ?case
  proof
    assume l: "leaving W c (acked h d) \<and> members c (acked h d) \<subseteq> members c d \<and> (\<forall>r \<in> members c (acked h d). hc_host_id r \<noteq> h)"
    show ?thesis
      using Cons.IH [OF conjunct1 [OF l] clusters_keyed_acked [OF Cons.prems(2)]] l by auto
  qed (simp add: fg)
qed simp

subsection \<open>From the request to the last acknowledgement\<close>

text \<open>The hosts \<open>hs\<close> acknowledge their commands one after the other.\<close>

definition acks_arrive :: "string list \<Rightarrow> srv \<Rightarrow> srv" where
  "acks_arrive hs s = fold (\<lambda>h s. case handle_agent_message id '''' h (Some (full_ack h (srv_db s))) s of
      Some (_, s') \<Rightarrow> s' | None \<Rightarrow> s) hs s"

lemma acks_arrive_db: "srv_db (acks_arrive hs s) = fold acked hs (srv_db s)"
  by (induction hs arbitrary: s) (simp_all add: acks_arrive_def handle_agent_message_def full_ack_def acked_def)

lemma upd_rows_none: "\<forall>r \<in> set rs. \<not> P r \<Longrightarrow> upd_rows P f rs = rs"
  by (induction rs) (simp_all add: upd_rows_def)

lemma record_teardown_eq:
  "record_teardown i now d = d\<lparr>vms := upd_rows (\<lambda>v. vm_id v = i)
     (\<lambda>v. v\<lparr>vm_state := VM_STATE_PENDING_TEARDOWN, vm_updated_at := now\<rparr>) (vms d)\<rparr>"
  by (auto simp: record_teardown_def mark_vm_pending_teardown_def upd_rows_none list_ex_iff)

lemma fold_record_teardown:
  fixes now
  defines "f \<equiv> \<lambda>v. v\<lparr>vm_state := VM_STATE_PENDING_TEARDOWN, vm_updated_at := now\<rparr>"
  shows "fold (\<lambda>v. record_teardown (vm_id v) now) vs d = d\<lparr>vms := upd_rows (\<lambda>v. vm_id v \<in> vm_id ` set vs) f (vms d)\<rparr>"
proof (induction vs arbitrary: d)
  case Nil
  then show ?case by (simp add: upd_rows_none)
next
  case (Cons w vs)
  have "upd_rows (\<lambda>v. vm_id v \<in> vm_id ` set vs) f (upd_rows (\<lambda>v. vm_id v = vm_id w) f rs) =
      upd_rows (\<lambda>v. vm_id v \<in> vm_id ` set (w # vs)) f rs" for rs
    by (induction rs) (auto simp: upd_rows_def f_def)
  then show ?case using Cons.IH by (simp add: record_teardown_eq f_def)
qed

lemma delete_cluster_leaving:
  assumes "c \<in> set (clusters d)" and "members c d \<noteq> {}"
    and "\<forall>v \<in> set (vms d). vm_cluster_id v = c_id c \<longrightarrow> vm_host_id v \<in> hc_host_id ` members c d"
    and d': "d' = snd (mark_cluster_pending_teardown_all_hosts
       (fold (\<lambda>v. record_teardown (vm_id v) now) (list_vms d (Some (c_id c))) d) (c_id c))"
  shows "leaving (vm_id ` {v \<in> set (vms d). vm_cluster_id v = c_id c}) c d'"
    and "hc_host_id ` members c d' = hc_host_id ` members c d" and "clusters d' = clusters d"
proof -
  let ?f = "\<lambda>v. v\<lparr>vm_state := VM_STATE_PENDING_TEARDOWN, vm_updated_at := now\<rparr>"
  let ?ids = "vm_id ` {v \<in> set (vms d). vm_cluster_id v = c_id c}"
  have e: "d' = d\<lparr>vms := upd_rows (\<lambda>v. vm_id v \<in> ?ids) ?f (vms d),
      host_clusters := upd_rows (\<lambda>r. hc_cluster_id r = c_id c) (\<lambda>r. r\<lparr>hc_state := 1\<rparr>) (host_clusters d)\<rparr>"
    unfolding d' fold_record_teardown by (simp add: mark_cluster_pending_teardown_all_hosts_def list_vms_def)
  show cl: "clusters d' = clusters d" by (simp add: e)
  have vs: "vms d' = upd_rows (\<lambda>v. vm_id v \<in> ?ids) ?f (vms d)" by (simp add: e)
  have m: "members c d' = (\<lambda>r. r\<lparr>hc_state := 1\<rparr>) ` members c d"
    unfolding e members_def by (auto simp: in_upd_rows image_iff split: if_splits)
  then show h: "hc_host_id ` members c d' = hc_host_id ` members c d" by (simp add: image_image)
  have "vm_state v = VM_STATE_PENDING_TEARDOWN \<and> vm_host_id v \<in> hc_host_id ` members c d"
    if "v \<in> set (vms d')" "vm_cluster_id v = c_id c" for v
  proof -
    from that obtain w where w: "w \<in> set (vms d)" "v = (if vm_id w \<in> ?ids then ?f w else w)"
      unfolding vs in_upd_rows by blast
    then show ?thesis using that(2) assms(3) by (cases "vm_id w \<in> ?ids") auto
  qed
  moreover have "\<exists>v \<in> set (vms d'). vm_cluster_id v = c_id c \<and> vm_id v = w" if "w \<in> ?ids" for w
  proof -
    from that obtain v where v: "v \<in> set (vms d)" "vm_cluster_id v = c_id c" "vm_id v = w" by blast
    then have "?f v \<in> set (vms d')" unfolding vs in_upd_rows by (intro bexI [of _ v]) auto
    then show ?thesis using v by (intro bexI [of _ "?f v"]) simp_all
  qed
  ultimately show "leaving ?ids c d'"
    unfolding leaving_def h cl using assms(1,2) m by auto
qed

lemma clusters_keyedI:
  "db_schema d \<Longrightarrow> \<forall>c \<in> set (clusters d). 0 \<le> c_vni c \<and> c_vni c < 2 ^ 32 \<Longrightarrow> clusters_keyed d"
  by (simp add: clusters_keyed_def schema_keysD)

lemma election_keeps_leaving: "election_step d d' \<Longrightarrow> leaving W c d' = leaving W c d"
  "election_step d d' \<Longrightarrow> members c d' = members c d" "election_step d d' \<Longrightarrow> clusters_keyed d' = clusters_keyed d"
  by (auto simp: election_step_def leaving_def members_def clusters_keyed_def)

text \<open>
  C12: a deleted cluster goes away.  If the cluster is carried by at least one host and each of its
  machines runs on a host that carries it, then after \<open>DeleteCluster\<close> the acknowledgements of
  the carrying hosts, in any order and mixed with those of other hosts, remove its machines, its
  memberships, the cluster row, and every address it or its machines held.
\<close>

theorem delete_cluster_completes:
  assumes "db_schema (srv_db s)" and "\<forall>c \<in> set (clusters (srv_db s)). 0 \<le> c_vni c \<and> c_vni c < 2 ^ 32"
    and "c \<in> set (clusters (srv_db s))" and "members c (srv_db s) \<noteq> {}"
    and "\<forall>v \<in> set (vms (srv_db s)). vm_cluster_id v = c_id c \<longrightarrow> vm_host_id v \<in> hc_host_id ` members c (srv_db s)"
    and "delete_cluster_rpc net now p (c_id c) s = (Inr (), s')"
    and "hc_host_id ` members c (srv_db s) \<subseteq> set hs"
  shows "gone (vm_id ` {v \<in> set (vms (srv_db s)). vm_cluster_id v = c_id c}) c (srv_db (acks_arrive hs s'))"
proof -
  let ?W = "vm_id ` {v \<in> set (vms (srv_db s)). vm_cluster_id v = c_id c}"
  have "get_cluster (srv_db s) (c_id c) = Inr c"
    using find_distinct_key [OF schema_keysD(3) [OF assms(1)] assms(3)] by (simp add: get_cluster_def)
  then obtain affected d2 where d2: "d2 = snd (mark_cluster_pending_teardown_all_hosts
        (fold (\<lambda>v. record_teardown (vm_id v) now) (list_vms (srv_db s) (Some (c_id c))) (srv_db s)) (c_id c))"
      and s': "s' = fold (push_reconcile net) affected (s\<lparr>srv_db := d2\<rparr>)"
    using assms(6) by (auto simp: delete_cluster_rpc_def Let_def split: sum.splits prod.splits)
  note l = delete_cluster_leaving [OF assms(3-5) d2]
  have e: "election_step d2 (srv_db s')"
    using fold_pushes_ok [of net "s\<lparr>srv_db := d2\<rparr>" affected] unfolding s' by (simp add: pushes_ok_def)
  have "clusters_keyed d2" using clusters_keyedI [OF assms(1,2)] l(3) by (simp add: clusters_keyed_def)
  then have "gone ?W c (fold acked hs (srv_db s')) \<or> (leaving ?W c (fold acked hs (srv_db s')) \<and>
      (\<forall>r \<in> members c (fold acked hs (srv_db s')). r \<in> members c (srv_db s') \<and> hc_host_id r \<notin> set hs))"
    using leaving_all_acked [of ?W c "srv_db s'" hs] l(1) by (simp add: election_keeps_leaving [OF e])
  moreover have "hc_host_id ` members c (srv_db s') \<subseteq> set hs"
    using l(2) assms(7) by (simp add: election_keeps_leaving [OF e])
  ultimately show ?thesis unfolding acks_arrive_db leaving_def by blast
qed

text \<open>Witness of C12: the cluster of the example, which two hosts carry.\<close>

theorem delete_cluster_completes_witness:
  "\<exists>s'. delete_cluster_rpc example_config '''' (Peer ''basis-capi-provider'') ''c1'' example_srv = (Inr (), s') \<and>
     ''c1'' \<notin> c_id ` set (clusters (srv_db (acks_arrive [''h2'', ''h1''] s')))"
proof -
  have d: "srv_db example_srv = example_srv_db" by (simp add: example_srv_def)
  have "get_cluster example_srv_db ''c1'' = Inr example_cluster"
    by (simp add: get_cluster_def example_srv_db_def example_cluster_id)
  then obtain s' where s': "delete_cluster_rpc example_config '''' (Peer ''basis-capi-provider'') (c_id example_cluster) example_srv = (Inr (), s')"
    by (auto simp: delete_cluster_rpc_def require_capi_caller_def and_then_def CAPI_PROVIDER_IDENTITY_def d Let_def
        example_cluster_id case_prod_beta)
  have "members example_cluster example_srv_db = set (host_clusters example_srv_db)"
    by (auto simp: members_def example_srv_db_def example_cluster_id)
  then have m: "hc_host_id ` members example_cluster example_srv_db = {''h1'', ''h2''}"
    by (simp add: example_srv_db_def)
  have "\<forall>c \<in> set (clusters example_srv_db). 0 \<le> c_vni c \<and> c_vni c < 2 ^ 32"
    by (simp add: example_srv_db_def example_cluster_def)
  moreover have "example_cluster \<in> set (clusters example_srv_db)" by (simp add: example_srv_db_def)
  moreover have "\<forall>v \<in> set (vms example_srv_db). vm_host_id v \<in> {''h1'', ''h2''}"
    by (simp add: example_srv_db_def example_vm_def)
  moreover have "members example_cluster example_srv_db \<noteq> {}" using m by auto
  ultimately have "gone (vm_id ` {v \<in> set (vms (srv_db example_srv)). vm_cluster_id v = c_id example_cluster}) example_cluster
      (srv_db (acks_arrive [''h2'', ''h1''] s'))"
    using delete_cluster_completes [of example_srv example_cluster, OF _ _ _ _ _ s'] example_srv_db_schema m by (simp add: d)
  then show ?thesis using s' by (auto simp: gone_def example_cluster_id)
qed

text \<open>
  A cluster that no host carries, for instance one that never had a machine, is not removed by
  \<open>DeleteCluster\<close>: no command mentions it, so no acknowledgement ever drops its row or its
  addresses.
\<close>

lemma uncarried_acked:
  assumes "c \<in> set (clusters d)" "members c d = {}" "clusters_keyed d"
  shows "c \<in> set (clusters (acked hid d)) \<and> members c (acked hid d) = {}"
proof -
  let ?d1 = "fold (ack_vm hid) (list_pending_vm_tombstones d hid) d"
  have ns: "int n \<noteq> c_vni c" if "n \<in> set (map (\<lambda>(_, vni, _). as_u32 vni) (list_pending_cluster_tombstones d hid))" for n
  proof -
    from that obtain c' where c': "c' \<in> set (clusters d)" "membership d hid 1 c'" "n = as_u32 (c_vni c')"
      unfolding set_map pending_memberships image_image by auto
    have "c' \<noteq> c" using c'(2) assms(2) by (auto simp: membership_def members_def)
    then have "c_vni c' \<noteq> c_vni c" using distinct_map_eq [of c_vni "clusters d" c' c] assms(1,3) c'(1) by (auto simp: clusters_keyed_def)
    moreover have "int (as_u32 (c_vni c')) = c_vni c'" using assms(3) c'(1) by (simp add: clusters_keyed_def as_u32_def)
    ultimately show ?thesis using c'(3) by simp
  qed
  have cl: "\<forall>n \<in> set ns. int n \<noteq> c_vni c \<Longrightarrow> c \<in> set (clusters x) \<Longrightarrow> members c x = {} \<Longrightarrow> clusters_keyed x \<Longrightarrow>
      c \<in> set (clusters (fold (ack_cluster hid) ns x)) \<and> members c (fold (ack_cluster hid) ns x) = {}" for ns x
  proof (induction ns arbitrary: x)
    case (Cons n ns)
    then show ?case
      using ack_other_cluster [OF Cons.prems(4,2), of n hid] clusters_keyed_ack_cluster [OF Cons.prems(4), of hid n] by simp
  qed simp
  have "c \<in> set (clusters ?d1)" "members c ?d1 = {}" "clusters_keyed ?d1"
    using assms by (simp_all add: fold_ack_vm members_def clusters_keyed_def)
  then show ?thesis unfolding acked_def ack_tombstones_def using cl ns by blast
qed

theorem delete_cluster_without_hosts_stays:
  assumes "db_schema (srv_db s)" and "\<forall>c \<in> set (clusters (srv_db s)). 0 \<le> c_vni c \<and> c_vni c < 2 ^ 32"
    and "c \<in> set (clusters (srv_db s))" and "members c (srv_db s) = {}"
    and "delete_cluster_rpc net now p (c_id c) s = (Inr (), s')"
  shows "c \<in> set (clusters (srv_db (acks_arrive hs s')))"
proof -
  have "get_cluster (srv_db s) (c_id c) = Inr c"
    using find_distinct_key [OF schema_keysD(3) [OF assms(1)] assms(3)] by (simp add: get_cluster_def)
  then obtain affected d2 where d2: "d2 = snd (mark_cluster_pending_teardown_all_hosts
        (fold (\<lambda>v. record_teardown (vm_id v) now) (list_vms (srv_db s) (Some (c_id c))) (srv_db s)) (c_id c))"
      and s': "s' = fold (push_reconcile net) affected (s\<lparr>srv_db := d2\<rparr>)"
    using assms(5) by (auto simp: delete_cluster_rpc_def Let_def split: sum.splits prod.splits)
  have d2': "clusters d2 = clusters (srv_db s)" "members c d2 = {}"
    using assms(4) unfolding d2 fold_record_teardown mark_cluster_pending_teardown_all_hosts_def
    by (auto simp: members_def in_upd_rows split: if_splits)
  have e: "election_step d2 (srv_db s')"
    using fold_pushes_ok [of net "s\<lparr>srv_db := d2\<rparr>" affected] unfolding s' by (simp add: pushes_ok_def)
  have "c \<in> set (clusters x) \<Longrightarrow> members c x = {} \<Longrightarrow> clusters_keyed x \<Longrightarrow> c \<in> set (clusters (fold acked hs x))" for x
  proof (induction hs arbitrary: x)
    case (Cons h hs)
    then show ?case using uncarried_acked [OF Cons.prems, of h] clusters_keyed_acked [OF Cons.prems(3), of h] by simp
  qed simp
  moreover have "clusters_keyed (srv_db s')"
    using clusters_keyedI [OF assms(1,2)] d2'(1) election_step_clusters [OF e] by (simp add: clusters_keyed_def)
  ultimately show ?thesis
    unfolding acks_arrive_db using assms(3) d2' election_step_clusters [OF e] by (simp add: election_keeps_leaving [OF e])
qed

end
