(* ===== verification/Server_Machines.thy ===== *)
theory Server_Machines
  imports Server_Deletion
begin

text \<open>
  The machine and pool requests of the controller's API (\<open>BasisApiService\<close> of
  \<open>basis-controller/src/server.rs\<close>): scheduling and reserving a machine, dispatching its
  creation through the outbox, waiting for the agent, deleting and reading machines, the pool
  listing and the drain switch.  \<open>iter\<close> is the iteration order of the scheduler's hash map,
  \<open>env\<close> what other tasks commit between two statements.
\<close>

subsection \<open>Scheduling on a database snapshot\<close>

definition drained_devices :: "db \<Rightarrow> string \<Rightarrow> device_key set" where
  "drained_devices d hid = {k. \<exists>r. host_drain_markers d hid k = Some r \<and> ds_state r = ''disabled''}"

definition replicated_clusters_per_device :: "db \<Rightarrow> string \<Rightarrow> device_key \<rightharpoonup> string set" where
  "replicated_clusters_per_device d hid =
     fold (\<lambda>(p, dev, cid) m. m((p, dev) \<mapsto> insert cid (case m (p, dev) of Some cs \<Rightarrow> cs | None \<Rightarrow> {})))
       (list_host_replicated_assignments d hid) Map.empty"

definition devices_by_pool :: "db \<Rightarrow> string \<Rightarrow> string \<rightharpoonup> HostPoolDeviceRow list" where
  "devices_by_pool d hid =
     fold (\<lambda>p m. m(hp_pool p \<mapsto> list_pool_devices d hid (hp_pool p))) (list_host_pools d hid) Map.empty"

definition host_storage_view :: "db \<Rightarrow> string \<Rightarrow> HostStorageView" where
  "host_storage_view d hid = from_rows (list_host_pools d hid) (devices_by_pool d hid) (drained_devices d hid)
     (replicated_clusters_per_device d hid)"

definition cluster_replicated_count :: "db \<Rightarrow> string \<Rightarrow> string \<Rightarrow> int" where
  "cluster_replicated_count d cid hid =
     int (length (filter (\<lambda>(_, _, c). c = cid) (list_host_replicated_assignments d hid)))"

definition pick_host ::
  "(nat list \<Rightarrow> nat list) \<Rightarrow> CreateMachineRequest \<Rightarrow> db \<Rightarrow> (Status, ScheduleDecision) res" where
  "pick_host iter req d =
     (let hosts = list_healthy_hosts d;
          storage_by_host = (\<lambda>i. if i \<in> h_id ` set hosts then Some (host_storage_view d i) else None);
          replicated_count_by_host = (\<lambda>i. if i \<in> h_id ` set hosts
            then Some (cluster_replicated_count d (cm_cluster_id req) i) else None) in
      case schedule iter hosts (host_usage_snapshot d) storage_by_host replicated_count_by_host
             (schedule_request_from req) (cpu_overcommit_ratio d) of
        Inr dec \<Rightarrow> Inr dec
      | Inl (NoCapacity _ _ _ _ _ _) \<Rightarrow> Inl S_resource_exhausted
      | Inl (UnsatisfiedRequirements _) \<Rightarrow> Inl S_failed_precondition)"

subsection \<open>Reserving a machine\<close>

datatype PlaceError =
    Raced string | HostGone string | PlaceNoCapacity Status | NameConflict | PlaceInternal Status

record PlacedVm =
  pm_vm :: VmRow
  pm_gpu_assignments :: "GpuAssignment list"
  pm_disk_placements :: "DiskPlacement list"

definition stored_disk_of :: "string \<Rightarrow> DiskPlacement \<Rightarrow> StoredDisk" where
  "stored_disk_of vid p = \<lparr>sd_disk_index = dp_disk_index p, sd_min_size_gib = dp_min_size_gib p,
     sd_purpose = DiskPurpose_as_db_str (dp_purpose p), sd_pool = Some (dp_pool p), sd_device_id = Some (dp_device_id p),
     sd_assignment_id = Some (vid @ ''-'' @ show_nat (dp_disk_index p)), sd_actual_size_gib = None, sd_device_path = None\<rparr>"

definition placed_row :: "CreateMachineRequest \<Rightarrow> string \<Rightarrow> string \<Rightarrow> ipv4 \<Rightarrow> ScheduleDecision \<Rightarrow> VmRow" where
  "placed_row req vid now a dec = \<lparr>vm_id = vid, vm_name = cm_name req, vm_cluster_id = cm_cluster_id req,
     vm_host_id = de_host_id dec, vm_ip_address = a, vm_state = STATE_CREATING, vm_cpu = int (cm_cpu req),
     vm_memory_mib = int (cm_memory_mib req), vm_disk_gib = int (cm_disk_gib req),
     vm_storage_disks = map (stored_disk_of vid) (de_disks dec), vm_image = cm_image req, vm_error_message = '''',
     vm_created_at = now, vm_updated_at = now\<rparr>"

definition place_error :: "DbError \<Rightarrow> PlaceError" where
  "place_error e = (case e of
     CapacityRaced h \<Rightarrow> Raced h | HostUnavailable h \<Rightarrow> HostGone h | Conflict _ \<Rightarrow> NameConflict
   | _ \<Rightarrow> PlaceInternal (db_status e))"

definition try_place_vm ::
  "(nat list \<Rightarrow> nat list) \<Rightarrow> CreateMachineRequest \<Rightarrow> string \<Rightarrow> ClusterRow \<Rightarrow> string \<Rightarrow> env \<Rightarrow> db \<Rightarrow> (PlaceError, PlacedVm) res \<times> db" where
  "try_place_vm iter req vid c now env d =
     (case pick_host iter req d of
        Inl st \<Rightarrow> (Inl (if st = S_resource_exhausted then PlaceNoCapacity st else PlaceInternal st), d)
      | Inr dec \<Rightarrow>
     (let d1 = env 0 d in
      case allocate_cluster_vm_ip d1 c vid of
        Inl e \<Rightarrow> (Inl (PlaceInternal (db_status e)), d1)
      | Inr (a, d2) \<Rightarrow>
     (let d3 = env 1 d2; vm = placed_row req vid now a dec;
          gpus = map (from_scheduler_pick vid (de_host_id dec)) (de_gpus dec) in
      case insert_vm d3 vm gpus (de_disks dec) of
        Inr d4 \<Rightarrow> (Inr \<lparr>pm_vm = vm, pm_gpu_assignments = gpus, pm_disk_placements = de_disks dec\<rparr>, d4)
      | Inl e \<Rightarrow> (Inl (place_error e), release_vm_ips d3 vid))))"

definition MAX_SCHEDULE_ATTEMPTS :: nat where "MAX_SCHEDULE_ATTEMPTS = 5"

text \<open>
  The retry loop over the interferences of its attempts.  \<open>Inl r\<close> ends the request with \<open>r\<close>,
  where \<open>NameConflict\<close> is left to the caller.
\<close>

fun place_loop ::
  "(env \<Rightarrow> db \<Rightarrow> (PlaceError, PlacedVm) res \<times> db) \<Rightarrow> env list \<Rightarrow> db \<Rightarrow> (PlaceError, PlacedVm) res \<times> db" where
  "place_loop attempt [] d = (Inl (PlaceInternal S_unavailable), d)"
| "place_loop attempt (env # envs) d =
     (case attempt env d of
        (Inr p, d') \<Rightarrow> (Inr p, d')
      | (Inl (Raced h), d') \<Rightarrow> place_loop attempt envs d'
      | (Inl (HostGone h), d') \<Rightarrow> place_loop attempt envs d'
      | (Inl e, d') \<Rightarrow> (Inl e, d'))"

subsection \<open>Creating a machine\<close>

record CreateMachineResponse =
  mr_id :: string
  mr_provider_id :: string
  mr_ip_address :: ipv4
  mr_host :: string

definition vm_to_create_response :: "VmRow \<Rightarrow> CreateMachineResponse" where
  "vm_to_create_response v = \<lparr>mr_id = vm_id v, mr_provider_id = provider_id (vm_id v),
     mr_ip_address = vm_ip_address v, mr_host = vm_host_id v\<rparr>"

text \<open>Every disk must name a known, specified purpose.\<close>

definition purposes_valid :: "CreateMachineRequest \<Rightarrow> bool" where
  "purposes_valid req \<longleftrightarrow> list_all (\<lambda>d. case DiskPurpose_try_from (dk_purpose d) of
     None \<Rightarrow> False | Some p \<Rightarrow> p \<noteq> Unspecified) (cm_storage_disks req)"

definition create_vm_command ::
  "string list \<Rightarrow> CreateMachineRequest \<Rightarrow> ClusterRow \<Rightarrow> PlacedVm \<Rightarrow> ipv4 \<Rightarrow> CreateVmCommand" where
  "create_vm_command dns req c p gateway = \<lparr>
     cc_vm_id = vm_id (pm_vm p), cc_name = cm_name req, cc_cpu = cm_cpu req, cc_memory_mib = cm_memory_mib req,
     cc_disk_gib = cm_disk_gib req, cc_image = cm_image req, cc_ip_address = vm_ip_address (pm_vm p), cc_gateway = gateway,
     cc_prefix_len = as_u32 (c_prefix_len c), cc_gpus = cm_gpus req, cc_min_group_size = cm_gpu_constraints req,
     cc_dns_servers = dns, cc_gpu_pci_addresses = map ga_pci_address (pm_gpu_assignments p),
     cc_storage_disks = map (\<lambda>q. \<lparr>cd_assignment_id = vm_id (pm_vm p) @ ''-'' @ show_nat (dp_disk_index q),
        cd_min_size_gib = dp_min_size_gib q, cd_pool = dp_pool q, cd_device_id = dp_device_id q,
        cd_disk_index = dp_disk_index q, cd_cluster_id = cm_cluster_id req, cd_purpose = dp_purpose q\<rparr>)
        (pm_disk_placements p),
     cc_cluster_id = cm_cluster_id req, cc_vni = as_u32 (c_vni c)\<rparr>"

text \<open>A request either answers or waits for the agent to report on the machine.\<close>

datatype progress = Done "(Status, CreateMachineResponse) res" | Waiting VmRow

text \<open>
  After the reservation: the membership, the broadcast, the outbox and the dispatch.
  \<open>encode\<close> is the protobuf encoder, \<open>delivered\<close> tells whether the agent's channel took the command.
\<close>

definition dispatch_vm ::
  "(ControllerCommand \<Rightarrow> nat list) \<Rightarrow> bool \<Rightarrow> server_config \<Rightarrow> string \<Rightarrow> CreateMachineRequest \<Rightarrow> ClusterRow \<Rightarrow> PlacedVm \<Rightarrow> srv \<Rightarrow>
   progress \<times> srv" where
  "dispatch_vm encode delivered cfg now req c p s =
     (let net = sv_network cfg; vid = vm_id (pm_vm p); hid = vm_host_id (pm_vm p) in
      case ensure_host_cluster_active (srv_db s) c hid of
        Inl e \<Rightarrow> (Done (Inl (db_status e)), cleanup_failed_vm net now vid (c_id c) hid s)
      | Inr (gateway, d) \<Rightarrow>
     (let s1 = broadcast_cluster net (c_id c) (s\<lparr>srv_db := d\<rparr>) in
      if srv_agents s1 hid = None
      then (Done (Inl S_unavailable), cleanup_failed_vm net now vid (c_id c) hid s1)
      else
     (let s2 = register_pending_op vid hid s1;
          cmd = CreateVm (create_vm_command (sv_dns_servers cfg) req c p gateway);
          (oid, d2) = enqueue_pending_command (srv_db s2) hid vid (encode cmd);
          s3 = s2\<lparr>srv_db := d2\<rparr> in
      if \<not> delivered
      then (Done (Inl S_unavailable),
            cleanup_failed_vm net now vid (c_id c) hid (s3\<lparr>srv_pending_ops := (srv_pending_ops s3)(vid := None)\<rparr>))
      else (let s4 = send_command hid cmd s3 in
            (Waiting (pm_vm p), s4\<lparr>srv_db := mark_command_sent (srv_db s4) oid\<rparr>)))))"

definition create_machine ::
  "(nat list \<Rightarrow> nat list) \<Rightarrow> (ControllerCommand \<Rightarrow> nat list) \<Rightarrow> bool \<Rightarrow> server_config \<Rightarrow> string \<Rightarrow> string \<Rightarrow>
   (nat \<Rightarrow> env) \<Rightarrow> peer \<Rightarrow> CreateMachineRequest \<Rightarrow> srv \<Rightarrow> progress \<times> srv" where
  "create_machine iter encode delivered cfg now vid envs p req s =
     (case require_capi_caller p of
        Inl e \<Rightarrow> (Done (Inl e), s)
      | Inr _ \<Rightarrow>
     if \<not> purposes_valid req then (Done (Inl S_invalid_argument), s)
     else case get_cluster (srv_db s) (cm_cluster_id req) of
        Inl e \<Rightarrow> (Done (Inl (db_status e)), s)
      | Inr c \<Rightarrow>
     (case get_vm_by_name (srv_db s) (cm_cluster_id req) (cm_name req) of
        Some v \<Rightarrow> (Done (Inr (vm_to_create_response v)), s)
      | None \<Rightarrow>
     (case place_loop (try_place_vm iter req vid c now) (map envs [0..<MAX_SCHEDULE_ATTEMPTS]) (srv_db s) of
        (Inr p, d) \<Rightarrow> dispatch_vm encode delivered cfg now req c p (s\<lparr>srv_db := d\<rparr>)
      | (Inl (PlaceNoCapacity st), d) \<Rightarrow> (Done (Inl st), s\<lparr>srv_db := d\<rparr>)
      | (Inl (PlaceInternal st), d) \<Rightarrow> (Done (Inl st), s\<lparr>srv_db := d\<rparr>)
      | (Inl NameConflict, d) \<Rightarrow>
          (Done (case get_vm_by_name d (cm_cluster_id req) (cm_name req) of
             Some v \<Rightarrow> Inr (vm_to_create_response v) | None \<Rightarrow> Inl S_internal), s\<lparr>srv_db := d\<rparr>)
      | (Inl _, d) \<Rightarrow> (Done (Inl S_unavailable), s\<lparr>srv_db := d\<rparr>))))"

text \<open>How the wait ends: the agent's report, the stream's end, or the timeout.\<close>

datatype wait_outcome = Reported "(VmFailure, unit) res" | Disconnected | TimedOut

definition finish_create_machine ::
  "NetworkConfig \<Rightarrow> string \<Rightarrow> wait_outcome \<Rightarrow> VmRow \<Rightarrow> string \<Rightarrow> srv \<Rightarrow> (Status, CreateMachineResponse) res \<times> srv" where
  "finish_create_machine net now w v cid s =
     (let clean = cleanup_failed_vm net now (vm_id v) cid (vm_host_id v) s in
      case w of
        Reported (Inr _) \<Rightarrow>
          ((case get_vm (srv_db s) (vm_id v) of Inl e \<Rightarrow> Inl (db_status e) | Inr row \<Rightarrow> Inr (vm_to_create_response row)), s)
      | Reported (Inl f) \<Rightarrow> (Inl (if vf_transient f then S_unavailable else S_internal), clean)
      | Disconnected \<Rightarrow> (Inl S_internal, clean)
      | TimedOut \<Rightarrow>
          (Inl S_deadline_exceeded,
           s\<lparr>srv_pending_ops := (srv_pending_ops s)(vm_id v := None),
             srv_db := (case update_vm_state (srv_db s) (vm_id v) STATE_FAILED ''VM creation timed out (600s)'' now of
               Inr d \<Rightarrow> d | Inl _ \<Rightarrow> srv_db s)\<rparr>))"

subsection \<open>Deleting and reading machines\<close>

definition initiate_vm_teardown :: "NetworkConfig \<Rightarrow> string \<Rightarrow> VmRow \<Rightarrow> srv \<Rightarrow> (Status, unit) res \<times> srv" where
  "initiate_vm_teardown net now v s =
     (case mark_vm_pending_teardown (srv_db s) (vm_id v) now of
        Inl e \<Rightarrow> (Inl (db_status e), s)
      | Inr d \<Rightarrow> (Inr (), push_reconcile net (vm_host_id v)
          (s\<lparr>srv_db := mark_host_cluster_pending_teardown d (vm_cluster_id v) (vm_host_id v)\<rparr>)))"

definition delete_machine :: "NetworkConfig \<Rightarrow> string \<Rightarrow> peer \<Rightarrow> string \<Rightarrow> srv \<Rightarrow> (Status, unit) res \<times> srv" where
  "delete_machine net now p vid s =
     (case require_capi_caller p of
        Inl e \<Rightarrow> (Inl e, s)
      | Inr _ \<Rightarrow>
     (case get_vm (srv_db s) vid of
        Inl (NotFound _) \<Rightarrow> (Inr (), s)
      | Inl e \<Rightarrow> (Inl (db_status e), s)
      | Inr v \<Rightarrow> if vm_state v \<noteq> VM_STATE_PENDING_TEARDOWN then initiate_vm_teardown net now v s
                 else (Inr (), push_reconcile net (vm_host_id v) s)))"

subsection \<open>Scheduling agrees with the reservation\<close>

text \<open>
  What the scheduler sees as room is room for the reservation's gate: the scheduler's truncations
  only ever shrink what a host that is not over-committed has left.
\<close>

lemma room_u32:
  assumes "int n \<le> int (as_u32 (max (sat_sub_i64 a b) 0))" "b \<le> a"
  shows "b + int n \<le> a"
proof -
  have "int (as_u32 (max (sat_sub_i64 a b) 0)) \<le> max (sat_sub_i64 a b) 0" by (rule as_u32_le) simp
  also have "\<dots> \<le> a - b" using assms(2) clamp_i64_le [of "a - b"] by (simp add: sat_sub_i64_def)
  finally show ?thesis using assms(1) by simp
qed

lemma room_gib:
  assumes "int n \<le> int (as_u32 (max (sat_sub_i64 (trunc_div a GIB) b) 0))" "b * GIB \<le> a" "0 \<le> b"
  shows "(b + int n) * GIB \<le> a"
proof -
  have a: "0 \<le> a" using assms(2,3) by (rule_tac order_trans [of _ "b * GIB"]) (simp_all add: GIB_def)
  then have t: "trunc_div a GIB = a div GIB" by (intro trunc_div_nonneg) (simp_all add: GIB_def)
  have "b \<le> a div GIB" using assms(2) by (simp add: GIB_def zdiv_mono1 [of "b * GIB" a GIB, unfolded GIB_def])
  from room_u32 [OF assms(1)] this have "b + int n \<le> a div GIB" unfolding t by simp
  then have "(b + int n) * GIB \<le> (a div GIB) * GIB" by (intro mult_right_mono) (simp_all add: GIB_def)
  also have "\<dots> \<le> a" by (simp add: GIB_def mult.commute)
  finally show ?thesis .
qed

lemma used_on_host_nonneg:
  assumes "capacity_ok d"
  shows "0 \<le> used_on_host vm_disk_gib d hid" "0 \<le> used_on_host stored_data_gib d hid"
  using assms unfolding used_on_host_def list_vms_on_host_def
  by (auto intro!: sum_list_nonneg simp: capacity_ok_def sane_size_def sane_size_data(1))

lemma usage_of_snapshot: "usage_of (host_usage_snapshot d) h = usage_entry (host_usage_snapshot d) (h_id h)"
  by (simp add: usage_of_def usage_entry_def)

lemma fits_within_capacity:
  assumes "capacity_ok d" "h \<in> set (hosts d)" "sane_size v" "vm_host_id v = h_id h"
    "vm_cpu v = int (sr_cpu req)" "vm_memory_mib v = int (sr_memory_mib req)" "vm_disk_gib v = int (sr_rootfs_gib req)"
    "stored_data_gib v = int (sr_data_gib req)"
    "fits (Available_from h (usage_of (host_usage_snapshot d) h) (cpu_overcommit_ratio d)) req"
  shows "within_capacity (d\<lparr>vms := vms d @ [v]\<rparr>) h"
proof -
  have w: "within_capacity d h" using assms(1,2) by (simp add: capacity_ok_def)
  note f = assms(9) [unfolded usage_of_snapshot host_usage_snapshot_entry fits_def Available_from_def, simplified]
  have c: "used_on_host vm_cpu d (h_id h) + int (sr_cpu req) \<le> effective_cpu (h_total_cpu h) (cpu_overcommit_ratio d)"
    using f w by (intro room_u32) (simp_all add: within_capacity_def)
  have m: "used_on_host vm_memory_mib d (h_id h) + int (sr_memory_mib req) \<le> h_total_memory_mib h"
    using f w by (intro room_u32) (simp_all add: within_capacity_def)
  have r: "(used_on_host vm_disk_gib d (h_id h) + int (sr_rootfs_gib req)) * GIB \<le> h_rootfs_total_bytes h"
    using f w used_on_host_nonneg [OF assms(1)] by (intro room_gib) (simp_all add: within_capacity_def)
  have t: "(used_on_host stored_data_gib d (h_id h) + int (sr_data_gib req)) * GIB \<le> h_data_total_bytes h"
    using f w used_on_host_nonneg [OF assms(1)] by (intro room_gib) (simp_all add: within_capacity_def)
  show ?thesis
    using c m r t assms(4-8) by (simp add: within_capacity_def used_on_host_snoc)
qed

lemma pick_host_Inr:
  assumes "pick_host iter req d = Inr dec" "\<forall>h \<in> set (hosts d). distinct (map gi_pci_address (h_gpu_inventory h))"
  obtains h view where "h \<in> set (hosts d)" "h_healthy h" "de_host_id dec = h_id h"
    "fits (Available_from h (usage_of (host_usage_snapshot d) h) (cpu_overcommit_ratio d)) (schedule_request_from req)"
    "distinct (map gi_pci_address (de_gpus dec))" "length (de_gpus dec) = cm_gpus req"
    "\<forall>g \<in> set (de_gpus dec). \<forall>r \<in> set (vm_gpus d). ga_host_id r = h_id h \<longrightarrow> ga_pci_address r \<noteq> gi_pci_address g"
    "list_all2 (placement_ok view) (cm_storage_disks req) (de_disks dec)"
    "map dp_disk_index (de_disks dec) = map wrap_u32 [0 ..< length (cm_storage_disks req)]"
proof -
  let ?r = "schedule_request_from req"
  from assms(1) obtain ss rs where s: "schedule iter (list_healthy_hosts d) (host_usage_snapshot d) ss rs ?r (cpu_overcommit_ratio d) = Inr dec"
    by (auto simp: pick_host_def Let_def split: sum.splits SchedulerError.splits)
  have inven: "\<forall>h \<in> set (list_healthy_hosts d). distinct (map gi_pci_address (h_gpu_inventory h))"
    using assms(2) by (simp add: list_healthy_hosts_def)
  from s obtain h c where h: "h \<in> set (list_healthy_hosts d)" "h_healthy h"
    and c: "host_candidate iter (host_usage_snapshot d) ss rs ?r (cpu_overcommit_ratio d) h = Some c"
    and dec: "de_host_id dec = h_id h" "de_gpus dec = ca_selected_gpus c" "de_disks dec = ca_disk_placements c"
    by (rule schedule_Inr) blast
  note c = host_candidate_Some [OF c]
  from c obtain g where g: "select_gpus iter (free_gpus h (usage_of (host_usage_snapshot d) h)) ?r = Some (g, ca_selected_gpus c)" by blast
  have "distinct (map gi_pci_address (free_gpus h (usage_of (host_usage_snapshot d) h)))"
    using inven h by (simp add: free_gpus_def)
  from select_gpus_sound [OF g this] have gpus: "length (de_gpus dec) = cm_gpus req"
    "distinct (map gi_pci_address (de_gpus dec))" "set (de_gpus dec) \<subseteq> set (free_gpus h (usage_of (host_usage_snapshot d) h))"
    by (simp_all add: dec schedule_request_from_def)
  have free: "\<forall>g \<in> set (de_gpus dec). \<forall>r \<in> set (vm_gpus d). ga_host_id r = h_id h \<longrightarrow> ga_pci_address r \<noteq> gi_pci_address g"
  proof (intro ballI impI)
    fix g r assume gr: "g \<in> set (de_gpus dec)" "r \<in> set (vm_gpus d)" "ga_host_id r = h_id h"
    then have "gi_pci_address g \<notin> hu_assigned_pci (usage_of (host_usage_snapshot d) h)"
      using gpus(3) by (auto simp: free_gpus_def)
    then show "ga_pci_address r \<noteq> gi_pci_address g"
      using gr(2,3) unfolding usage_of_snapshot host_usage_snapshot_entry by (simp add: image_iff) metis
  qed
  let ?v = "case ss (h_id h) of Some s \<Rightarrow> s | None \<Rightarrow> \<lparr>hs_pools = []\<rparr>"
  have disks: "list_all2 (placement_ok ?v) (cm_storage_disks req) (de_disks dec) \<and>
      map dp_disk_index (de_disks dec) = map wrap_u32 [0 ..< length (cm_storage_disks req)]"
    using c place_disks_sound unfolding dec select_disks_def pick_disk_placements_def
    by (fastforce simp: schedule_request_from_def split: if_splits)
  show ?thesis
    using that [of h ?v] h c gpus free disks dec by (simp add: list_healthy_hosts_def)
qed

text \<open>Sizes a request may ask for without any cast or sum wrapping.\<close>

definition sane_request :: "CreateMachineRequest \<Rightarrow> bool" where
  "sane_request req \<longleftrightarrow> cm_disk_gib req < 2 ^ 32 \<and> sum_list (map dk_min_size_gib (cm_storage_disks req)) < 2 ^ 32 \<and>
     length (cm_storage_disks req) < 2 ^ 32"

lemma placed_sizes:
  assumes "list_all2 (placement_ok view) disks ps"
  shows "map dp_min_size_gib ps = map dk_min_size_gib disks"
  using assms by (induction rule: list_all2_induct) (simp_all add: placement_ok_def)

lemma placed_row_sel [simp]:
  "vm_id (placed_row req vid now a dec) = vid" "vm_name (placed_row req vid now a dec) = cm_name req"
  "vm_cluster_id (placed_row req vid now a dec) = cm_cluster_id req" "vm_host_id (placed_row req vid now a dec) = de_host_id dec"
  "vm_ip_address (placed_row req vid now a dec) = a" "vm_state (placed_row req vid now a dec) = STATE_CREATING"
  "vm_cpu (placed_row req vid now a dec) = int (cm_cpu req)" "vm_memory_mib (placed_row req vid now a dec) = int (cm_memory_mib req)"
  "vm_disk_gib (placed_row req vid now a dec) = int (cm_disk_gib req)"
  "map sd_min_size_gib (vm_storage_disks (placed_row req vid now a dec)) = map dp_min_size_gib (de_disks dec)"
  by (simp_all add: placed_row_def stored_disk_of_def comp_def)

lemma placed_row_sane:
  assumes "sane_request req" "list_all2 (placement_ok view) (cm_storage_disks req) (de_disks dec)"
  shows "sane_size (placed_row req vid now a dec)"
    "stored_data_gib (placed_row req vid now a dec) = int (sr_data_gib (schedule_request_from req))"
proof -
  let ?xs = "map dk_min_size_gib (cm_storage_disks req)"
  show s: "sane_size (placed_row req vid now a dec)"
    using assms(1) by (simp add: sane_size_def sane_request_def placed_sizes [OF assms(2)])
  have e: "map (\<lambda>d. wrap_u32 (dk_min_size_gib d)) (cm_storage_disks req) = ?xs"
  proof (rule map_cong [OF refl])
    fix x assume "x \<in> set (cm_storage_disks req)"
    then have "dk_min_size_gib x \<in> set ?xs" by simp
    from member_le_sum_list [OF this] show "wrap_u32 (dk_min_size_gib x) = dk_min_size_gib x"
      using assms(1) by (simp add: sane_request_def machine_int_simps)
  qed
  have "sr_data_gib (schedule_request_from req) = wrap_u32 (sum_list ?xs)" by (simp only: schedule_request_from_def ScheduleRequest.simps e)
  also have "\<dots> = sum_list ?xs" using assms(1) by (simp add: sane_request_def machine_int_simps)
  finally have "sr_data_gib (schedule_request_from req) = sum_list ?xs" .
  then show "stored_data_gib (placed_row req vid now a dec) = int (sr_data_gib (schedule_request_from req))"
    by (simp add: sane_size_data(1) [OF s] placed_sizes [OF assms(2)])
qed

text \<open>An id no row mentions: what the request's fresh UUID is.\<close>

definition unused_vm_id :: "string \<Rightarrow> db \<Rightarrow> bool" where
  "unused_vm_id vid d \<longleftrightarrow> vid \<notin> vm_id ` set (vms d) \<and> (\<forall>r \<in> set (ip_allocations d). ia_vm_id r \<noteq> Some vid) \<and>
     (\<forall>r \<in> set (pool_disk_assignment d). pa_vm_id r \<noteq> vid \<and> (\<forall>i. pa_assignment_id r \<noteq> vid @ ''-'' @ show_nat i))"

lemma allocate_vm_ip_eq:
  assumes "allocate_cluster_vm_ip d c vid = Inr (a, d')"
  shows "d' = d\<lparr>ip_allocations := ip_allocations d @ [\<lparr>ia_ip_address = a, ia_scope = cluster_scope (c_id c),
    ia_vm_id = Some vid, ia_cluster_id = None\<rparr>]\<rparr>"
  using allocate_from_range_Inr [OF assms [unfolded allocate_cluster_vm_ip_def]] by simp

lemma capacity_gate_ips [simp]: "capacity_gate (d\<lparr>ip_allocations := x\<rparr>) v = capacity_gate d v"
  by (simp add: capacity_gate_def used_on_host_def list_vms_on_host_def)

lemma insert_placed_ok:
  fixes vid now a dec req
  defines "v \<equiv> placed_row req vid now a dec"
  assumes "db_schema d" "capacity_gate d v" "\<forall>r \<in> set (vms d). \<not> vm_key_clash v r" "c \<in> set (clusters d)" "c_id c = cm_cluster_id req"
    "distinct (map gi_pci_address (de_gpus dec))" "distinct (map dp_disk_index (de_disks dec))"
    "\<forall>g \<in> set (de_gpus dec). \<forall>r \<in> set (vm_gpus d). ga_host_id r = de_host_id dec \<longrightarrow> ga_pci_address r \<noteq> gi_pci_address g"
    "\<forall>p \<in> set (de_disks dec). \<forall>r \<in> set (pool_disk_assignment d). \<not> disk_clash (assignment_row v p) r"
  shows "is_ok (insert_vm d v (map (from_scheduler_pick vid (de_host_id dec)) (de_gpus dec)) (de_disks dec))"
proof -
  let ?gs = "map (from_scheduler_pick vid (de_host_id dec)) (de_gpus dec)"
  have own: "\<forall>g \<in> set ?gs. ga_vm_id g = vm_id v \<and> ga_host_id g = vm_host_id v" by (simp add: from_scheduler_pick_def v_def)
  have pci: "map ga_pci_address ?gs = map gi_pci_address (de_gpus dec)" by (simp add: from_scheduler_pick_def)
  have free: "\<forall>g \<in> set ?gs. \<forall>r \<in> set (vm_gpus d). ga_host_id r = vm_host_id v \<longrightarrow> ga_pci_address r \<noteq> ga_pci_address g"
    using assms(9) by (simp add: from_scheduler_pick_def v_def)
  have cl: "vm_cluster_id v \<in> c_id ` set (clusters d)" unfolding v_def placed_row_sel using assms(5,6) by (metis image_eqI)
  show ?thesis unfolding insert_vm_ok_iff [OF assms(2) own] pci
    by (intro conjI assms(3,4,7,8,10) cl free)
qed

text \<open>
  C5.  The scheduler and the reservation agree.  On a database that satisfies the schema and in
  which no host is over-committed, whatever host, GPUs and disks \<open>pick_host\<close> chooses for a request
  of non-wrapping sizes, the reservation on the same database is admitted: placement succeeds
  unless the cluster's address range is exhausted, on the chosen host, with the requested number
  of GPUs, and no host is over-committed afterwards.  So, with placements serialised by the
  placement lock, a lost race can only come from a change of the host itself.
\<close>

theorem placement_admitted:
  assumes "db_schema d" "capacity_ok d" "\<forall>h \<in> set (hosts d). distinct (map gi_pci_address (h_gpu_inventory h))"
    and "sane_request req" "unused_vm_id vid d" "c \<in> set (clusters d)" "c_id c = cm_cluster_id req"
    and "get_vm_by_name d (cm_cluster_id req) (cm_name req) = None"
    and "pick_host iter req d = Inr dec" "allocate_cluster_vm_ip d c vid = Inr (a, d')"
  shows "\<exists>d''. try_place_vm iter req vid c now (\<lambda>_ d. d) d = (Inr \<lparr>pm_vm = placed_row req vid now a dec,
      pm_gpu_assignments = map (from_scheduler_pick vid (de_host_id dec)) (de_gpus dec), pm_disk_placements = de_disks dec\<rparr>, d'') \<and>
    length (de_gpus dec) = cm_gpus req \<and> capacity_ok d''"
proof -
  let ?v = "placed_row req vid now a dec" and ?gs = "map (from_scheduler_pick vid (de_host_id dec)) (de_gpus dec)"
  from assms(9,3) obtain h view where h: "h \<in> set (hosts d)" "h_healthy h" "de_host_id dec = h_id h"
    and f: "fits (Available_from h (usage_of (host_usage_snapshot d) h) (cpu_overcommit_ratio d)) (schedule_request_from req)"
    and g: "distinct (map gi_pci_address (de_gpus dec))" "length (de_gpus dec) = cm_gpus req"
      "\<forall>g \<in> set (de_gpus dec). \<forall>r \<in> set (vm_gpus d). ga_host_id r = h_id h \<longrightarrow> ga_pci_address r \<noteq> gi_pci_address g"
    and p: "list_all2 (placement_ok view) (cm_storage_disks req) (de_disks dec)"
      "map dp_disk_index (de_disks dec) = map wrap_u32 [0 ..< length (cm_storage_disks req)]"
    by (rule pick_host_Inr)
  note sane = placed_row_sane [OF assms(4) p(1), of vid now a]
  have "within_capacity (d\<lparr>vms := vms d @ [?v]\<rparr>) h"
    using f h sane(2) by (intro fits_within_capacity [OF assms(2) h(1) sane(1)]) (simp_all add: schedule_request_from_def)
  then have "capacity_gate d ?v" using h by (auto simp: capacity_gate_iff [OF sane(1)])
  then have gate: "capacity_gate d' ?v" unfolding allocate_vm_ip_eq [OF assms(10)] by simp
  have idx: "distinct (map dp_disk_index (de_disks dec))"
    unfolding p(2) using assms(4) by (auto simp: distinct_map inj_on_def sane_request_def machine_int_simps)
  have name: "\<forall>r \<in> set (vms d). \<not> vm_key_clash ?v r"
    using assms(5,8) by (force simp: vm_key_clash_def unused_vm_id_def get_vm_by_name_def find_None_iff)
  have fresh: "\<forall>p \<in> set (de_disks dec). \<forall>r \<in> set (pool_disk_assignment d). \<not> disk_clash (assignment_row ?v p) r"
    using assms(5) by (auto simp: disk_clash_def assignment_row_def unused_vm_id_def)
  have sel: "vms d' = vms d" "clusters d' = clusters d" "vm_gpus d' = vm_gpus d" "pool_disk_assignment d' = pool_disk_assignment d"
    using allocate_vm_ip_eq [OF assms(10)] by simp_all
  have schema: "db_schema d'" using assms(1,10) by (auto simp: allocate_cluster_vm_ip_def intro: allocate_from_range_schema)
  have "is_ok (insert_vm d' ?v ?gs (de_disks dec))"
    using gate idx name fresh g h assms(6,7) by (intro insert_placed_ok [OF schema]) (simp_all add: sel)
  then obtain d'' where ins: "insert_vm d' ?v ?gs (de_disks dec) = Inr d''" by (auto simp: is_ok_def split: sum.splits)
  have "capacity_ok d'"
    using assms(2) unfolding allocate_vm_ip_eq [OF assms(10)] by (simp add: capacity_ok_def within_capacity_def used_on_host_def list_vms_on_host_def)
  then have "capacity_ok d''" by (rule insert_vm_capacity [OF schema_keysD(1) [OF schema] _ sane(1) ins])
  with ins assms(9,10) g(2) show ?thesis by (simp add: try_place_vm_def Let_def)
qed

text \<open>Example data: a request for one GPU on the example fleet.\<close>

definition example_machine :: CreateMachineRequest where
  "example_machine = \<lparr>cm_name = ''m1'', cm_cluster_id = ''c1'', cm_cpu = 4, cm_memory_mib = 8192, cm_disk_gib = 100,
     cm_gpus = 1, cm_gpu_constraints = None, cm_placement = None, cm_image = ''img'', cm_storage_disks = []\<rparr>"

definition example_decision :: ScheduleDecision where
  "example_decision = \<lparr>de_host_id = ''h1'', de_gpus = [example_gpu ''a'' 7], de_disks = []\<rparr>"

lemma example_fleet_usage: "host_usage_snapshot example_fleet = Map.empty"
  by (simp add: host_usage_snapshot_def snapshot_clusters_def snapshot_gpus_def snapshot_sums_def list_vms_on_host_def
      example_fleet_def empty_db_def)

lemma example_pick_host: "pick_host id example_machine example_fleet = Inr example_decision"
proof -
  obtain s where 1: "host_candidate id Map.empty ss rs (schedule_request_from example_machine) (4, 2)
     (example_host ''h1'' Map.empty [example_gpu ''a'' 7]) =
       Some \<lparr>ca_host = example_host ''h1'' Map.empty [example_gpu ''a'' 7], ca_score = s,
          ca_selected_gpus = [example_gpu ''a'' 7], ca_disk_placements = []\<rparr>" for ss rs
    by (simp add: cand_eval_simps schedule_request_from_def example_machine_def)
  have h: "list_healthy_hosts example_fleet = [example_host ''h1'' Map.empty [example_gpu ''a'' 7]]"
    "cpu_overcommit_ratio example_fleet = (4, 2)"
    by (simp_all add: list_healthy_hosts_def example_fleet_def empty_db_def example_host_sel)
  show ?thesis
    by (simp add: pick_host_def Let_def example_fleet_usage h schedule_def List.map_filter_simps 1 pick_last_def pick_last_step_def
        example_host_sel example_decision_def)
qed

lemma example_fleet_ip: "\<exists>d'. allocate_cluster_vm_ip example_fleet example_cluster ''v1'' = Inr (167772193, d')"
  by (simp add: allocate_cluster_vm_ip_def allocate_from_range_def candidates_def vm_range_def ip_free_def
      scope_ips_def cluster_scope_def host_vteps_def insert_ip_def example_fleet_def empty_db_def example_host_def
      example_cluster_def List.map_filter_simps upt_rec [of "167772193"] del: set_filter)

text \<open>Witness of C5: one GPU on the only host of the example fleet.\<close>

theorem placement_admitted_witness:
  "\<exists>d''. try_place_vm id example_machine ''v1'' example_cluster ''now'' (\<lambda>_ d. d) example_fleet =
     (Inr \<lparr>pm_vm = placed_row example_machine ''v1'' ''now'' 167772193 example_decision,
       pm_gpu_assignments = [from_scheduler_pick ''v1'' ''h1'' (example_gpu ''a'' 7)], pm_disk_placements = []\<rparr>, d'') \<and> capacity_ok d''"
proof -
  obtain d' where ip: "allocate_cluster_vm_ip example_fleet example_cluster ''v1'' = Inr (167772193, d')" using example_fleet_ip by blast
  have "db_schema example_fleet"
    by (simp add: db_schema_def db_keys_def db_refs_def example_fleet_def empty_db_def)
  moreover have "capacity_ok example_fleet"
    by (simp add: capacity_ok_def within_capacity_def used_on_host_def list_vms_on_host_def example_fleet_def empty_db_def
        example_host_def effective_cpu_def GIB_def machine_int_simps)
  moreover have "\<forall>h \<in> set (hosts example_fleet). distinct (map gi_pci_address (h_gpu_inventory h))"
    "unused_vm_id ''v1'' example_fleet" "example_cluster \<in> set (clusters example_fleet)"
    "get_vm_by_name example_fleet (cm_cluster_id example_machine) (cm_name example_machine) = None"
    by (simp_all add: example_fleet_def empty_db_def example_host_sel unused_vm_id_def get_vm_by_name_def)
  moreover have "sane_request example_machine" "c_id example_cluster = cm_cluster_id example_machine"
    by (simp_all add: sane_request_def example_machine_def example_cluster_def)
  ultimately show ?thesis
    using placement_admitted [OF _ _ _ _ _ _ _ _ example_pick_host ip, of "''now''"] by (simp add: example_decision_def) blast
qed

lemma release_reserved:
  assumes "unused_vm_id vid d" "allocate_cluster_vm_ip d c vid = Inr (a, d')"
  shows "release_vm_ips d' vid = d"
proof -
  have "del_rows (\<lambda>r. ia_vm_id r = Some vid) (ip_allocations d) = ip_allocations d"
    using assms(1) by (simp add: unused_vm_id_def del_rows_def filter_id_conv)
  then show ?thesis unfolding allocate_vm_ip_eq [OF assms(2)] release_vm_ips_def by (simp add: del_rows_def)
qed

text \<open>
  The agreement needs hosts that are not over-committed.  The scheduler clamps what is left of a
  resource at zero, the gate does not: when the data capacity a host reports shrinks below what
  its machines use, a request without data disks that the scheduler sends there is rejected by
  the gate as a lost race, on every attempt, although nothing else runs.
\<close>

theorem shrunk_host_never_admits:
  assumes "db_schema d" "unused_vm_id vid d" "pick_host iter req d = Inr dec" "cm_storage_disks req = []"
    and "h \<in> set (hosts d)" "h_id h = de_host_id dec" "h_healthy h"
    and "h_data_total_bytes h < used_on_host stored_data_gib d (h_id h) * GIB"
    and "allocate_cluster_vm_ip d c vid = Inr (a, d')" "de_disks dec = []"
  shows "place_loop (try_place_vm iter req vid c now) (replicate n (\<lambda>_ d. d)) d = (Inl (PlaceInternal S_unavailable), d)"
proof (induction n)
  case (Suc n)
  let ?v = "placed_row req vid now a dec"
  have "h' = h" if "h' \<in> set (hosts d)" "h_id h' = de_host_id dec" for h'
    using distinct_map_eq [OF schema_keysD(1) [OF assms(1)] that(1) assms(5)] that(2) assms(6) by simp
  moreover have "storage_disks_sum_gib ?v = 0" using assms(10) by (simp add: storage_disks_sum_gib_def placed_row_def machine_int_simps)
  ultimately have "\<not> capacity_gate d ?v"
    using assms(8) by (auto simp: capacity_gate_def list_ex_iff sat_mul_i64_def GIB_def machine_int_simps)
  then have "\<not> capacity_gate d' ?v" unfolding allocate_vm_ip_eq [OF assms(9)] by simp
  moreover have "list_ex (\<lambda>h. h_id h = de_host_id dec \<and> h_healthy h) (hosts d')"
    unfolding allocate_vm_ip_eq [OF assms(9)] using assms(5-7) by (auto simp: list_ex_iff)
  ultimately have "insert_vm d' ?v gs ps = Inl (CapacityRaced (de_host_id dec))" for gs ps by (simp add: insert_vm_def)
  then have "try_place_vm iter req vid c now (\<lambda>_ d. d) d = (Inl (Raced (de_host_id dec)), d)"
    using assms(3,9) release_reserved [OF assms(2,9)] by (simp add: try_place_vm_def place_error_def Let_def)
  with Suc show ?case by simp
qed simp

subsection \<open>A failed request keeps nothing\<close>

text \<open>What a failed creation may leave of a machine: a row on its way out, and no address.\<close>

definition nothing_reserved :: "string \<Rightarrow> db \<Rightarrow> bool" where
  "nothing_reserved vid d \<longleftrightarrow> (\<forall>r \<in> set (ip_allocations d). ia_vm_id r \<noteq> Some vid) \<and>
     (\<forall>v \<in> set (vms d). vm_id v = vid \<longrightarrow> vm_state v = VM_STATE_PENDING_TEARDOWN)"

text \<open>Other tasks do not allocate addresses or insert rows for the id the request minted.\<close>

definition leaves_vm :: "string \<Rightarrow> env \<Rightarrow> bool" where
  "leaves_vm vid env \<longleftrightarrow> (\<forall>i d. filter (\<lambda>r. ia_vm_id r = Some vid) (ip_allocations (env i d)) = filter (\<lambda>r. ia_vm_id r = Some vid) (ip_allocations d) \<and>
     filter (\<lambda>v. vm_id v = vid) (vms (env i d)) = filter (\<lambda>v. vm_id v = vid) (vms d))"

lemma nothing_reserved_filter:
  "nothing_reserved vid d \<longleftrightarrow> filter (\<lambda>r. ia_vm_id r = Some vid) (ip_allocations d) = [] \<and>
     (\<forall>v \<in> set (filter (\<lambda>v. vm_id v = vid) (vms d)). vm_state v = VM_STATE_PENDING_TEARDOWN)"
  by (auto simp: nothing_reserved_def filter_empty_conv)

lemma unused_nothing_reserved: "unused_vm_id vid d \<Longrightarrow> nothing_reserved vid d"
  unfolding unused_vm_id_def nothing_reserved_def by blast

lemma leaves_vm_nothing:
  assumes "leaves_vm vid env" "nothing_reserved vid d"
  shows "nothing_reserved vid (env i d)"
  using assms unfolding nothing_reserved_filter leaves_vm_def by simp

lemma nothing_reserved_push:
  assumes "nothing_reserved vid (srv_db s)"
  shows "nothing_reserved vid (srv_db (push_reconcile net hid s))"
proof -
  from push_reconcile_ok [of net s hid] obtain os where "srv_db (push_reconcile net hid s) = (srv_db s)\<lparr>cluster_lan_vip_owner := os\<rparr>"
    unfolding pushes_ok_def election_step_def by blast
  with assms show ?thesis by (simp add: nothing_reserved_def)
qed

lemma cleanup_nothing_reserved: "nothing_reserved vid (srv_db (cleanup_failed_vm net now vid cid hid s))"
  unfolding cleanup_failed_vm_def Let_def
  by (rule nothing_reserved_push)
     (auto simp: nothing_reserved_def mark_vm_pending_teardown_def release_vm_ips_def mark_host_cluster_pending_teardown_def
       list_ex_iff in_upd_rows)

lemma try_place_vm_Inl:
  assumes "leaves_vm vid env" "nothing_reserved vid d" "try_place_vm iter req vid c now env d = (Inl e, d')"
  shows "nothing_reserved vid d'"
proof (cases "pick_host iter req d")
  case (Inl st)
  with assms(2,3) show ?thesis by (simp add: try_place_vm_def)
next
  case (Inr dec)
  have 0: "nothing_reserved vid (env 0 d)" by (rule leaves_vm_nothing [OF assms(1,2)])
  show ?thesis
  proof (cases "allocate_cluster_vm_ip (env 0 d) c vid")
    case (Inl e)
    with Inr 0 assms(3) show ?thesis by (simp add: try_place_vm_def)
  next
    case r: (Inr ad)
    obtain a d2 where ad: "ad = (a, d2)" by (cases ad)
    have "vms d2 = vms (env 0 d)" using allocate_vm_ip_eq [of "env 0 d" c vid a d2] r ad by simp
    moreover have "filter (\<lambda>v. vm_id v = vid) (vms (env 1 d2)) = filter (\<lambda>v. vm_id v = vid) (vms d2)"
      using assms(1) unfolding leaves_vm_def by blast
    ultimately have "\<forall>v \<in> set (filter (\<lambda>v. vm_id v = vid) (vms (env 1 d2))). vm_state v = VM_STATE_PENDING_TEARDOWN"
      using 0 unfolding nothing_reserved_filter by metis
    then have "nothing_reserved vid (release_vm_ips (env 1 d2) vid)" by (auto simp: nothing_reserved_def release_vm_ips_def)
    moreover have "d' = release_vm_ips (env 1 d2) vid"
      using assms(3) Inr r ad by (auto simp: try_place_vm_def Let_def split: sum.splits)
    ultimately show ?thesis by simp
  qed
qed

lemma try_place_vm_id: "try_place_vm iter req vid c now env d = (Inr p, d') \<Longrightarrow> vm_id (pm_vm p) = vid"
  by (auto simp: try_place_vm_def Let_def split: sum.splits if_splits)

lemma place_loop_Inl:
  assumes "\<forall>env \<in> set envs. leaves_vm vid env" "nothing_reserved vid d"
    "place_loop (try_place_vm iter req vid c now) envs d = (Inl e, d')"
  shows "nothing_reserved vid d'"
  using assms
proof (induction envs arbitrary: d)
  case Nil
  then show ?case by simp
next
  case (Cons env envs)
  obtain r d1 where 1: "try_place_vm iter req vid c now env d = (r, d1)" by (cases "try_place_vm iter req vid c now env d")
  show ?case
  proof (cases r)
    case (Inl x)
    have d1: "nothing_reserved vid d1"
      by (rule try_place_vm_Inl [OF _ Cons.prems(2) 1 [unfolded Inl]]) (use Cons.prems(1) in simp)
    have envs: "\<forall>env \<in> set envs. leaves_vm vid env" using Cons.prems(1) by simp
    show ?thesis using Cons.IH [OF envs d1] Cons.prems(3) d1 by (cases x) (simp_all add: 1 Inl)
  qed (use Cons.prems(3) 1 in simp)
qed

lemma place_loop_id: "place_loop (try_place_vm iter req vid c now) envs d = (Inr p, d') \<Longrightarrow> vm_id (pm_vm p) = vid"
  by (induction envs arbitrary: d) (auto dest: try_place_vm_id split: prod.splits sum.splits PlaceError.splits)

lemma dispatch_vm_Inl:
  assumes "dispatch_vm encode delivered cfg now req c p s = (Done (Inl e), s')"
  shows "nothing_reserved (vm_id (pm_vm p)) (srv_db s')"
  using assms cleanup_nothing_reserved by (auto simp: dispatch_vm_def Let_def split: sum.splits prod.splits if_splits)

text \<open>Past its checks, the outcome of the request is the outcome of its placement loop.\<close>

lemma create_machine_cases:
  obtains r where "create_machine iter encode delivered cfg now vid envs p req s = (Done r, s)"
  | c where "create_machine iter encode delivered cfg now vid envs p req s =
      (case place_loop (try_place_vm iter req vid c now) (map envs [0..<MAX_SCHEDULE_ATTEMPTS]) (srv_db s) of
        (Inr p, d) \<Rightarrow> dispatch_vm encode delivered cfg now req c p (s\<lparr>srv_db := d\<rparr>)
      | (Inl (PlaceNoCapacity st), d) \<Rightarrow> (Done (Inl st), s\<lparr>srv_db := d\<rparr>)
      | (Inl (PlaceInternal st), d) \<Rightarrow> (Done (Inl st), s\<lparr>srv_db := d\<rparr>)
      | (Inl NameConflict, d) \<Rightarrow>
          (Done (case get_vm_by_name d (cm_cluster_id req) (cm_name req) of
             Some v \<Rightarrow> Inr (vm_to_create_response v) | None \<Rightarrow> Inl S_internal), s\<lparr>srv_db := d\<rparr>)
      | (Inl _, d) \<Rightarrow> (Done (Inl S_unavailable), s\<lparr>srv_db := d\<rparr>))"
proof (cases "require_capi_caller p")
  case (Inl e)
  then show ?thesis by (intro that(1)) (simp add: create_machine_def)
next
  case caller: (Inr u)
  show ?thesis
  proof (cases "purposes_valid req")
    case False
    with caller show ?thesis by (intro that(1)) (simp add: create_machine_def)
  next
    case True
    show ?thesis
    proof (cases "get_cluster (srv_db s) (cm_cluster_id req)")
      case (Inl e)
      with caller True show ?thesis by (intro that(1)) (simp add: create_machine_def)
    next
      case (Inr c)
      show ?thesis
        using caller True Inr that(1,2) [unfolded create_machine_def]
        by (cases "get_vm_by_name (srv_db s) (cm_cluster_id req) (cm_name req)") (simp_all add: create_machine_def)
    qed
  qed
qed

lemma create_machine_Inl:
  assumes "create_machine iter encode delivered cfg now vid envs p req s = (Done (Inl e), s')"
    "\<forall>i. leaves_vm vid (envs i)" "nothing_reserved vid (srv_db s)"
  shows "nothing_reserved vid (srv_db s')"
proof (rule create_machine_cases [of iter encode delivered cfg now vid envs p req s])
  fix r assume "create_machine iter encode delivered cfg now vid envs p req s = (Done r, s)"
  with assms(1,3) show ?thesis by simp
next
  fix c
  let ?l = "place_loop (try_place_vm iter req vid c now) (map envs [0..<MAX_SCHEDULE_ATTEMPTS]) (srv_db s)"
  assume e: "create_machine iter encode delivered cfg now vid envs p req s =
      (case ?l of
        (Inr p, d) \<Rightarrow> dispatch_vm encode delivered cfg now req c p (s\<lparr>srv_db := d\<rparr>)
      | (Inl (PlaceNoCapacity st), d) \<Rightarrow> (Done (Inl st), s\<lparr>srv_db := d\<rparr>)
      | (Inl (PlaceInternal st), d) \<Rightarrow> (Done (Inl st), s\<lparr>srv_db := d\<rparr>)
      | (Inl NameConflict, d) \<Rightarrow>
          (Done (case get_vm_by_name d (cm_cluster_id req) (cm_name req) of
             Some v \<Rightarrow> Inr (vm_to_create_response v) | None \<Rightarrow> Inl S_internal), s\<lparr>srv_db := d\<rparr>)
      | (Inl _, d) \<Rightarrow> (Done (Inl S_unavailable), s\<lparr>srv_db := d\<rparr>))"
  obtain r d where l: "?l = (r, d)" by (cases ?l)
  show ?thesis
  proof (cases r)
    case (Inl x)
    have "nothing_reserved vid d" using place_loop_Inl [OF _ assms(3) l [unfolded Inl]] assms(2) by simp
    moreover have "s' = s\<lparr>srv_db := d\<rparr>" using e assms(1) unfolding l Inl by (cases x) simp_all
    ultimately show ?thesis by simp
  next
    case (Inr q)
    have "vm_id (pm_vm q) = vid" using place_loop_id l Inr by blast
    moreover have "dispatch_vm encode delivered cfg now req c q (s\<lparr>srv_db := d\<rparr>) = (Done (Inl e), s')"
      using e assms(1) unfolding l Inr by simp
    ultimately show ?thesis using dispatch_vm_Inl by blast
  qed
qed


definition example_idle :: srv where
  "example_idle = \<lparr>srv_db = example_fleet, srv_agents = Map.empty, srv_pending_ops = Map.empty, srv_next_epoch = 1, srv_sent = []\<rparr>"

lemma example_too_big: "pick_host id (example_machine\<lparr>cm_cpu := 1000\<rparr>) example_fleet = Inl S_resource_exhausted"
proof -
  have h: "list_healthy_hosts example_fleet = [example_host ''h1'' Map.empty [example_gpu ''a'' 7]]"
    "cpu_overcommit_ratio example_fleet = (4, 2)"
    by (simp_all add: list_healthy_hosts_def example_fleet_def empty_db_def example_host_sel)
  show ?thesis
    by (simp add: pick_host_def Let_def example_fleet_usage h schedule_def List.map_filter_simps pick_last_def cand_eval_simps
        schedule_request_from_def example_machine_def)
qed


end
