(* ===== verification/Server_Views.thy ===== *)
theory Server_Views
  imports Server_Machines
begin

text \<open>
  What the controller's API shows (\<open>basis-controller/src/server.rs\<close>): machines in their wire
  form, the listing of storage pools with their health, and the operator's drain switch.
\<close>

subsection \<open>Machines\<close>

record MachineGpu =
  mg_pci_address :: string
  mg_model :: string
  mg_nvlink_group :: nat

record Machine =
  mc_id :: string
  mc_name :: string
  mc_cluster_id :: string
  mc_host :: string
  mc_provider_id :: string
  mc_ip_address :: ipv4
  mc_state :: int
  mc_cpu :: nat
  mc_memory_mib :: nat
  mc_disk_gib :: nat
  mc_gpus :: "MachineGpu list"
  mc_error_message :: string
  mc_storage_disks :: "DiskAssignment list"

text \<open>\<open>u32::try_from\<close> of an \<open>i64\<close>.\<close>

definition narrow :: "int \<Rightarrow> (Status, nat) res" where
  "narrow v = (if 0 \<le> v \<and> v < 2 ^ 32 then Inr (nat v) else Inl S_data_loss)"

definition vm_to_machine :: "VmRow \<Rightarrow> GpuAssignment list \<Rightarrow> (Status, Machine) res" where
  "vm_to_machine v gpus =
     and_then (narrow (vm_cpu v)) (\<lambda>cpu.
     and_then (narrow (vm_memory_mib v)) (\<lambda>mem.
     and_then (narrow (vm_disk_gib v)) (\<lambda>disk.
       Inr \<lparr>mc_id = vm_id v, mc_name = vm_name v, mc_cluster_id = vm_cluster_id v, mc_host = vm_host_id v,
         mc_provider_id = provider_id (vm_id v), mc_ip_address = vm_ip_address v, mc_state = as_i32 (vm_state v),
         mc_cpu = cpu, mc_memory_mib = mem, mc_disk_gib = disk,
         mc_gpus = map (\<lambda>g. \<lparr>mg_pci_address = ga_pci_address g, mg_model = ga_model g,
           mg_nvlink_group = as_u32 (ga_nvlink_group g)\<rparr>) gpus,
         mc_error_message = vm_error_message v, mc_storage_disks = parsed_disk_assignments v\<rparr>)))"

definition get_machine :: "peer \<Rightarrow> string \<Rightarrow> srv \<Rightarrow> (Status, Machine) res" where
  "get_machine p vid s = and_then (require_capi_caller p) (\<lambda>_.
     case get_vm (srv_db s) vid of
       Inl e \<Rightarrow> Inl (db_status e)
     | Inr v \<Rightarrow> vm_to_machine v (gpus_for_vm (srv_db s) (vm_id v)))"

text \<open>\<open>collect::<Result<_, _>>()\<close>: the first error wins.\<close>

fun collect_res :: "('a \<Rightarrow> ('e, 'b) res) \<Rightarrow> 'a list \<Rightarrow> ('e, 'b list) res" where
  "collect_res f [] = Inr []"
| "collect_res f (x # xs) = and_then (f x) (\<lambda>y. and_then (collect_res f xs) (\<lambda>ys. Inr (y # ys)))"

definition list_machines :: "peer \<Rightarrow> string \<Rightarrow> srv \<Rightarrow> (Status, Machine list) res" where
  "list_machines p cid s = and_then (require_capi_caller p) (\<lambda>_.
     let vs = list_vms (srv_db s) (if cid = '''' then None else Some cid);
         gpus = gpus_for_vms (srv_db s) (map vm_id vs) in
     collect_res (\<lambda>v. vm_to_machine v (case gpus (vm_id v) of Some g \<Rightarrow> g | None \<Rightarrow> [])) vs)"

subsection \<open>Pools and drains\<close>

record DeviceStatus =
  dst_device_id :: string
  dst_total_bytes :: nat
  dst_free_bytes :: nat
  dst_physical :: DevicePhysicalHealth
  dst_physical_reason :: string
  dst_scheduling_state :: string
  dst_scheduling_reason :: string
  dst_reservations :: "(string \<times> nat) list"

datatype PoolHealthState = PoolHealthUnspecified | PoolHealthReady | PoolHealthDegraded | PoolHealthUnhealthy

record PoolStatus =
  pst_host_id :: string
  pst_pool :: string
  pst_backend :: string
  pst_labels :: labels
  pst_configured_total_bytes :: nat
  pst_ready_total_bytes :: nat
  pst_schedulable_total_bytes :: nat
  pst_schedulable_free_bytes :: nat
  pst_pool_health :: PoolHealthState
  pst_devices :: "DeviceStatus list"

definition device_status :: "db \<Rightarrow> HostPoolRow \<Rightarrow> HostPoolDeviceRow \<Rightarrow> DeviceStatus" where
  "device_status d pool dev =
     (let drain = host_drain_markers d (hp_host_id pool) (hp_pool pool, hd_device_id dev) in
      \<lparr>dst_device_id = hd_device_id dev, dst_total_bytes = as_u64 (hd_total_bytes dev),
       dst_free_bytes = as_u64 (hd_free_bytes dev), dst_physical = DevicePhysicalHealth_from_db_str (hd_physical dev),
       dst_physical_reason = hd_physical_reason dev,
       dst_scheduling_state = (case drain of Some r \<Rightarrow> ds_state r | None \<Rightarrow> ''enabled''),
       dst_scheduling_reason = (case drain of Some r \<Rightarrow> (case ds_reason r of Some x \<Rightarrow> x | None \<Rightarrow> '''') | None \<Rightarrow> ''''),
       dst_reservations = map (\<lambda>(c, n). (c, wrap_u32 n))
         (cluster_counts_on_device d (hp_host_id pool) (hp_pool pool) (hd_device_id dev))\<rparr>)"

definition pool_health :: "HostPoolDeviceRow list \<Rightarrow> PoolHealthState" where
  "pool_health devices =
     (let ready = length (filter (\<lambda>dev. DevicePhysicalHealth_from_db_str (hd_physical dev) = DeviceHealthReady) devices);
          unhealthy = length (filter (\<lambda>dev. DevicePhysicalHealth_from_db_str (hd_physical dev) \<noteq> DeviceHealthReady) devices) in
      if devices = [] then PoolHealthUnhealthy
      else if ready = length devices then PoolHealthReady
      else if ready = 0 \<and> unhealthy > 0 then PoolHealthUnhealthy
      else PoolHealthDegraded)"

definition pool_status :: "db \<Rightarrow> HostPoolRow \<Rightarrow> PoolStatus" where
  "pool_status d pool =
     (let devices = list_pool_devices d (hp_host_id pool) (hp_pool pool) in
      \<lparr>pst_host_id = hp_host_id pool, pst_pool = hp_pool pool, pst_backend = hp_backend pool, pst_labels = hp_labels pool,
       pst_configured_total_bytes = as_u64 (hp_configured_total_bytes pool),
       pst_ready_total_bytes = as_u64 (hp_ready_total_bytes pool),
       pst_schedulable_total_bytes = as_u64 (hp_schedulable_total_bytes pool),
       pst_schedulable_free_bytes = as_u64 (hp_schedulable_free_bytes pool),
       pst_pool_health = pool_health devices, pst_devices = map (device_status d pool) devices\<rparr>)"

definition list_pools :: "peer \<Rightarrow> string \<Rightarrow> srv \<Rightarrow> (Status, PoolStatus list) res" where
  "list_pools p hid s = and_then (require_capi_caller p) (\<lambda>_.
     Inr (map (pool_status (srv_db s))
       (if hid = '''' then list_all_host_pools (srv_db s) else list_host_pools (srv_db s) hid)))"

definition set_device_scheduling_state_rpc ::
  "peer \<Rightarrow> string \<Rightarrow> string \<Rightarrow> string \<Rightarrow> string \<Rightarrow> string \<Rightarrow> srv \<Rightarrow> (Status, unit) res \<times> srv" where
  "set_device_scheduling_state_rpc p hid pool dev state reason s =
     (case require_capi_caller p of
        Inl e \<Rightarrow> (Inl e, s)
      | Inr _ \<Rightarrow>
     if hid = '''' \<or> pool = '''' \<or> dev = '''' then (Inl S_invalid_argument, s)
     else case set_device_scheduling_state (srv_db s) hid pool dev state (if reason = '''' then None else Some reason) of
        Inl e \<Rightarrow> (Inl (db_status e), s)
      | Inr d \<Rightarrow> (Inr (), s\<lparr>srv_db := d\<rparr>))"

subsection \<open>What the views promise\<close>

lemma vm_to_machine_Inl:
  "(\<exists>e. vm_to_machine v gs = Inl e) \<longleftrightarrow> \<not> {vm_cpu v, vm_memory_mib v, vm_disk_gib v} \<subseteq> {0 ..< 2 ^ 32}"
  by (auto simp: vm_to_machine_def and_then_def narrow_def)

lemma vm_to_machine_Inr:
  assumes "vm_to_machine v gs = Inr m"
  shows "int (mc_cpu m) = vm_cpu v \<and> int (mc_memory_mib m) = vm_memory_mib v \<and> int (mc_disk_gib m) = vm_disk_gib v \<and> mc_id m = vm_id v"
  using assms by (auto simp: vm_to_machine_def and_then_def narrow_def split: if_splits)

lemma collect_res_Inl: "(\<exists>e. collect_res f xs = Inl e) \<longleftrightarrow> (\<exists>x \<in> set xs. \<exists>e. f x = Inl e)"
  by (induction xs) (auto simp: and_then_def split: sum.splits)


definition example_wide_vm :: VmRow where
  "example_wide_vm = (example_vm ''v1'' ''m1'' 167772193 2)\<lparr>vm_memory_mib := 2 ^ 32\<rparr>"


text \<open>
  Disabling a device does not fence it.  The drain request stores the state \<open>draining\<close>, the
  scheduler excludes devices whose state is \<open>disabled\<close>: as long as no row says \<open>disabled\<close>, and no
  request ever writes one, placement is the same before and after the request.
\<close>

lemma host_drain_markers_Some:
  "host_drain_markers d hid k = Some r \<Longrightarrow> r \<in> set (device_scheduling_state d)"
  unfolding host_drain_markers_def fold_map_upd_eq by (auto dest!: map_of_SomeD)

lemma drain_request_rows:
  assumes "set_device_scheduling_state_rpc p hid pool dev state reason s = (res, s')"
  obtains rs where "srv_db s' = (srv_db s)\<lparr>device_scheduling_state := rs\<rparr>"
    "\<forall>r \<in> set rs. r \<in> set (device_scheduling_state (srv_db s)) \<or> ds_state r = ''draining''"
proof (cases "s' = s")
  case True
  then show ?thesis by (intro that [of "device_scheduling_state (srv_db s)"]) simp_all
next
  case False
  with assms obtain d reas where d: "set_device_scheduling_state (srv_db s) hid pool dev state reas = Inr d" "s' = s\<lparr>srv_db := d\<rparr>"
    by (auto simp: set_device_scheduling_state_rpc_def split: sum.splits if_splits)
  show ?thesis
  proof (cases "state = ''enabled''")
    case True
    with d show ?thesis by (intro that) (auto simp: set_device_scheduling_state_def)
  next
    case False
    let ?row = "\<lparr>ds_host_id = hid, ds_pool = pool, ds_device_id = dev, ds_state = ''draining'', ds_reason = reas\<rparr>"
    have "\<forall>r \<in> set (upsert_drain ?row (device_scheduling_state (srv_db s))). r \<in> set (device_scheduling_state (srv_db s)) \<or> ds_state r = ''draining''"
      by (auto simp: upsert_drain_def Let_def in_upd_rows)
    with False d show ?thesis
      by (intro that [of "upsert_drain ?row (device_scheduling_state (srv_db s))"]) (simp_all add: set_device_scheduling_state_def split: if_splits)
  qed
qed

theorem drain_request_has_no_effect:
  assumes "\<forall>r \<in> set (device_scheduling_state (srv_db s)). ds_state r \<noteq> ''disabled''"
    and "set_device_scheduling_state_rpc p hid pool dev state reason s = (res, s')"
  shows "pick_host iter req (srv_db s') = pick_host iter req (srv_db s) \<and>
    (\<forall>r \<in> set (device_scheduling_state (srv_db s')). ds_state r \<noteq> ''disabled'')"
proof -
  from assms(2) obtain rs where d: "srv_db s' = (srv_db s)\<lparr>device_scheduling_state := rs\<rparr>"
      and rs: "\<forall>r \<in> set rs. r \<in> set (device_scheduling_state (srv_db s)) \<or> ds_state r = ''draining''"
    by (rule drain_request_rows)
  have "drained_devices (srv_db s') h = {}" "drained_devices (srv_db s) h = {}" for h
    using assms(1) rs host_drain_markers_Some unfolding drained_devices_def d by fastforce+
  then have v: "host_storage_view (srv_db s') h = host_storage_view (srv_db s) h" for h
    unfolding host_storage_view_def by (simp add: d list_host_pools_def devices_by_pool_def list_pool_devices_def
      replicated_clusters_per_device_def list_host_replicated_assignments_def)
  have "cluster_replicated_count (srv_db s') cid h = cluster_replicated_count (srv_db s) cid h" for cid h
    by (simp add: d cluster_replicated_count_def list_host_replicated_assignments_def)
  moreover have "host_usage_snapshot (srv_db s') = host_usage_snapshot (srv_db s)" "list_healthy_hosts (srv_db s') = list_healthy_hosts (srv_db s)"
      "cpu_overcommit_ratio (srv_db s') = cpu_overcommit_ratio (srv_db s)"
    by (simp_all add: d list_healthy_hosts_def host_usage_snapshot_def snapshot_clusters_def snapshot_sums_def
        list_vms_on_host_def used_on_host_def cong: if_cong)
  ultimately have "pick_host iter req (srv_db s') = pick_host iter req (srv_db s)" unfolding pick_host_def v by (simp cong: if_cong)
  moreover have "\<forall>r \<in> set rs. ds_state r \<noteq> ''disabled''" using rs assms(1) by fastforce
  ultimately show ?thesis by (simp add: d)
qed

end
