(* ===== verification/Text.thy ===== *)
theory Text
  imports Prelude
begin

text \<open>
  The operations of Rust's \<open>str\<close> that the host agent uses to read the output of system tools
  and to build and take apart names.  Strings are ASCII text, as those tools print it.
\<close>

subsection \<open>Operations\<close>

definition is_whitespace :: "char \<Rightarrow> bool" where
  "is_whitespace c \<longleftrightarrow> of_char c \<in> {9, 10, 11, 12, 13, 32 :: nat}"

definition trim_start :: "string \<Rightarrow> string" where
  "trim_start = dropWhile is_whitespace"

definition trim :: "string \<Rightarrow> string" where
  "trim s = rev (dropWhile is_whitespace (rev (trim_start s)))"

fun strip_prefix :: "string \<Rightarrow> string \<Rightarrow> string option" where
  "strip_prefix [] s = Some s"
| "strip_prefix (p # ps) [] = None"
| "strip_prefix (p # ps) (c # cs) = (if p = c then strip_prefix ps cs else None)"

definition starts_with :: "string \<Rightarrow> string \<Rightarrow> bool" where
  "starts_with p s \<longleftrightarrow> strip_prefix p s \<noteq> None"

definition strip_suffix :: "string \<Rightarrow> string \<Rightarrow> string option" where
  "strip_suffix p s = map_option rev (strip_prefix (rev p) (rev s))"

fun contains_str :: "string \<Rightarrow> string \<Rightarrow> bool" where
  "contains_str p [] \<longleftrightarrow> p = []"
| "contains_str p (c # cs) \<longleftrightarrow> starts_with p (c # cs) \<or> contains_str p cs"

text \<open>The text after the last occurrence of a pattern.\<close>

fun after_last :: "string \<Rightarrow> string \<Rightarrow> string option" where
  "after_last p [] = None"
| "after_last p (c # cs) = (case after_last p cs of Some r \<Rightarrow> Some r | None \<Rightarrow> strip_prefix p (c # cs))"

fun split_on :: "(char \<Rightarrow> bool) \<Rightarrow> string \<Rightarrow> string list" where
  "split_on P [] = [[]]"
| "split_on P (c # cs) = (if P c then [] # split_on P cs
     else case split_on P cs of [] \<Rightarrow> [[c]] | w # ws \<Rightarrow> (c # w) # ws)"

definition split_whitespace :: "string \<Rightarrow> string list" where
  "split_whitespace s = filter (\<lambda>w. w \<noteq> []) (split_on is_whitespace s)"

definition split_once :: "(char \<Rightarrow> bool) \<Rightarrow> string \<Rightarrow> (string \<times> string) option" where
  "split_once P s = (case dropWhile (\<lambda>c. \<not> P c) s of [] \<Rightarrow> None | c # r \<Rightarrow> Some (takeWhile (\<lambda>c. \<not> P c) s, r))"

definition rsplit_once :: "(char \<Rightarrow> bool) \<Rightarrow> string \<Rightarrow> (string \<times> string) option" where
  "rsplit_once P s = map_option (\<lambda>(a, b). (rev b, rev a)) (split_once P (rev s))"

text \<open>Lines end in a line feed, with a carriage return before it dropped; the last may be open.\<close>

definition strip_cr :: "string \<Rightarrow> string" where
  "strip_cr s = (case strip_suffix [CHR 0x0D] s of Some r \<Rightarrow> r | None \<Rightarrow> s)"

definition text_lines :: "string \<Rightarrow> string list" where
  "text_lines s = (let ps = split_on (\<lambda>c. c = CHR 0x0A) s in
     map strip_cr (butlast ps) @ (if last ps = [] then [] else [last ps]))"

text \<open>\<open>parse\<close> of an unsigned integer with the given largest value.\<close>

definition parse_uint :: "nat \<Rightarrow> string \<Rightarrow> nat option" where
  "parse_uint m s = (let ds = (case s of c # cs \<Rightarrow> if c = CHR ''+'' then cs else s | [] \<Rightarrow> []) in
     if ds \<noteq> [] \<and> list_all is_digit ds \<and> digits_val ds \<le> m then Some (digits_val ds) else None)"

definition to_lowercase :: "string \<Rightarrow> string" where
  "to_lowercase = map (\<lambda>c. if 65 \<le> (of_char c :: nat) \<and> (of_char c :: nat) \<le> 90 then char_of (of_char c + 32 :: nat) else c)"

subsection \<open>Laws\<close>

lemma strip_prefix_Some: "strip_prefix p s = Some r \<longleftrightarrow> s = p @ r"
  by (induction p s rule: strip_prefix.induct) auto

lemma strip_prefix_append [simp]: "strip_prefix p (p @ r) = Some r"
  by (simp add: strip_prefix_Some)

lemma strip_suffix_Some: "strip_suffix p s = Some r \<longleftrightarrow> s = r @ p"
proof -
  have "strip_suffix p s = Some r \<longleftrightarrow> (\<exists>t. rev s = rev p @ t \<and> r = rev t)"
    by (auto simp: strip_suffix_def strip_prefix_Some)
  also have "\<dots> \<longleftrightarrow> s = r @ p" by (metis rev_append rev_rev_ident)
  finally show ?thesis .
qed

lemma starts_with_iff: "starts_with p s \<longleftrightarrow> (\<exists>r. s = p @ r)"
  by (auto simp: starts_with_def strip_prefix_Some)

lemma split_once_append:
  assumes "\<forall>c \<in> set a. \<not> P c" "P c"
  shows "split_once P (a @ c # b) = Some (a, b)"
  using assms by (simp add: split_once_def dropWhile_append takeWhile_append)

lemma split_once_Some: "split_once P s = Some (a, b) \<Longrightarrow> \<exists>c. P c \<and> s = a @ c # b \<and> (\<forall>x \<in> set a. \<not> P x)"
proof -
  assume s: "split_once P s = Some (a, b)"
  then obtain c where c: "dropWhile (\<lambda>c. \<not> P c) s = c # b" and a: "a = takeWhile (\<lambda>c. \<not> P c) s"
    by (auto simp: split_once_def split: list.splits)
  have "s = a @ c # b" unfolding a c [symmetric] by simp
  moreover have "P c" using c by (metis hd_dropWhile list.distinct(1) list.sel(1))
  ultimately show ?thesis using a by (auto dest: set_takeWhileD)
qed

lemma rsplit_once_append:
  assumes "\<forall>c \<in> set b. \<not> P c" "P c"
  shows "rsplit_once P (a @ c # b) = Some (a, b)"
  using split_once_append [of "rev b" P c "rev a"] assms by (simp add: rsplit_once_def)

lemma rsplit_once_Some:
  assumes "rsplit_once P s = Some (a, b)"
  shows "\<exists>c. P c \<and> s = a @ c # b \<and> (\<forall>x \<in> set b. \<not> P x)"
proof -
  from assms have "split_once P (rev s) = Some (rev b, rev a)" by (auto simp: rsplit_once_def)
  from split_once_Some [OF this] obtain c where "P c" "rev s = rev b @ c # rev a" "\<forall>x \<in> set (rev b). \<not> P x" by blast
  then show ?thesis by (metis append.assoc append_Cons append_Nil rev.simps(2) rev_append rev_rev_ident set_rev)
qed

lemma parse_uint_show [simp]: "n \<le> m \<Longrightarrow> parse_uint m (show_nat n) = Some n"
proof -
  assume "n \<le> m"
  moreover have "show_nat n \<noteq> [] \<and> list_all is_digit (show_nat n)" by (simp add: show_nat_digits show_nat_not_Nil)
  moreover have "\<not> is_digit CHR ''+''" by (simp add: is_digit_def)
  ultimately show ?thesis
    using digits_val_show_nat [of n] by (cases "show_nat n") (auto simp: parse_uint_def Let_def)
qed

lemma parse_uint_le: "parse_uint m s = Some n \<Longrightarrow> n \<le> m"
  by (auto simp: parse_uint_def Let_def split: if_splits)

lemma split_on_not_Nil [simp]: "split_on P s \<noteq> []"
  by (cases s) (auto split: list.splits)

end
