(* ===== verification/Agent_Gpu.thy ===== *)
theory Agent_Gpu
  imports Text Db_Rows "HOL-Library.AList"
begin

text \<open>
  GPU discovery of the host agent (\<open>basis-agent/src/gpu.rs\<close>): the inventory from \<open>lspci\<close>, the
  NVLink matrix of \<open>nvidia-smi\<close>, and the union-find that turns NVLink edges into group numbers.
  The tools' outputs and the IOMMU links of \<open>sysfs\<close> are parameters.  An index that would panic
  and a loop that would not end are both \<open>None\<close>.
\<close>

subsection \<open>Parsing\<close>

definition extract_model_name :: "string \<Rightarrow> string" where
  "extract_model_name line = (case after_last '': '' line of Some r \<Rightarrow> trim r | None \<Rightarrow> ''Unknown GPU'')"

definition parse_index_to_pci :: "string \<Rightarrow> (nat \<times> string) list" where
  "parse_index_to_pci csv = fold (\<lambda>line m.
     let parts = map trim (split_on (\<lambda>c. c = CHR '','') line) in
     if length parts < 2 then m
     else case parse_uint u32_max (parts ! 0) of
       None \<Rightarrow> m
     | Some idx \<Rightarrow> AList.update idx (to_lowercase (parts ! 1)) m) (text_lines csv) []"

definition nvlink_cell :: "string \<Rightarrow> bool" where
  "nvlink_cell cell \<longleftrightarrow> starts_with ''NV'' cell \<and> list_all is_digit (drop 2 cell)"

definition row_edges :: "nat \<Rightarrow> string \<Rightarrow> (nat \<times> nat) list" where
  "row_edges n_gpus line =
     (case strip_prefix ''GPU'' (trim_start line) of
        None \<Rightarrow> []
      | Some rest \<Rightarrow> (case split_once is_whitespace rest of
          None \<Rightarrow> []
        | Some (idx_str, row) \<Rightarrow> (case parse_uint u32_max idx_str of
            None \<Rightarrow> []
          | Some row_idx \<Rightarrow>
              if n_gpus \<le> row_idx then []
              else map (\<lambda>(col_idx, _). (row_idx, col_idx))
                (filter (\<lambda>(col_idx, cell). row_idx < col_idx \<and> nvlink_cell cell)
                  (List.enumerate 0 (take n_gpus (split_whitespace row)))))))"

definition parse_nvlink_edges :: "string \<Rightarrow> nat \<Rightarrow> (nat \<times> nat) list" where
  "parse_nvlink_edges matrix n_gpus = concat (map (row_edges n_gpus) (text_lines matrix))"

subsection \<open>Union-find\<close>

text \<open>\<open>find\<close> with path halving; the parents are updated in place.\<close>

partial_function (option) uf_find :: "nat list \<Rightarrow> nat \<Rightarrow> (nat \<times> nat list) option" where
  "uf_find parent x =
     (if length parent \<le> x then None
      else if parent ! x = x then Some (x, parent)
      else if length parent \<le> parent ! x then None
      else uf_find (parent[x := parent ! (parent ! x)]) (parent ! (parent ! x)))"

definition uf_union :: "nat \<times> nat \<Rightarrow> nat list \<Rightarrow> nat list option" where
  "uf_union e parent =
     (case uf_find parent (fst e) of
        None \<Rightarrow> None
      | Some (ra, p1) \<Rightarrow> (case uf_find p1 (snd e) of
          None \<Rightarrow> None
        | Some (rb, p2) \<Rightarrow> Some (if ra \<noteq> rb then p2[ra := rb] else p2)))"

fun uf_unions :: "(nat \<times> nat) list \<Rightarrow> nat list \<Rightarrow> nat list option" where
  "uf_unions [] parent = Some parent"
| "uf_unions (e # es) parent = (case uf_union e parent of None \<Rightarrow> None | Some p \<Rightarrow> uf_unions es p)"

text \<open>The flags \<open>has_edge\<close>, as the set of flagged indices.\<close>

definition has_edge :: "(nat \<times> nat) list \<Rightarrow> nat \<Rightarrow> bool" where
  "has_edge edges i \<longleftrightarrow> list_ex (\<lambda>(a, b). i = a \<or> i = b) edges"

text \<open>The last loop: its state is the parents, the ids of the roots, the next id and the result.\<close>

record group_acc =
  gr_parent :: "nat list"
  gr_root_to_id :: "nat \<rightharpoonup> nat"
  gr_next_id :: nat
  gr_result :: "string \<rightharpoonup> nat"

definition group_step :: "(nat \<times> string) list \<Rightarrow> (nat \<times> nat) list \<Rightarrow> nat \<Rightarrow> group_acc \<Rightarrow> group_acc option" where
  "group_step index_to_pci edges i acc =
     (case map_of index_to_pci i of
        None \<Rightarrow> Some acc
      | Some pci \<Rightarrow>
          if \<not> has_edge edges i then Some acc
          else case uf_find (gr_parent acc) i of
            None \<Rightarrow> None
          | Some (root, p) \<Rightarrow>
              (case gr_root_to_id acc root of
                 Some g \<Rightarrow> Some (acc\<lparr>gr_parent := p, gr_result := (gr_result acc)(pci \<mapsto> g)\<rparr>)
               | None \<Rightarrow> Some \<lparr>gr_parent = p, gr_root_to_id = (gr_root_to_id acc)(root \<mapsto> gr_next_id acc),
                   gr_next_id = wrap_u32 (Suc (gr_next_id acc)),
                   gr_result = (gr_result acc)(pci \<mapsto> gr_next_id acc)\<rparr>))"

fun group_loop :: "(nat \<times> string) list \<Rightarrow> (nat \<times> nat) list \<Rightarrow> nat list \<Rightarrow> group_acc \<Rightarrow> group_acc option" where
  "group_loop m edges [] acc = Some acc"
| "group_loop m edges (i # is') acc = (case group_step m edges i acc of None \<Rightarrow> None | Some acc' \<Rightarrow> group_loop m edges is' acc')"

definition assign_nvlink_groups :: "(nat \<times> string) list \<Rightarrow> (nat \<times> nat) list \<Rightarrow> (string \<rightharpoonup> nat) option" where
  "assign_nvlink_groups index_to_pci edges =
     (let n = length index_to_pci in
      case uf_unions edges [0..<wrap_u32 n] of
        None \<Rightarrow> None
      | Some parent \<Rightarrow>
          if list_ex (\<lambda>(a, b). n \<le> a \<or> n \<le> b) edges then None
          else map_option gr_result (group_loop index_to_pci edges [0..<wrap_u32 n]
            \<lparr>gr_parent = parent, gr_root_to_id = Map.empty, gr_next_id = 1, gr_result = Map.empty\<rparr>))"

subsection \<open>Discovery\<close>

text \<open>
  \<open>topo\<close> and \<open>query\<close> are the outputs of the two \<open>nvidia-smi\<close> calls, \<open>None\<close> if one failed.
  The result is \<open>None\<close> on a panic, \<open>Some (Inl pci)\<close> when a device has no IOMMU group.
\<close>

definition is_gpu_line :: "string \<Rightarrow> bool" where
  "is_gpu_line line \<longleftrightarrow> (contains_str ''3D controller'' line \<or> contains_str ''VGA compatible controller'' line) \<and>
     (contains_str ''NVIDIA'' line \<or> contains_str ''AMD'' line)"

definition scan_line :: "(string \<Rightarrow> string option) \<Rightarrow> string \<Rightarrow> GpuInfo list \<Rightarrow> (string, GpuInfo list) res" where
  "scan_line iommu line gpus =
     (if \<not> is_gpu_line line then Inr gpus
      else case split_whitespace line of
        [] \<Rightarrow> Inr gpus
      | pci # _ \<Rightarrow> (case iommu pci of
          None \<Rightarrow> Inl pci
        | Some g \<Rightarrow> Inr (gpus @ [\<lparr>gi_pci_address = pci, gi_model = extract_model_name line, gi_iommu_group = g, gi_nvlink_group = 0\<rparr>])))"

definition overlay_group :: "(string \<rightharpoonup> nat) \<Rightarrow> GpuInfo \<Rightarrow> GpuInfo" where
  "overlay_group groups g = (case groups (to_lowercase (gi_pci_address g)) of
     Some n \<Rightarrow> g\<lparr>gi_nvlink_group := n\<rparr> | None \<Rightarrow> g)"

definition nvlink_groups_from_nvidia_smi :: "string \<Rightarrow> string \<Rightarrow> (string \<rightharpoonup> nat) option" where
  "nvlink_groups_from_nvidia_smi topo query =
     (let index_to_pci = parse_index_to_pci query in
      assign_nvlink_groups index_to_pci (parse_nvlink_edges topo (length index_to_pci)))"

definition discover_gpus ::
  "(string \<Rightarrow> string option) \<Rightarrow> string option \<Rightarrow> (string \<times> string) option \<Rightarrow> (string, GpuInfo list) res option" where
  "discover_gpus iommu lspci smi =
     (case lspci of
        None \<Rightarrow> Some (Inr [])
      | Some out \<Rightarrow>
          (case fold_res (scan_line iommu) (text_lines out) [] of
             Inl e \<Rightarrow> Some (Inl e)
           | Inr gpus \<Rightarrow> (case smi of
               None \<Rightarrow> Some (Inr gpus)
             | Some (topo, query) \<Rightarrow>
                 map_option (\<lambda>groups. Inr (map (overlay_group groups) gpus)) (nvlink_groups_from_nvidia_smi topo query))))"

subsection \<open>Union-find finds the roots\<close>

text \<open>
  The abstraction of a parent array: \<open>f\<close> gives the root of an index, \<open>r\<close> decreases along the
  parents.
\<close>

definition uf_ok :: "nat list \<Rightarrow> (nat \<Rightarrow> nat) \<Rightarrow> (nat \<Rightarrow> nat) \<Rightarrow> bool" where
  "uf_ok p f r \<longleftrightarrow> (\<forall>i < length p. p ! i < length p \<and> f i < length p \<and> p ! f i = f i \<and> f (p ! i) = f i \<and>
     (p ! i = i \<longrightarrow> f i = i) \<and> (p ! i \<noteq> i \<longrightarrow> r (p ! i) < r i))"

lemma uf_okD:
  assumes "uf_ok p f r" "i < length p"
  shows "p ! i < length p" "f i < length p" "p ! f i = f i" "f (p ! i) = f i" "p ! i = i \<Longrightarrow> f i = i"
    "p ! i \<noteq> i \<Longrightarrow> r (p ! i) < r i" "f (f i) = f i"
  using assms by (auto simp: uf_ok_def)

lemma uf_ok_halve:
  assumes "uf_ok p f r" "x < length p" "p ! x \<noteq> x"
  shows "uf_ok (p[x := p ! (p ! x)]) f r"
proof -
  let ?y = "p ! x" and ?z = "p ! (p ! x)"
  note x = uf_okD [OF assms(1,2)] and y = uf_okD [OF assms(1) x(1)]
  have z: "?z < length p" "f ?z = f x" "r ?z < r x" "?z \<noteq> x"
    using x(1,4,6) y(1,4,6) assms(3) by (cases "?z = ?y"; force)+
  show ?thesis unfolding uf_ok_def
  proof (intro allI impI)
    fix i assume "i < length (p[x := ?z])"
    then have i: "i < length p" by simp
    note oi = uf_okD [OF assms(1) i]
    have "f i \<noteq> x" using oi(3) assms(3) by auto
    then show "p[x := ?z] ! i < length (p[x := ?z]) \<and> f i < length (p[x := ?z]) \<and> p[x := ?z] ! f i = f i \<and>
        f (p[x := ?z] ! i) = f i \<and> (p[x := ?z] ! i = i \<longrightarrow> f i = i) \<and> (p[x := ?z] ! i \<noteq> i \<longrightarrow> r (p[x := ?z] ! i) < r i)"
      using oi z assms(2) by (cases "i = x") simp_all
  qed
qed

lemma uf_find_ok:
  assumes "uf_ok p f r" "x < length p"
  shows "\<exists>p'. uf_find p x = Some (f x, p') \<and> length p' = length p \<and> uf_ok p' f r"
  using assms
proof (induction "r x" arbitrary: p x rule: less_induct)
  case less
  note x = uf_okD [OF less.prems]
  show ?case
  proof (cases "p ! x = x")
    case True
    with x(5) less.prems show ?thesis by (simp add: uf_find.simps [of p x])
  next
    case False
    let ?z = "p ! (p ! x)" let ?p = "p[x := ?z]"
    note y = uf_okD [OF less.prems(1) x(1)]
    have ok: "uf_ok ?p f r" by (rule uf_ok_halve [OF less.prems False])
    have "r ?z < r x" using y x False by (cases "?z = p ! x") force+
    from less.hyps [OF this ok] y(1) obtain p' where "uf_find ?p ?z = Some (f ?z, p')" "length p' = length p" "uf_ok p' f r"
      by auto
    with False x(1,4) y(4) less.prems(2) show ?thesis by (simp add: uf_find.simps [of p x])
  qed
qed

lemma uf_ok_link:
  assumes "uf_ok p f r" "a < length p" "b < length p" "f a \<noteq> f b"
  defines "f' \<equiv> \<lambda>i. if f i = f a then f b else f i"
  shows "uf_ok (p[f a := f b]) f' (\<lambda>i. if f i = f a then r i + r (f b) + 1 else r i)"
proof -
  note a = uf_okD [OF assms(1,2)] and b = uf_okD [OF assms(1,3)]
  let ?p = "p[f a := f b]" and ?r = "\<lambda>i. if f i = f a then r i + r (f b) + 1 else r i"
  show ?thesis unfolding uf_ok_def
  proof (intro allI impI)
    fix i assume "i < length ?p"
    then have i: "i < length p" by simp
    note oi = uf_okD [OF assms(1) i]
    have roots: "p ! (f b) = f b" "f (f b) = f b" "f (f a) = f a" "f b < length p" "f a < length p" using a b by simp_all
    show "?p ! i < length ?p \<and> f' i < length ?p \<and> ?p ! f' i = f' i \<and> f' (?p ! i) = f' i \<and>
        (?p ! i = i \<longrightarrow> f' i = i) \<and> (?p ! i \<noteq> i \<longrightarrow> ?r (?p ! i) < ?r i)"
    proof (cases "i = f a")
      case True
      with roots assms(4) show ?thesis by (simp add: f'_def)
    next
      case False
      then show ?thesis using oi roots assms(4) i by (cases "f i = f a") (auto simp: f'_def)
    qed
  qed
qed

lemma uf_union_ok:
  assumes "uf_ok p f r" "a < length p" "b < length p"
  shows "\<exists>p' r'. uf_union (a, b) p = Some p' \<and> length p' = length p \<and> uf_ok p' (\<lambda>i. if f i = f a then f b else f i) r'"
proof -
  from uf_find_ok [OF assms(1,2)] obtain p1 where 1: "uf_find p a = Some (f a, p1)" "length p1 = length p" "uf_ok p1 f r" by blast
  from uf_find_ok [OF 1(3)] assms(3) 1(2) obtain p2 where
    2: "uf_find p1 b = Some (f b, p2)" "length p2 = length p" "uf_ok p2 f r" by auto
  show ?thesis
  proof (cases "f a = f b")
    case True
    then have "(\<lambda>i. if f i = f a then f b else f i) = f" by auto
    with 1 2 True show ?thesis by (auto simp: uf_union_def)
  next
    case False
    with uf_ok_link [OF 2(3), of a b] assms 1 2 show ?thesis by (auto simp: uf_union_def)
  qed
qed

subsection \<open>Groups are the connected components\<close>

definition nvlinked :: "(nat \<times> nat) list \<Rightarrow> nat \<Rightarrow> nat \<Rightarrow> bool" where
  "nvlinked edges i j \<longleftrightarrow> (i, j) \<in> (set edges \<union> (set edges)\<inverse>)\<^sup>*"

lemma nvlinked_sym: "nvlinked es i j = nvlinked es j i"
proof -
  have "sym ((set es \<union> (set es)\<inverse>)\<^sup>*)" by (rule sym_rtrancl) (rule sym_Un_converse)
  then show ?thesis unfolding nvlinked_def by (meson symD)
qed

lemma nvlinked_trans: "nvlinked es i j \<Longrightarrow> nvlinked es j k \<Longrightarrow> nvlinked es i k"
  unfolding nvlinked_def by (rule rtrancl_trans)

lemma nvlinked_snoc:
  "nvlinked (es @ [(a, b)]) i j \<longleftrightarrow> nvlinked es i j \<or> (nvlinked es i a \<and> nvlinked es b j) \<or> (nvlinked es i b \<and> nvlinked es a j)"
proof -
  have e: "set (es @ [(a, b)]) \<union> (set (es @ [(a, b)]))\<inverse> = insert (a, b) (insert (b, a) (set es \<union> (set es)\<inverse>))" by auto
  have "nvlinked (es @ [(a, b)]) i j \<longleftrightarrow> nvlinked es i j \<or> (nvlinked es i b \<and> nvlinked es a j) \<or>
      ((nvlinked es i a \<or> (nvlinked es i b \<and> nvlinked es a a)) \<and> (nvlinked es b j \<or> (nvlinked es b b \<and> nvlinked es a j)))"
    unfolding nvlinked_def e rtrancl_insert by blast
  then show ?thesis using nvlinked_trans by blast
qed

lemma uf_unions_ok:
  assumes "uf_ok p f r" "\<forall>i < length p. \<forall>j < length p. f i = f j \<longleftrightarrow> nvlinked done' i j"
    "\<forall>(a, b) \<in> set es. a < length p \<and> b < length p"
  shows "\<exists>p' f' r'. uf_unions es p = Some p' \<and> length p' = length p \<and> uf_ok p' f' r' \<and>
    (\<forall>i < length p. \<forall>j < length p. f' i = f' j \<longleftrightarrow> nvlinked (done' @ es) i j)"
  using assms
proof (induction es arbitrary: p f r done')
  case Nil
  then show ?case by auto
next
  case (Cons e es)
  obtain a b where e: "e = (a, b)" by (cases e)
  with Cons.prems(3) have ab: "a < length p" "b < length p" by auto
  let ?f = "\<lambda>i. if f i = f a then f b else f i"
  from uf_union_ok [OF Cons.prems(1) ab] obtain p1 r1 where
    1: "uf_union (a, b) p = Some p1" "length p1 = length p" "uf_ok p1 ?f r1" by blast
  have "\<forall>i < length p1. \<forall>j < length p1. ?f i = ?f j \<longleftrightarrow> nvlinked (done' @ [(a, b)]) i j"
    unfolding nvlinked_snoc 1(2) using Cons.prems(2) ab by metis
  from Cons.IH [OF 1(3) this] Cons.prems(3) 1 e show ?case by auto
qed

lemma uf_ok_init: "uf_ok [0..<n] id (\<lambda>_. 0)"
  by (simp add: uf_ok_def)

lemma row_edges_range: "(a, b) \<in> set (row_edges n line) \<Longrightarrow> a < b \<and> b < n"
  by (auto simp: row_edges_def in_set_enumerate_eq split: option.splits if_splits)

lemma parse_nvlink_edges_range: "\<forall>(a, b) \<in> set (parse_nvlink_edges matrix n). a < n \<and> b < n"
  using row_edges_range by (fastforce simp: parse_nvlink_edges_def)

definition grouped :: "(nat \<times> string) list \<Rightarrow> (nat \<times> nat) list \<Rightarrow> nat \<Rightarrow> bool" where
  "grouped m edges i \<longleftrightarrow> map_of m i \<noteq> None \<and> has_edge edges i"

text \<open>After the indices below \<open>k\<close>: the ids of the roots met so far, and the result built from them.\<close>

definition groups_ok :: "(nat \<times> string) list \<Rightarrow> (nat \<times> nat) list \<Rightarrow> (nat \<Rightarrow> nat) \<Rightarrow> nat \<Rightarrow> nat \<Rightarrow> group_acc \<Rightarrow> bool" where
  "groups_ok m edges f n k acc \<longleftrightarrow>
     length (gr_parent acc) = n \<and> (\<exists>r. uf_ok (gr_parent acc) f r) \<and>
     dom (gr_root_to_id acc) = f ` {i. i < k \<and> grouped m edges i} \<and>
     inj_on (gr_root_to_id acc) (dom (gr_root_to_id acc)) \<and>
     ran (gr_root_to_id acc) = {1..<gr_next_id acc} \<and> 1 \<le> gr_next_id acc \<and> gr_next_id acc \<le> Suc k \<and>
     (inj_on (map_of m) (dom (map_of m)) \<longrightarrow>
       (\<forall>i pci. i < k \<and> map_of m i = Some pci \<and> has_edge edges i \<longrightarrow> gr_result acc pci = gr_root_to_id acc (f i))) \<and>
     (\<forall>pci g. gr_result acc pci = Some g \<longrightarrow> (\<exists>i < k. map_of m i = Some pci \<and> has_edge edges i))"

lemma groups_okD:
  assumes "groups_ok m edges f n k acc"
  shows "dom (gr_root_to_id acc) = f ` {i. i < k \<and> grouped m edges i}" "inj_on (gr_root_to_id acc) (dom (gr_root_to_id acc))"
    "ran (gr_root_to_id acc) = {1..<gr_next_id acc}" "1 \<le> gr_next_id acc" "gr_next_id acc \<le> Suc k"
    "\<And>i pci. inj_on (map_of m) (dom (map_of m)) \<Longrightarrow> i < k \<Longrightarrow> map_of m i = Some pci \<Longrightarrow> has_edge edges i \<Longrightarrow> gr_result acc pci = gr_root_to_id acc (f i)"
    "\<And>pci g. gr_result acc pci = Some g \<Longrightarrow> \<exists>i < k. map_of m i = Some pci \<and> has_edge edges i"
  using assms unfolding groups_ok_def by blast+

lemma groups_okI:
  assumes "length (gr_parent acc) = n" "uf_ok (gr_parent acc) f r" "dom (gr_root_to_id acc) = f ` {i. i < k \<and> grouped m edges i}"
    "inj_on (gr_root_to_id acc) (dom (gr_root_to_id acc))" "ran (gr_root_to_id acc) = {1..<gr_next_id acc}"
    "1 \<le> gr_next_id acc" "gr_next_id acc \<le> Suc k"
    "inj_on (map_of m) (dom (map_of m)) \<Longrightarrow>
       \<forall>i pci. i < k \<and> map_of m i = Some pci \<and> has_edge edges i \<longrightarrow> gr_result acc pci = gr_root_to_id acc (f i)"
    "\<forall>pci g. gr_result acc pci = Some g \<longrightarrow> (\<exists>i < k. map_of m i = Some pci \<and> has_edge edges i)"
  shows "groups_ok m edges f n k acc"
  unfolding groups_ok_def using assms by blast

text \<open>One more grouped index: its address gets the id of its root.\<close>

lemma groups_ok_result:
  assumes "groups_ok m edges f n k acc" "map_of m k = Some pci" "has_edge edges k"
    "\<And>i. i < k \<Longrightarrow> grouped m edges i \<Longrightarrow> ids (f i) = gr_root_to_id acc (f i)" "ids (f k) = Some g"
  shows "inj_on (map_of m) (dom (map_of m)) \<Longrightarrow>
      \<forall>i pci'. i < Suc k \<and> map_of m i = Some pci' \<and> has_edge edges i \<longrightarrow> ((gr_result acc)(pci \<mapsto> g)) pci' = ids (f i)"
    "\<forall>pci' g'. ((gr_result acc)(pci \<mapsto> g)) pci' = Some g' \<longrightarrow> (\<exists>i < Suc k. map_of m i = Some pci' \<and> has_edge edges i)"
proof -
  assume inj: "inj_on (map_of m) (dom (map_of m))"
  have one: "i = k" if "map_of m i = Some pci" for i
    by (rule inj_onD [OF inj]) (use that assms(2) in auto)
  show "\<forall>i pci'. i < Suc k \<and> map_of m i = Some pci' \<and> has_edge edges i \<longrightarrow> ((gr_result acc)(pci \<mapsto> g)) pci' = ids (f i)"
  proof (intro allI impI)
    fix i pci' assume i: "i < Suc k \<and> map_of m i = Some pci' \<and> has_edge edges i"
    show "((gr_result acc)(pci \<mapsto> g)) pci' = ids (f i)"
    proof (cases "i = k")
      case True
      with i assms(2,5) show ?thesis by simp
    next
      case False
      with i one have "pci' \<noteq> pci" "i < k" by auto
      with i groups_okD(6) [OF assms(1) inj, of i pci'] assms(4) [of i] show ?thesis by (simp add: grouped_def)
    qed
  qed
next
  show "\<forall>pci' g'. ((gr_result acc)(pci \<mapsto> g)) pci' = Some g' \<longrightarrow> (\<exists>i < Suc k. map_of m i = Some pci' \<and> has_edge edges i)"
  proof (intro allI impI)
    fix pci' g' assume r: "((gr_result acc)(pci \<mapsto> g)) pci' = Some g'"
    show "\<exists>i < Suc k. map_of m i = Some pci' \<and> has_edge edges i"
    proof (cases "pci' = pci")
      case True
      with assms(2,3) show ?thesis by blast
    next
      case False
      with r groups_okD(7) [OF assms(1), of pci' g'] show ?thesis by (auto intro: less_SucI)
    qed
  qed
qed

lemma groups_ok_skip:
  assumes "groups_ok m edges f n k acc" "\<not> grouped m edges k"
  shows "groups_ok m edges f n (Suc k) acc"
proof -
  have s: "{i. i < Suc k \<and> grouped m edges i} = {i. i < k \<and> grouped m edges i}"
    using assms(2) by (auto simp: less_Suc_eq)
  have "\<forall>i pci. i < Suc k \<and> map_of m i = Some pci \<and> has_edge edges i \<longrightarrow> i < k"
    using assms(2) by (auto simp: less_Suc_eq grouped_def)
  note i = this
  from assms(1) obtain r where r: "length (gr_parent acc) = n" "uf_ok (gr_parent acc) f r" unfolding groups_ok_def by blast
  note o = groups_okD [OF assms(1)]
  show ?thesis
  proof (rule groups_okI [OF r])
    show "\<forall>pci g. gr_result acc pci = Some g \<longrightarrow> (\<exists>i < Suc k. map_of m i = Some pci \<and> has_edge edges i)"
      using o(7) less_SucI by blast
    show "\<forall>i pci. i < Suc k \<and> map_of m i = Some pci \<and> has_edge edges i \<longrightarrow> gr_result acc pci = gr_root_to_id acc (f i)"
      if "inj_on (map_of m) (dom (map_of m))" using o(6) [OF that] i by blast
  qed (use o s in simp_all)
qed

lemma groups_ok_known:
  assumes "groups_ok m edges f n k acc" "map_of m k = Some pci" "has_edge edges k" "gr_root_to_id acc (f k) = Some g"
    "length p = n" "uf_ok p f r'"
  shows "groups_ok m edges f n (Suc k) (acc\<lparr>gr_parent := p, gr_result := (gr_result acc)(pci \<mapsto> g)\<rparr>)"
proof -
  have s: "f ` {i. i < Suc k \<and> grouped m edges i} = f ` {i. i < k \<and> grouped m edges i}"
  proof -
    have "f k \<in> f ` {i. i < k \<and> grouped m edges i}" using assms(1,4) by (auto simp: groups_ok_def)
    moreover have "{i. i < Suc k \<and> grouped m edges i} = insert k {i. i < k \<and> grouped m edges i}"
      using assms(2,3) by (auto simp: less_Suc_eq grouped_def)
    ultimately show ?thesis by auto
  qed
  note r = groups_ok_result [OF assms(1-3) refl assms(4)]
  note o = groups_okD [OF assms(1)]
  show ?thesis
  proof (rule groups_okI [where r = r'])
    show "\<forall>i pci'. i < Suc k \<and> map_of m i = Some pci' \<and> has_edge edges i \<longrightarrow>
        gr_result (acc\<lparr>gr_parent := p, gr_result := (gr_result acc)(pci \<mapsto> g)\<rparr>) pci' =
        gr_root_to_id (acc\<lparr>gr_parent := p, gr_result := (gr_result acc)(pci \<mapsto> g)\<rparr>) (f i)"
      if "inj_on (map_of m) (dom (map_of m))" using r(1) [OF that] by simp
    show "\<forall>pci' g'. gr_result (acc\<lparr>gr_parent := p, gr_result := (gr_result acc)(pci \<mapsto> g)\<rparr>) pci' = Some g' \<longrightarrow>
        (\<exists>i < Suc k. map_of m i = Some pci' \<and> has_edge edges i)" using r(2) by simp
  qed (use o s assms(5,6) in simp_all)
qed

text \<open>A root met for the first time takes the next id.\<close>

lemma groups_ok_new:
  assumes "groups_ok m edges f n k acc" "map_of m k = Some pci" "has_edge edges k" "gr_root_to_id acc (f k) = None"
    "length p = n" "uf_ok p f r'" "Suc (gr_next_id acc) < 2 ^ 32"
  shows "groups_ok m edges f n (Suc k) \<lparr>gr_parent = p, gr_root_to_id = (gr_root_to_id acc)(f k \<mapsto> gr_next_id acc),
    gr_next_id = wrap_u32 (Suc (gr_next_id acc)), gr_result = (gr_result acc)(pci \<mapsto> gr_next_id acc)\<rparr>"
proof -
  let ?ids = "(gr_root_to_id acc)(f k \<mapsto> gr_next_id acc)"
  note o = groups_okD [OF assms(1)]
  have w: "wrap_u32 (Suc (gr_next_id acc)) = Suc (gr_next_id acc)" using assms(7) by (simp add: wrap_u32_def)
  have ids: "?ids (f i) = gr_root_to_id acc (f i)" if "i < k" "grouped m edges i" for i
  proof -
    have "f i \<in> dom (gr_root_to_id acc)" unfolding o(1) using that by blast
    then have "f i \<noteq> f k" using assms(4) by auto
    then show ?thesis by simp
  qed
  have "{i. i < Suc k \<and> grouped m edges i} = insert k {i. i < k \<and> grouped m edges i}"
    using assms(2,3) by (auto simp: less_Suc_eq grouped_def)
  then have d: "dom ?ids = f ` {i. i < Suc k \<and> grouped m edges i}" using o(1) by simp
  have new: "Some (gr_next_id acc) \<notin> gr_root_to_id acc ` dom (gr_root_to_id acc)"
    using o(3) by (auto simp: ran_def dom_def)
  have inj: "inj_on ?ids (dom ?ids)"
    using o(2) new assms(4) by (auto simp: inj_on_def domIff) (metis domI image_eqI)+
  have ran: "ran ?ids = {1..<Suc (gr_next_id acc)}"
    using o(3,4) ran_map_upd [of "gr_root_to_id acc" "f k" "gr_next_id acc", OF assms(4)] by auto
  note r = groups_ok_result [OF assms(1-3), of ?ids "gr_next_id acc", OF ids]
  show ?thesis
    by (rule groups_okI [where r = r']) (use d inj ran o(4,5) r assms(5,6) w in simp_all)
qed

lemma group_step_ok:
  assumes "groups_ok m edges f n k acc" "k < n" "n + 2 < 2 ^ 32"
  shows "\<exists>acc'. group_step m edges k acc = Some acc' \<and> groups_ok m edges f n (Suc k) acc'"
proof (cases "map_of m k")
  case None
  then show ?thesis using groups_ok_skip [OF assms(1)] by (simp add: group_step_def grouped_def)
next
  case (Some pci)
  show ?thesis
  proof (cases "has_edge edges k")
    case False
    then show ?thesis using groups_ok_skip [OF assms(1)] Some by (simp add: group_step_def grouped_def)
  next
    case True
    from assms(1) obtain r where "length (gr_parent acc) = n" "uf_ok (gr_parent acc) f r" unfolding groups_ok_def by blast
    with uf_find_ok [of "gr_parent acc" f r k] assms(2) obtain p where
      p: "uf_find (gr_parent acc) k = Some (f k, p)" "length p = n" "uf_ok p f r" by auto
    show ?thesis
    proof (cases "gr_root_to_id acc (f k)")
      case None
      have "Suc (gr_next_id acc) < 2 ^ 32" using groups_okD(5) [OF assms(1)] assms(2,3) by simp
      from groups_ok_new [OF assms(1) Some True None p(2,3) this] show ?thesis
        using Some True None p(1) by (simp add: group_step_def)
    next
      case g: (Some g)
      from groups_ok_known [OF assms(1) Some True g p(2,3)] show ?thesis
        using Some True g p(1) by (simp add: group_step_def)
    qed
  qed
qed

lemma group_loop_ok:
  assumes "groups_ok m edges f n k acc" "k \<le> n" "n + 2 < 2 ^ 32"
  shows "\<exists>acc'. group_loop m edges [k..<n] acc = Some acc' \<and> groups_ok m edges f n n acc'"
  using assms(1,2)
proof (induction "n - k" arbitrary: k acc)
  case 0
  then show ?case by simp
next
  case (Suc d)
  then have k: "k < n" by simp
  from group_step_ok [OF Suc.prems(1) k assms(3)] obtain acc1 where
    1: "group_step m edges k acc = Some acc1" "groups_ok m edges f n (Suc k) acc1" by blast
  from Suc.hyps(1) [OF _ 1(2)] Suc.hyps(2) k 1(1) show ?case by (simp add: upt_conv_Cons)
qed

lemma assign_nvlink_groups_ok:
  assumes "\<forall>(a, b) \<in> set edges. a < length m \<and> b < length m" "length m + 2 < 2 ^ 32"
  obtains f acc where "assign_nvlink_groups m edges = Some (gr_result acc)" "groups_ok m edges f (length m) (length m) acc"
    "\<forall>i < length m. \<forall>j < length m. f i = f j \<longleftrightarrow> nvlinked edges i j"
proof -
  let ?n = "length m"
  have w: "wrap_u32 ?n = ?n" using assms(2) by (simp add: wrap_u32_def)
  have init: "\<forall>i < length [0..<?n]. \<forall>j < length [0..<?n]. id i = id j \<longleftrightarrow> nvlinked [] i j" by (simp add: nvlinked_def)
  from uf_unions_ok [OF uf_ok_init init, of edges] assms(1) obtain p f r where
    p: "uf_unions edges [0..<?n] = Some p" "length p = ?n" "uf_ok p f r"
      "\<forall>i < ?n. \<forall>j < ?n. f i = f j \<longleftrightarrow> nvlinked edges i j" by auto
  let ?acc = "\<lparr>gr_parent = p, gr_root_to_id = Map.empty, gr_next_id = 1, gr_result = Map.empty\<rparr>"
  have "groups_ok m edges f ?n 0 ?acc" by (rule groups_okI [where r = r]) (use p in simp_all)
  from group_loop_ok [OF this _ assms(2)] obtain acc where
    acc: "group_loop m edges [0..<?n] ?acc = Some acc" "groups_ok m edges f ?n ?n acc" by blast
  have "\<not> list_ex (\<lambda>(a, b). ?n \<le> a \<or> ?n \<le> b) edges" using assms(1) by (auto simp: list_ex_iff)
  with p acc have "assign_nvlink_groups m edges = Some (gr_result acc)" by (simp add: assign_nvlink_groups_def w)
  with acc(2) p(4) show ?thesis by (rule_tac that)
qed

subsection \<open>Properties\<close>

text \<open>
  C39.  Topology discovery always ends, and never indexes out of range: whatever text the two
  \<open>nvidia-smi\<close> calls print, every pass of every \<open>find\<close> loop of the union-find ends and the
  result is a map (for fewer than \<open>2 ^ 32 - 2\<close> GPUs, beyond which the group counter wraps).
\<close>

theorem nvlink_discovery_total:
  assumes "length (parse_index_to_pci query) + 2 < 2 ^ 32"
  shows "\<exists>groups. nvlink_groups_from_nvidia_smi topo query = Some groups"
  using assign_nvlink_groups_ok [OF parse_nvlink_edges_range assms]
  by (metis nvlink_groups_from_nvidia_smi_def)

text \<open>
  C38.  NVLink groups are the connected components of the NVLink matrix.  When the reported bus
  addresses are distinct, a GPU has a group iff it has an NVLink edge, two GPUs have the same
  group iff a path of NVLink edges joins them, groups are numbered from 1, and no other address
  is in the result: the union-find with path halving computes exactly reachability.
\<close>

theorem nvlink_groups_are_components:
  assumes "length m + 2 < 2 ^ 32" "\<forall>(a, b) \<in> set edges. a < length m \<and> b < length m"
    and "inj_on (map_of m) (dom (map_of m))" "assign_nvlink_groups m edges = Some groups"
  shows "(\<forall>i < length m. \<forall>pci. map_of m i = Some pci \<longrightarrow> (groups pci \<noteq> None \<longleftrightarrow> has_edge edges i)) \<and>
    (\<forall>i < length m. \<forall>j < length m. \<forall>pi pj. map_of m i = Some pi \<and> map_of m j = Some pj \<and> has_edge edges i \<and> has_edge edges j \<longrightarrow>
       (groups pi = groups pj \<longleftrightarrow> nvlinked edges i j)) \<and>
    (\<forall>pci g. groups pci = Some g \<longrightarrow> 1 \<le> g \<and> g \<le> length m \<and> (\<exists>i < length m. map_of m i = Some pci))"
proof -
  obtain f acc where a: "assign_nvlink_groups m edges = Some (gr_result acc)" "groups_ok m edges f (length m) (length m) acc"
    and f: "\<forall>i < length m. \<forall>j < length m. f i = f j \<longleftrightarrow> nvlinked edges i j"
    by (rule assign_nvlink_groups_ok [OF assms(2,1)])
  with assms(4) have acc: "gr_result acc = groups" "groups_ok m edges f (length m) (length m) acc" by simp_all
  note o = groups_okD [OF acc(2), unfolded acc(1)]
  have root: "f i \<in> dom (gr_root_to_id acc)" if "i < length m" "map_of m i = Some pci" "has_edge edges i" for i pci
    unfolding o(1) using that by (auto simp: grouped_def)
  have one: "i = j" if "map_of m i = Some pci" "map_of m j = Some pci" for i j pci
    by (rule inj_onD [OF assms(3)]) (use that in auto)
  have 1: "groups pci \<noteq> None \<longleftrightarrow> has_edge edges i" if "i < length m" "map_of m i = Some pci" for i pci
    using o(6) [OF assms(3) that] o(7) [of pci] root [OF that] one [OF that(2)] by (auto simp: domIff)
  have 2: "groups pi = groups pj \<longleftrightarrow> nvlinked edges i j"
    if "i < length m" "j < length m" "map_of m i = Some pi" "map_of m j = Some pj" "has_edge edges i" "has_edge edges j" for i j pi pj
    unfolding o(6) [OF assms(3) that(1,3,5)] o(6) [OF assms(3) that(2,4,6)]
    using inj_on_eq_iff [OF o(2) root [OF that(1,3,5)] root [OF that(2,4,6)]] f that by simp
  have 3: "1 \<le> g \<and> g \<le> length m \<and> (\<exists>i < length m. map_of m i = Some pci)" if g: "groups pci = Some g" for pci g
  proof -
    from o(7) [OF g] obtain i where i: "i < length m" "map_of m i = Some pci" "has_edge edges i" by blast
    with o(6) [OF assms(3) i] g have "g \<in> ran (gr_root_to_id acc)" by (auto simp: ran_def)
    with o(3,5) i show ?thesis by auto
  qed
  show ?thesis using 1 2 3 by blast
qed

definition example_smi_query :: string where
  "example_smi_query = ''0, 00000000:41:00.0'' @ [CHR 0x0A] @ ''1, 00000000:42:00.0'' @ [CHR 0x0A]"

lemma example_smi_pci: "parse_index_to_pci example_smi_query = [(0, ''00000000:41:00.0''), (1, ''00000000:42:00.0'')]"
  by (simp add: example_smi_query_def parse_index_to_pci_def text_lines_def strip_cr_def strip_suffix_def trim_def trim_start_def
      is_whitespace_def parse_uint_def is_digit_def digits_val_def to_lowercase_def u32_max_def Let_def)

text \<open>Witness of C39: the query output of a host with two GPUs, with any topology matrix.\<close>

theorem nvlink_discovery_total_witness: "\<forall>topo. \<exists>groups. nvlink_groups_from_nvidia_smi topo example_smi_query = Some groups"
  using nvlink_discovery_total [of example_smi_query] by (simp add: example_smi_pci)

text \<open>Witness of C38: edges 0-1 and 1-2 among four GPUs.\<close>

theorem nvlink_groups_are_components_witness:
  "\<exists>groups. assign_nvlink_groups [(0, ''a''), (1, ''b''), (2, ''c''), (3, ''d'')] [(0, 1), (1, 2)] = Some groups \<and>
     groups ''a'' = groups ''c'' \<and> groups ''a'' \<noteq> None \<and> groups ''d'' = None"
proof -
  let ?m = "[(0, ''a''), (1, ''b''), (2, ''c''), (3 :: nat, ''d'')]" and ?es = "[(0, 1), (1, 2 :: nat)]"
  have r: "\<forall>(a, b) \<in> set ?es. a < length ?m \<and> b < length ?m" "length ?m + 2 < 2 ^ 32" by simp_all
  obtain groups where g: "assign_nvlink_groups ?m ?es = Some groups" using assign_nvlink_groups_ok [OF r] by blast
  have inj: "inj_on (map_of ?m) (dom (map_of ?m))" by (auto simp: inj_on_def)
  note t = nvlink_groups_are_components [OF r(2,1) inj g]
  have "nvlinked ?es 0 2" unfolding nvlinked_def by (rule rtrancl_trans [of _ 1]; rule r_into_rtrancl) simp_all
  moreover have e: "has_edge ?es 0" "has_edge ?es 2" "\<not> has_edge ?es 3" by (simp_all add: has_edge_def)
  ultimately have "groups ''a'' = groups ''c''" using conjunct1 [OF conjunct2 [OF t], rule_format, of 0 2 "''a''" "''c''"] by simp
  moreover have "groups ''a'' \<noteq> None" "groups ''d'' = None"
    using conjunct1 [OF t, rule_format, of 0 "''a''"] conjunct1 [OF t, rule_format, of 3 "''d''"] e by simp_all
  ultimately have "groups ''a'' = groups ''c''" "groups ''a'' \<noteq> None" "groups ''d'' = None" by simp_all
  with g show ?thesis by blast
qed

text \<open>
  The bus addresses of \<open>nvidia-smi\<close> and of \<open>lspci -D\<close> have different lengths: the former print an
  eight-digit domain, the latter four digits.  The overlay looks up one in a map keyed by the
  other, so on such outputs every discovered GPU keeps group 0, whatever the NVLink matrix says.
\<close>

lemma discover_gpus_overlay:
  assumes "discover_gpus iommu (Some out) (Some (topo, query)) = Some (Inr gpus)"
  obtains groups base where "nvlink_groups_from_nvidia_smi topo query = Some groups" "gpus = map (overlay_group groups) base"
    "fold_res (scan_line iommu) (text_lines out) [] = Inr base"
  using assms by (auto simp: discover_gpus_def split: sum.splits)

lemma scanned_ungrouped: "fold_res (scan_line iommu) ls [] = Inr gs \<Longrightarrow> \<forall>g \<in> set gs. gi_nvlink_group g = 0"
  by (erule fold_res_invariant [where I = "\<lambda>gs. \<forall>g \<in> set gs. gi_nvlink_group g = 0"])
     (auto simp: scan_line_def split: if_splits list.splits option.splits)

theorem wide_bus_ids_stay_ungrouped:
  assumes "discover_gpus iommu (Some out) (Some (topo, query)) = Some (Inr gpus)"
    and "length (parse_index_to_pci query) + 2 < 2 ^ 32" "\<forall>a \<in> snd ` set (parse_index_to_pci query). length a = 16"
  shows "\<forall>g \<in> set gpus. length (gi_pci_address g) = 12 \<longrightarrow> gi_nvlink_group g = 0"
proof -
  let ?m = "parse_index_to_pci query"
  from assms(1) obtain groups base where d: "nvlink_groups_from_nvidia_smi topo query = Some groups"
    "gpus = map (overlay_group groups) base" "fold_res (scan_line iommu) (text_lines out) [] = Inr base"
    by (rule discover_gpus_overlay)
  obtain f acc where a: "assign_nvlink_groups ?m (parse_nvlink_edges topo (length ?m)) = Some (gr_result acc)"
    "groups_ok ?m (parse_nvlink_edges topo (length ?m)) f (length ?m) (length ?m) acc"
    by (rule assign_nvlink_groups_ok [OF parse_nvlink_edges_range assms(2)])
  with d(1) have "groups = gr_result acc" by (simp add: nvlink_groups_from_nvidia_smi_def)
  then have "length pci = 16" if "groups pci = Some g" for pci g
    using groups_okD(7) [OF a(2), of pci g] that assms(3) by (force dest: map_of_SomeD)
  then have "groups pci = None" if "length pci = 12" for pci using that by (cases "groups pci") auto
  moreover have "length (to_lowercase s) = length s" for s by (simp add: to_lowercase_def)
  ultimately show ?thesis using scanned_ungrouped [OF d(3)] by (auto simp: d(2) overlay_group_def split: option.splits)
qed

end
