(* ===== verification/Agent_Lvm.thy ===== *)
theory Agent_Lvm
  imports Text Db_Rows
begin

text \<open>
  Data disks of the host agent (\<open>basis-agent/src/lvm.rs\<close>, the configuration checks of
  \<open>basis-agent/src/config.rs\<close>): the names of logical volumes, the reservation ledger and the LVM
  backend's allocate, release and reconcile.  The LVM tools are a parameter, a state \<open>'h\<close> with
  the operations the code runs on it; each may fail.  A timeout on the backend's semaphore is a
  parameter as well.
\<close>

subsection \<open>Configuration\<close>

datatype PoolBackend = LvmLinear | RawDisk | NvmeNamespace

definition PoolBackend_as_str :: "PoolBackend \<Rightarrow> string" where
  "PoolBackend_as_str b = (case b of LvmLinear \<Rightarrow> ''lvm-linear'' | RawDisk \<Rightarrow> ''raw-disk'' | NvmeNamespace \<Rightarrow> ''nvme-namespace'')"

record PoolDeviceSpec =
  xd_id :: string
  xd_vg :: "string option"
  xd_size_gib :: nat

record PoolSpec =
  xp_name :: string
  xp_backend :: PoolBackend
  xp_labels :: labels
  xp_devices :: "PoolDeviceSpec list"

datatype StorageSpecError = DuplicatePool string | UnsupportedBackend string | DeviceTwice string | MissingVg string | VgTwice string

text \<open>The sets of names seen so far; the error is the first one met.\<close>

fun validate_devices ::
  "PoolDeviceSpec list \<Rightarrow> string set \<times> string set \<Rightarrow> (StorageSpecError, string set \<times> string set) res" where
  "validate_devices [] (ids, vgs) = Inr (ids, vgs)"
| "validate_devices (dev # devs) (ids, vgs) =
     (if xd_id dev \<in> ids then Inl (DeviceTwice (xd_id dev))
      else case xd_vg dev of
        None \<Rightarrow> Inl (MissingVg (xd_id dev))
      | Some vg \<Rightarrow> if vg \<in> vgs then Inl (VgTwice vg) else validate_devices devs (insert (xd_id dev) ids, insert vg vgs))"

fun validate_pool_specs ::
  "PoolSpec list \<Rightarrow> string set \<Rightarrow> string set \<times> string set \<Rightarrow> (StorageSpecError, unit) res" where
  "validate_pool_specs [] names seen = Inr ()"
| "validate_pool_specs (p # ps) names seen =
     (if xp_name p \<in> names then Inl (DuplicatePool (xp_name p))
      else if xp_backend p \<noteq> LvmLinear then Inl (UnsupportedBackend (xp_name p))
      else and_then (validate_devices (xp_devices p) seen) (validate_pool_specs ps (insert (xp_name p) names)))"

definition StorageSpec_validate :: "PoolSpec list \<Rightarrow> (StorageSpecError, unit) res" where
  "StorageSpec_validate pools = validate_pool_specs pools {} ({}, {})"

subsection \<open>Names\<close>

definition DATA_LV_PREFIX :: string where "DATA_LV_PREFIX = ''basis-data-''"

definition lv_name :: "string \<Rightarrow> nat \<Rightarrow> string" where
  "lv_name vmid disk_index = DATA_LV_PREFIX @ vmid @ ''-'' @ show_nat disk_index"

definition lv_path :: "string \<Rightarrow> string \<Rightarrow> string" where
  "lv_path vg lv = ''/dev/'' @ vg @ ''/'' @ lv"

definition parse_data_disk_lv_name :: "string \<Rightarrow> (string \<times> nat) option" where
  "parse_data_disk_lv_name name =
     (case strip_prefix DATA_LV_PREFIX name of
        None \<Rightarrow> None
      | Some rest \<Rightarrow> (case rsplit_once (\<lambda>c. c = CHR ''-'') rest of
          None \<Rightarrow> None
        | Some (vmid, index_str) \<Rightarrow>
            if vmid = [] then None else map_option (Pair vmid) (parse_uint u32_max index_str)))"

subsection \<open>The tools and the ledger\<close>

record 'h lvm_tools =
  lv_lines :: "'h \<Rightarrow> string \<Rightarrow> string list option"
  lv_attrs :: "'h \<Rightarrow> string \<Rightarrow> string \<Rightarrow> string option"
  lv_create :: "string \<Rightarrow> string \<Rightarrow> nat \<Rightarrow> 'h \<Rightarrow> 'h option"
  lv_remove :: "string \<Rightarrow> string \<Rightarrow> 'h \<Rightarrow> 'h option"
  lv_create_thin :: "string \<Rightarrow> string \<Rightarrow> string \<Rightarrow> nat \<Rightarrow> 'h \<Rightarrow> 'h option"
  lv_snapshot :: "string \<Rightarrow> string \<Rightarrow> string \<Rightarrow> 'h \<Rightarrow> 'h option"
  lv_extend :: "string \<Rightarrow> string \<Rightarrow> nat \<Rightarrow> 'h \<Rightarrow> (string, 'h) res"
  lv_readonly :: "string \<Rightarrow> string \<Rightarrow> 'h \<Rightarrow> 'h option"
  qemu_convert :: "string \<Rightarrow> string \<Rightarrow> string \<Rightarrow> 'h \<Rightarrow> bool option \<times> 'h"

definition lv_attr :: "'h lvm_tools \<Rightarrow> 'h \<Rightarrow> string \<Rightarrow> string \<Rightarrow> string option option" where
  "lv_attr t h vg n = map_option (\<lambda>out. if trim out = [] then None else Some (trim out)) (lv_attrs t h vg n)"

definition attr_is_readonly :: "string \<Rightarrow> bool" where
  "attr_is_readonly attr \<longleftrightarrow> (case attr of _ # c # _ \<Rightarrow> c = CHR ''r'' | _ \<Rightarrow> False)"

text \<open>
  What the tools do to the volumes \<open>lvs h vg\<close> of a group: the two queries answer for them, and a
  command that succeeds removes or adds the volume it names.
\<close>

definition lvm_spec :: "'h lvm_tools \<Rightarrow> ('h \<Rightarrow> string \<Rightarrow> string set) \<Rightarrow> bool" where
  "lvm_spec t lvs \<longleftrightarrow>
     (\<forall>h vg ls. lv_lines t h vg = Some ls \<longrightarrow> trim ` set ls = lvs h vg) \<and>
     (\<forall>h vg n a. lv_attr t h vg n = Some a \<longrightarrow> (a \<noteq> None) = (n \<in> lvs h vg)) \<and>
     (\<forall>vg n h h'. lv_remove t vg n h = Some h' \<longrightarrow> lvs h' = (lvs h)(vg := lvs h vg - {n})) \<and>
     (\<forall>vg n k h h'. lv_create t vg n k h = Some h' \<longrightarrow> lvs h' = (lvs h)(vg := insert n (lvs h vg))) \<and>
     (\<forall>vg n orig h h'. lv_snapshot t vg n orig h = Some h' \<longrightarrow> lvs h' = (lvs h)(vg := insert n (lvs h vg))) \<and>
     (\<forall>vg n k h h'. lv_extend t vg n k h = Inr h' \<longrightarrow> lvs h' = lvs h)"

record LvmReservationRow =
  lr_assignment_id :: string
  lr_pool :: string
  lr_device_id :: string
  lr_vg :: string
  lr_lv_name :: string
  lr_vm_id :: string
  lr_disk_index :: int
  lr_size_gib :: int
  lr_state :: string

record 'h disk_world =
  dw_rows :: "LvmReservationRow list"
  dw_hw :: 'h

datatype LvmError =
    VgMissing string | ThinPoolMissing string string | NotThinPool string string string
  | VgPvCountWrong string nat | ForeignLv string string | PoolNotFound string | DeviceNotInPool string string
  | DeviceNotReady string string | InsufficientCapacity string string nat nat
  | AssignmentConflict string string nat | LvmCommand | ImageConvert | LvmDb | LvmBusy string

record DiskAllocationRequest =
  ar_assignment_id :: string
  ar_device_id :: string
  ar_vm_id :: string
  ar_disk_index :: nat
  ar_min_size_gib :: nat

record Allocation =
  al_path :: string
  al_actual_size_gib :: nat

text \<open>A pool's backend: its name and the volume group of each device.\<close>

record backend =
  be_pool :: string
  be_device_vgs :: "(string \<times> string) list"

definition backend_of :: "PoolSpec \<Rightarrow> backend" where
  "backend_of p = \<lparr>be_pool = xp_name p, be_device_vgs = map (\<lambda>d. (xd_id d, case xd_vg d of Some vg \<Rightarrow> vg | None \<Rightarrow> '''')) (xp_devices p)\<rparr>"

definition lookup_assignment :: "string \<Rightarrow> LvmReservationRow list \<Rightarrow> LvmReservationRow option" where
  "lookup_assignment i rows = find (\<lambda>r. lr_assignment_id r = i) rows"

definition delete_reservation :: "string \<Rightarrow> LvmReservationRow list \<Rightarrow> LvmReservationRow list" where
  "delete_reservation i = del_rows (\<lambda>r. lr_assignment_id r = i)"

definition set_reservation_state :: "string \<Rightarrow> string \<Rightarrow> LvmReservationRow list \<Rightarrow> LvmReservationRow list" where
  "set_reservation_state i st = upd_rows (\<lambda>r. lr_assignment_id r = i) (\<lambda>r. r\<lparr>lr_state := st\<rparr>)"

text \<open>The ledger's keys: the assignment, the disk of the machine, the volume.\<close>

definition insert_reservation :: "LvmReservationRow \<Rightarrow> LvmReservationRow list \<Rightarrow> LvmReservationRow list option" where
  "insert_reservation r rows =
     (if list_ex (\<lambda>q. lr_assignment_id q = lr_assignment_id r \<or> (lr_vm_id q = lr_vm_id r \<and> lr_disk_index q = lr_disk_index r) \<or>
            (lr_vg q = lr_vg r \<and> lr_lv_name q = lr_lv_name r)) rows
      then None else Some (rows @ [r]))"

subsection \<open>Allocate\<close>

definition new_reservation :: "backend \<Rightarrow> string \<Rightarrow> DiskAllocationRequest \<Rightarrow> LvmReservationRow" where
  "new_reservation b vg req = \<lparr>lr_assignment_id = ar_assignment_id req, lr_pool = be_pool b, lr_device_id = ar_device_id req,
     lr_vg = vg, lr_lv_name = lv_name (ar_vm_id req) (ar_disk_index req), lr_vm_id = ar_vm_id req,
     lr_disk_index = int (ar_disk_index req), lr_size_gib = as_i64 (ar_min_size_gib req), lr_state = ''Creating''\<rparr>"

text \<open>After the reservation: sweep a stale volume of the name, create it, and mark the row ready.\<close>

definition make_volume ::
  "'h lvm_tools \<Rightarrow> bool \<Rightarrow> backend \<Rightarrow> string \<Rightarrow> DiskAllocationRequest \<Rightarrow> 'h disk_world \<Rightarrow> (LvmError, Allocation) res \<times> 'h disk_world" where
  "make_volume t permit b vg req w =
     (let lv = lv_name (ar_vm_id req) (ar_disk_index req) in
      if \<not> permit then (Inl (LvmBusy (be_pool b)), w)
      else case lv_attr t (dw_hw w) vg lv of
        None \<Rightarrow> (Inl LvmCommand, w)
      | Some stale \<Rightarrow>
     (case (if stale \<noteq> None then lv_remove t vg lv (dw_hw w) else Some (dw_hw w)) of
        None \<Rightarrow> (Inl LvmCommand, w)
      | Some h1 \<Rightarrow>
     (case lv_create t vg lv (ar_min_size_gib req) h1 of
        None \<Rightarrow> (Inl LvmCommand, w\<lparr>dw_hw := h1\<rparr>)
      | Some h2 \<Rightarrow>
          (Inr \<lparr>al_path = lv_path vg lv, al_actual_size_gib = ar_min_size_gib req\<rparr>,
           w\<lparr>dw_rows := set_reservation_state (ar_assignment_id req) ''Ready'' (dw_rows w), dw_hw := h2\<rparr>))))"

definition reserve ::
  "'h lvm_tools \<Rightarrow> bool \<Rightarrow> backend \<Rightarrow> DiskAllocationRequest \<Rightarrow> 'h disk_world \<Rightarrow> (LvmError, Allocation) res \<times> 'h disk_world" where
  "reserve t permit b req w =
     (if list_ex (\<lambda>r. lr_vm_id r = ar_vm_id req \<and> lr_disk_index r = int (ar_disk_index req) \<and>
            lr_assignment_id r \<noteq> ar_assignment_id req) (dw_rows w)
      then (Inl (AssignmentConflict (ar_assignment_id req) (ar_vm_id req) (ar_disk_index req)), w)
      else case map_of (be_device_vgs b) (ar_device_id req) of
        None \<Rightarrow> (Inl (DeviceNotInPool (be_pool b) (ar_device_id req)), w)
      | Some vg \<Rightarrow>
     (case insert_reservation (new_reservation b vg req) (dw_rows w) of
        None \<Rightarrow> (Inl LvmDb, w)
      | Some rows \<Rightarrow> make_volume t permit b vg req (w\<lparr>dw_rows := rows\<rparr>)))"

definition allocate ::
  "'h lvm_tools \<Rightarrow> bool \<Rightarrow> backend \<Rightarrow> DiskAllocationRequest \<Rightarrow> 'h disk_world \<Rightarrow> (LvmError, Allocation) res \<times> 'h disk_world" where
  "allocate t permit b req w =
     (case lookup_assignment (ar_assignment_id req) (dw_rows w) of
        Some r \<Rightarrow>
          if lr_state r = ''Ready''
          then (Inr \<lparr>al_path = lv_path (lr_vg r) (lr_lv_name r), al_actual_size_gib = as_u64 (lr_size_gib r)\<rparr>, w)
          else reserve t permit b req (w\<lparr>dw_rows := delete_reservation (ar_assignment_id req) (dw_rows w)\<rparr>)
      | None \<Rightarrow> reserve t permit b req w)"

subsection \<open>Release and reconcile\<close>

fun release_rows :: "'h lvm_tools \<Rightarrow> LvmReservationRow list \<Rightarrow> 'h disk_world \<Rightarrow> (LvmError, unit) res \<times> 'h disk_world" where
  "release_rows t [] w = (Inr (), w)"
| "release_rows t (r # rs) w =
     (case lv_remove t (lr_vg r) (lr_lv_name r) (dw_hw w) of
        None \<Rightarrow> (Inl LvmCommand, w)
      | Some h \<Rightarrow> release_rows t rs (w\<lparr>dw_rows := delete_reservation (lr_assignment_id r) (dw_rows w), dw_hw := h\<rparr>))"

definition release :: "'h lvm_tools \<Rightarrow> bool \<Rightarrow> backend \<Rightarrow> string \<Rightarrow> 'h disk_world \<Rightarrow> (LvmError, unit) res \<times> 'h disk_world" where
  "release t permit b vmid w =
     (let rows = filter (\<lambda>r. lr_pool r = be_pool b \<and> lr_vm_id r = vmid) (dw_rows w) in
      if rows = [] then (Inr (), w)
      else let w1 = w\<lparr>dw_rows := fold (\<lambda>r. set_reservation_state (lr_assignment_id r) ''Deleting'') rows (dw_rows w)\<rparr> in
        if \<not> permit then (Inl (LvmBusy (be_pool b)), w1) else release_rows t rows w1)"

fun release_vm_disks :: "'h lvm_tools \<Rightarrow> bool \<Rightarrow> backend list \<Rightarrow> string \<Rightarrow> 'h disk_world \<Rightarrow> (LvmError, unit) res \<times> 'h disk_world" where
  "release_vm_disks t permit [] vmid w = (Inr (), w)"
| "release_vm_disks t permit (b # bs) vmid w =
     (case release t permit b vmid w of
        (Inl e, w') \<Rightarrow> (Inl e, w')
      | (Inr _, w') \<Rightarrow> release_vm_disks t permit bs vmid w')"

record LostReservation =
  ls_assignment_id :: string
  ls_vm_id :: string
  ls_disk_index :: nat
  ls_pool :: string
  ls_device_id :: string

record ReconcileReport =
  rr_orphans_removed :: nat
  rr_creating_resolved :: nat
  rr_deleting_resolved :: nat
  rr_lost :: "LostReservation list"

text \<open>Removing a row's volume under the permit, and then the row.\<close>

definition drop_volume ::
  "'h lvm_tools \<Rightarrow> bool \<Rightarrow> backend \<Rightarrow> LvmReservationRow \<Rightarrow> 'h disk_world \<Rightarrow> (LvmError, unit) res \<times> 'h disk_world" where
  "drop_volume t permit b r w =
     (if \<not> permit then (Inl (LvmBusy (be_pool b)), w)
      else case lv_remove t (lr_vg r) (lr_lv_name r) (dw_hw w) of
        None \<Rightarrow> (Inl LvmCommand, w)
      | Some h \<Rightarrow> (Inr (), w\<lparr>dw_rows := delete_reservation (lr_assignment_id r) (dw_rows w), dw_hw := h\<rparr>))"

definition reconcile_row ::
  "'h lvm_tools \<Rightarrow> bool \<Rightarrow> backend \<Rightarrow> string set \<Rightarrow> LvmReservationRow \<Rightarrow> 'h disk_world \<times> ReconcileReport \<Rightarrow>
   (LvmError, unit) res \<times> 'h disk_world \<times> ReconcileReport" where
  "reconcile_row t permit b live r s =
     (let (w, rep) = s; i = lr_assignment_id r; alive = lr_vm_id r \<in> live in
      case map_option (\<lambda>a. a \<noteq> None) (lv_attr t (dw_hw w) (lr_vg r) (lr_lv_name r)) of
        None \<Rightarrow> (Inl LvmCommand, w, rep)
      | Some present \<Rightarrow>
          if lr_state r = ''Creating'' \<and> present \<and> alive then
            (Inr (), w\<lparr>dw_rows := set_reservation_state i ''Ready'' (dw_rows w)\<rparr>, rep\<lparr>rr_creating_resolved := Suc (rr_creating_resolved rep)\<rparr>)
          else if lr_state r = ''Creating'' then
            (Inr (), w\<lparr>dw_rows := delete_reservation i (dw_rows w)\<rparr>, rep\<lparr>rr_creating_resolved := Suc (rr_creating_resolved rep)\<rparr>)
          else if lr_state r = ''Deleting'' \<and> present then
            (case drop_volume t permit b r w of
               (Inl e, w') \<Rightarrow> (Inl e, w', rep)
             | (Inr _, w') \<Rightarrow> (Inr (), w', rep\<lparr>rr_deleting_resolved := Suc (rr_deleting_resolved rep)\<rparr>))
          else if lr_state r = ''Deleting'' then
            (Inr (), w\<lparr>dw_rows := delete_reservation i (dw_rows w)\<rparr>, rep\<lparr>rr_deleting_resolved := Suc (rr_deleting_resolved rep)\<rparr>)
          else if lr_state r = ''Ready'' \<and> \<not> present then
            (Inr (), w, rep\<lparr>rr_lost := rr_lost rep @ [\<lparr>ls_assignment_id = i, ls_vm_id = lr_vm_id r,
               ls_disk_index = as_u32 (lr_disk_index r), ls_pool = lr_pool r, ls_device_id = lr_device_id r\<rparr>]\<rparr>)
          else if lr_state r = ''Ready'' \<and> \<not> alive then
            (case drop_volume t permit b r w of (res, w') \<Rightarrow> (res, w', rep))
          else (Inr (), w, rep))"

fun reconcile_rows ::
  "'h lvm_tools \<Rightarrow> (nat \<Rightarrow> bool) \<Rightarrow> backend \<Rightarrow> string set \<Rightarrow> nat \<Rightarrow> LvmReservationRow list \<Rightarrow> 'h disk_world \<times> ReconcileReport \<Rightarrow>
   (LvmError, unit) res \<times> 'h disk_world \<times> ReconcileReport" where
  "reconcile_rows t permits b live k [] s = (Inr (), s)"
| "reconcile_rows t permits b live k (r # rs) s =
     (case reconcile_row t (permits k) b live r s of
        (Inl e, s') \<Rightarrow> (Inl e, s')
      | (Inr _, s') \<Rightarrow> reconcile_rows t permits b live (Suc k) rs s')"

text \<open>One volume of the orphan sweep; \<open>claimed\<close> are the volumes of the rows read at the start.\<close>

fun sweep_names ::
  "'h lvm_tools \<Rightarrow> (nat \<Rightarrow> bool) \<Rightarrow> backend \<Rightarrow> string set \<Rightarrow> (string \<times> string) set \<Rightarrow> string \<Rightarrow> nat \<Rightarrow> string list \<Rightarrow>
   'h disk_world \<times> ReconcileReport \<Rightarrow> (LvmError, unit) res \<times> 'h disk_world \<times> ReconcileReport" where
  "sweep_names t permits b live claimed vg k [] s = (Inr (), s)"
| "sweep_names t permits b live claimed vg k (n # ns) s =
     (case parse_data_disk_lv_name n of
        None \<Rightarrow> sweep_names t permits b live claimed vg (Suc k) ns s
      | Some (vmid, _) \<Rightarrow>
          if (vg, n) \<in> claimed \<or> vmid \<in> live then sweep_names t permits b live claimed vg (Suc k) ns s
          else if \<not> permits k then (Inl (LvmBusy (be_pool b)), s)
          else case lv_remove t vg n (dw_hw (fst s)) of
            None \<Rightarrow> (Inl LvmCommand, s)
          | Some h \<Rightarrow> sweep_names t permits b live claimed vg (Suc k) ns
              ((fst s)\<lparr>dw_hw := h\<rparr>, (snd s)\<lparr>rr_orphans_removed := Suc (rr_orphans_removed (snd s))\<rparr>))"

fun sweep_vgs ::
  "'h lvm_tools \<Rightarrow> (nat \<Rightarrow> bool) \<Rightarrow> backend \<Rightarrow> string set \<Rightarrow> (string \<times> string) set \<Rightarrow> nat \<Rightarrow> string list \<Rightarrow>
   'h disk_world \<times> ReconcileReport \<Rightarrow> (LvmError, unit) res \<times> 'h disk_world \<times> ReconcileReport" where
  "sweep_vgs t permits b live claimed k [] s = (Inr (), s)"
| "sweep_vgs t permits b live claimed k (vg # vgs) s =
     (case lv_lines t (dw_hw (fst s)) vg of
        None \<Rightarrow> (Inl LvmCommand, s)
      | Some ls \<Rightarrow> (case sweep_names t permits b live claimed vg k (map trim ls) s of
          (Inl e, s') \<Rightarrow> (Inl e, s')
        | (Inr _, s') \<Rightarrow> sweep_vgs t permits b live claimed (k + length ls) vgs s'))"

text \<open>\<open>permits k\<close>: whether the \<open>k\<close>-th wait for the semaphore succeeds.\<close>

definition backend_reconcile ::
  "'h lvm_tools \<Rightarrow> (nat \<Rightarrow> bool) \<Rightarrow> backend \<Rightarrow> string set \<Rightarrow> 'h disk_world \<Rightarrow>
   (LvmError, unit) res \<times> 'h disk_world \<times> ReconcileReport" where
  "backend_reconcile t permits b live w =
     (let rows = filter (\<lambda>r. lr_pool r = be_pool b) (dw_rows w);
          rep = \<lparr>rr_orphans_removed = 0, rr_creating_resolved = 0, rr_deleting_resolved = 0, rr_lost = []\<rparr> in
      case reconcile_rows t permits b live 0 rows (w, rep) of
        (Inl e, s) \<Rightarrow> (Inl e, s)
      | (Inr _, s) \<Rightarrow> sweep_vgs t permits b live ((\<lambda>r. (lr_vg r, lr_lv_name r)) ` set rows) (length rows)
          (map snd (be_device_vgs b)) s)"

text \<open>The machines with a volume in the pool.\<close>

fun managed_vm_ids :: "'h lvm_tools \<Rightarrow> 'h \<Rightarrow> string list \<Rightarrow> string set option" where
  "managed_vm_ids t h [] = Some {}"
| "managed_vm_ids t h (vg # vgs) =
     (case lv_lines t h vg of
        None \<Rightarrow> None
      | Some ls \<Rightarrow> map_option (\<lambda>s. fst ` set (List.map_filter (\<lambda>l. parse_data_disk_lv_name (trim l)) ls) \<union> s) (managed_vm_ids t h vgs))"

subsection \<open>The root volumes\<close>

definition IMAGE_LV_PREFIX :: string where "IMAGE_LV_PREFIX = ''image-''"

definition VM_LV_PREFIX :: string where "VM_LV_PREFIX = ''vm-''"

record RootfsConfig =
  rf_vg :: string
  rf_thin_pool :: string

definition image_lv_path :: "RootfsConfig \<Rightarrow> string \<Rightarrow> string" where
  "image_lv_path c image_hash = ''/dev/'' @ rf_vg c @ ''/'' @ IMAGE_LV_PREFIX @ image_hash"

definition vm_lv_path :: "RootfsConfig \<Rightarrow> string \<Rightarrow> string" where
  "vm_lv_path c vmid = ''/dev/'' @ rf_vg c @ ''/'' @ VM_LV_PREFIX @ vmid"

text \<open>Growing a volume that already has the size is not an error.\<close>

definition lvextend :: "'h lvm_tools \<Rightarrow> string \<Rightarrow> string \<Rightarrow> nat \<Rightarrow> 'h \<Rightarrow> 'h option" where
  "lvextend t vg n size_gib h =
     (case lv_extend t vg n size_gib h of
        Inr h' \<Rightarrow> Some h'
      | Inl stderr \<Rightarrow> if contains_str ''No size change'' stderr \<or> contains_str ''not larger than'' stderr then Some h else None)"

definition create_vm_rootfs ::
  "'h lvm_tools \<Rightarrow> bool \<Rightarrow> RootfsConfig \<Rightarrow> string \<Rightarrow> string \<Rightarrow> nat \<Rightarrow> 'h \<Rightarrow> (LvmError, string) res \<times> 'h" where
  "create_vm_rootfs t permit c vmid image_hash disk_gib h =
     (let vg = rf_vg c; n = VM_LV_PREFIX @ vmid in
      if \<not> permit then (Inl (LvmBusy ''rootfs''), h)
      else case lv_attr t h vg n of
        None \<Rightarrow> (Inl LvmCommand, h)
      | Some stale \<Rightarrow>
     (case (if stale \<noteq> None then lv_remove t vg n h else Some h) of
        None \<Rightarrow> (Inl LvmCommand, h)
      | Some h1 \<Rightarrow>
     (case lv_snapshot t vg n (IMAGE_LV_PREFIX @ image_hash) h1 of
        None \<Rightarrow> (Inl LvmCommand, h1)
      | Some h2 \<Rightarrow>
     (case lvextend t vg n disk_gib h2 of
        None \<Rightarrow> (Inl LvmCommand, h2)
      | Some h3 \<Rightarrow> (Inr (vm_lv_path c vmid), h3)))))"

definition remove_vm_rootfs :: "'h lvm_tools \<Rightarrow> bool \<Rightarrow> RootfsConfig \<Rightarrow> string \<Rightarrow> 'h \<Rightarrow> (LvmError, unit) res \<times> 'h" where
  "remove_vm_rootfs t permit c vmid h =
     (let vg = rf_vg c; n = VM_LV_PREFIX @ vmid in
      case lv_attr t h vg n of
        None \<Rightarrow> (Inl LvmCommand, h)
      | Some None \<Rightarrow> (Inr (), h)
      | Some (Some _) \<Rightarrow>
          if \<not> permit then (Inl (LvmBusy ''rootfs''), h)
          else (case lv_remove t vg n h of None \<Rightarrow> (Inl LvmCommand, h) | Some h' \<Rightarrow> (Inr (), h')))"

text \<open>
  The golden image is looked at again once the permit is held: \<open>env\<close> is what other requests did to
  the group meanwhile.
\<close>

definition is_golden :: "string option option \<Rightarrow> bool" where
  "is_golden a \<longleftrightarrow> (case a of Some (Some attr) \<Rightarrow> attr_is_readonly attr | _ \<Rightarrow> False)"

definition populate_image_lv ::
  "'h lvm_tools \<Rightarrow> RootfsConfig \<Rightarrow> string \<Rightarrow> string \<Rightarrow> nat \<Rightarrow> 'h \<Rightarrow> (LvmError, string) res \<times> 'h" where
  "populate_image_lv t c image_hash source_qcow2 virtual_size_gib h =
     (let vg = rf_vg c; n = IMAGE_LV_PREFIX @ image_hash in
      case lv_create_thin t vg (rf_thin_pool c) n virtual_size_gib h of
        None \<Rightarrow> (Inl LvmCommand, h)
      | Some h1 \<Rightarrow>
     (case qemu_convert t source_qcow2 vg n h1 of
        (None, h2) \<Rightarrow> (Inl ImageConvert, h2)
      | (Some False, h2) \<Rightarrow> (Inl ImageConvert, case lv_remove t vg n h2 of Some h3 \<Rightarrow> h3 | None \<Rightarrow> h2)
      | (Some True, h2) \<Rightarrow>
     (case lv_readonly t vg n h2 of
        None \<Rightarrow> (Inl LvmCommand, h2)
      | Some h3 \<Rightarrow> (Inr (image_lv_path c image_hash), h3))))"

definition ensure_image_lv ::
  "'h lvm_tools \<Rightarrow> bool \<Rightarrow> ('h \<Rightarrow> 'h) \<Rightarrow> RootfsConfig \<Rightarrow> string \<Rightarrow> string \<Rightarrow> nat \<Rightarrow> 'h \<Rightarrow> (LvmError, string) res \<times> 'h" where
  "ensure_image_lv t permit env c image_hash source_qcow2 virtual_size_gib h0 =
     (let vg = rf_vg c; n = IMAGE_LV_PREFIX @ image_hash in
      if lv_attr t h0 vg n = None then (Inl LvmCommand, h0)
      else if is_golden (lv_attr t h0 vg n) then (Inr (image_lv_path c image_hash), h0)
      else let h = env h0 in
      if \<not> permit then (Inl (LvmBusy ''rootfs''), h)
      else case lv_attr t h vg n of
        None \<Rightarrow> (Inl LvmCommand, h)
      | Some None \<Rightarrow> populate_image_lv t c image_hash source_qcow2 virtual_size_gib h
      | Some (Some attr) \<Rightarrow>
          if attr_is_readonly attr then (Inr (image_lv_path c image_hash), h)
          else (case lv_remove t vg n h of
              None \<Rightarrow> (Inl LvmCommand, h)
            | Some h1 \<Rightarrow> populate_image_lv t c image_hash source_qcow2 virtual_size_gib h1))"

text \<open>Every machine with a root volume or a data volume on the host.\<close>

definition list_managed_vm_ids :: "'h lvm_tools \<Rightarrow> RootfsConfig \<Rightarrow> backend list \<Rightarrow> 'h \<Rightarrow> string set option" where
  "list_managed_vm_ids t c bs h =
     (case lv_lines t h (rf_vg c) of
        None \<Rightarrow> None
      | Some ls \<Rightarrow>
          map_option ((\<union>) (set (List.map_filter (\<lambda>l. strip_prefix VM_LV_PREFIX (trim l)) ls)))
            (managed_vm_ids t h (concat (map (\<lambda>b. map snd (be_device_vgs b)) bs))))"

subsection \<open>Checks at startup\<close>

text \<open>Each check reads the answer of one tool: \<open>None\<close> when it failed.\<close>

definition check_vg_exists :: "string \<Rightarrow> string option \<Rightarrow> (LvmError, unit) res" where
  "check_vg_exists vg out = (case out of Some (_ # _) \<Rightarrow> Inr () | _ \<Rightarrow> Inl (VgMissing vg))"

definition check_thin_pool :: "string \<Rightarrow> string \<Rightarrow> string option \<Rightarrow> (LvmError, unit) res" where
  "check_thin_pool vg pool out =
     (case out of
        None \<Rightarrow> Inl (ThinPoolMissing vg pool)
      | Some s \<Rightarrow>
          (let parts = split_on (\<lambda>c. c = CHR ''|'') (trim s);
               attr = trim (if 1 < length parts then parts ! 1 else '''') in
           if starts_with ''t'' attr then Inr () else Inl (NotThinPool vg pool attr)))"

definition check_vg_one_pv :: "string \<Rightarrow> string option \<Rightarrow> (LvmError, unit) res" where
  "check_vg_one_pv vg out =
     (case out of
        None \<Rightarrow> Inl LvmCommand
      | Some s \<Rightarrow> (let pvs = filter (\<lambda>p. p \<noteq> []) (map trim (text_lines s)) in
          if length pvs \<noteq> 1 then Inl (VgPvCountWrong vg (length pvs)) else Inr ()))"

fun check_names :: "string \<Rightarrow> string list \<Rightarrow> (LvmError, unit) res" where
  "check_names vg [] = Inr ()"
| "check_names vg (l # ls) =
     (if trim l = [] then check_names vg ls
      else if parse_data_disk_lv_name (trim l) = None then Inl (ForeignLv vg (trim l))
      else check_names vg ls)"

definition check_vg_no_foreign_lvs :: "'h lvm_tools \<Rightarrow> 'h \<Rightarrow> string \<Rightarrow> (LvmError, unit) res" where
  "check_vg_no_foreign_lvs t h vg = (case lv_lines t h vg of None \<Rightarrow> Inl LvmCommand | Some ls \<Rightarrow> check_names vg ls)"

text \<open>\<open>vgs vg\<close> and \<open>pvs vg\<close>: what the two queries of a group print.\<close>

fun backend_validate ::
  "'h lvm_tools \<Rightarrow> 'h \<Rightarrow> (string \<Rightarrow> string option) \<Rightarrow> (string \<Rightarrow> string option) \<Rightarrow> string list \<Rightarrow> (LvmError, unit) res" where
  "backend_validate t h vgs pvs [] = Inr ()"
| "backend_validate t h vgs pvs (vg # rest) =
     and_then (check_vg_exists vg (vgs vg)) (\<lambda>_. and_then (check_vg_one_pv vg (pvs vg)) (\<lambda>_.
       and_then (check_vg_no_foreign_lvs t h vg) (\<lambda>_. backend_validate t h vgs pvs rest)))"

subsection \<open>Capacity\<close>

datatype AgentDeviceHealth = Ready | Degraded | Missing

record PoolDevice =
  pq_id :: string
  pq_total_gib :: nat
  pq_free_gib :: nat
  pq_physical :: AgentDeviceHealth

text \<open>\<open>run_cmd\<close> of \<open>vgs\<close>: its output, or the text of its error.\<close>

definition vg_capacity :: "(string, string) res \<Rightarrow> (LvmError, nat \<times> nat) res" where
  "vg_capacity out =
     (case out of
        Inl _ \<Rightarrow> Inl LvmCommand
      | Inr s \<Rightarrow>
          (let parts = map trim (split_on (\<lambda>c. c = CHR ''|'') (trim s));
               field = (\<lambda>k. if k < length parts then parts ! k else ''0'') in
           case (parse_uint (2 ^ 64 - 1) (field 0), parse_uint (2 ^ 64 - 1) (field 1)) of
             (Some tot, Some free) \<Rightarrow> Inr (tot, free)
           | _ \<Rightarrow> Inl LvmCommand))"

definition pool_device :: "(string \<Rightarrow> (string, string) res) \<Rightarrow> PoolDeviceSpec \<Rightarrow> PoolDevice" where
  "pool_device vgs dev =
     (let (health, tot, free) = (case vg_capacity (vgs (case xd_vg dev of Some vg \<Rightarrow> vg | None \<Rightarrow> '''')) of
            Inr (tot, free) \<Rightarrow> (Ready, tot, free)
          | Inl (VgMissing _) \<Rightarrow> (Missing, wrap_u64 (xd_size_gib dev * 2 ^ 30), 0)
          | Inl _ \<Rightarrow> (Degraded, wrap_u64 (xd_size_gib dev * 2 ^ 30), 0)) in
      \<lparr>pq_id = xd_id dev, pq_total_gib = tot div 2 ^ 30, pq_free_gib = free div 2 ^ 30, pq_physical = health\<rparr>)"

definition devices :: "(string \<Rightarrow> (string, string) res) \<Rightarrow> PoolSpec \<Rightarrow> PoolDevice list" where
  "devices vgs p = map (pool_device vgs) (xp_devices p)"

record AgentPoolCapacity =
  pk_configured_total_bytes :: nat
  pk_ready_total_bytes :: nat
  pk_schedulable_total_bytes :: nat
  pk_schedulable_free_bytes :: nat

definition pool_capacity :: "PoolDevice list \<Rightarrow> AgentPoolCapacity" where
  "pool_capacity devs =
     fold (\<lambda>d c. let bytes = wrap_u64 (pq_total_gib d * 2 ^ 30);
               c1 = c\<lparr>pk_configured_total_bytes := wrap_u64 (pk_configured_total_bytes c + bytes)\<rparr> in
        if pq_physical d = Ready then c1\<lparr>
            pk_ready_total_bytes := wrap_u64 (pk_ready_total_bytes c1 + bytes),
            pk_schedulable_total_bytes := wrap_u64 (pk_schedulable_total_bytes c1 + bytes),
            pk_schedulable_free_bytes := wrap_u64 (pk_schedulable_free_bytes c1 + wrap_u64 (pq_free_gib d * 2 ^ 30))\<rparr>
        else c1) devs
      \<lparr>pk_configured_total_bytes = 0, pk_ready_total_bytes = 0, pk_schedulable_total_bytes = 0, pk_schedulable_free_bytes = 0\<rparr>"

subsection \<open>Names of volumes\<close>

lemma show_nat_no_dash: "c \<in> set (show_nat n) \<Longrightarrow> c \<noteq> CHR ''-''"
  using show_nat_digits [of n] by (auto simp: list_all_iff is_digit_def)

lemma parse_lv_name: "vmid \<noteq> [] \<Longrightarrow> i \<le> u32_max \<Longrightarrow> parse_data_disk_lv_name (lv_name vmid i) = Some (vmid, i)"
proof -
  assume "vmid \<noteq> []" "i \<le> u32_max"
  moreover have "rsplit_once (\<lambda>c. c = CHR ''-'') (vmid @ ''-'' @ show_nat i) = Some (vmid, show_nat i)"
    using rsplit_once_append [of "show_nat i" "\<lambda>c. c = CHR ''-''" "CHR ''-''" vmid] show_nat_no_dash by auto
  ultimately show ?thesis by (simp add: parse_data_disk_lv_name_def lv_name_def)
qed

subsection \<open>The ledger's invariant\<close>

definition row_named :: "LvmReservationRow \<Rightarrow> bool" where
  "row_named r \<longleftrightarrow> lr_vm_id r \<noteq> [] \<and> 0 \<le> lr_disk_index r \<and> lr_disk_index r \<le> int u32_max \<and>
     lr_lv_name r = lv_name (lr_vm_id r) (nat (lr_disk_index r))"

definition ledger_ok :: "LvmReservationRow list \<Rightarrow> bool" where
  "ledger_ok rows \<longleftrightarrow> distinct (map lr_assignment_id rows) \<and> distinct (map (\<lambda>r. (lr_vm_id r, lr_disk_index r)) rows) \<and>
     distinct (map (\<lambda>r. (lr_vg r, lr_lv_name r)) rows) \<and> list_all row_named rows"

lemma row_named_parse: "row_named r \<Longrightarrow> parse_data_disk_lv_name (lr_lv_name r) = Some (lr_vm_id r, nat (lr_disk_index r))"
  by (auto simp: row_named_def intro!: parse_lv_name)

lemma ledger_delete: "ledger_ok rows \<Longrightarrow> ledger_ok (delete_reservation i rows)"
  by (auto simp: ledger_ok_def delete_reservation_def list_all_iff)

lemma ledger_set_state: "ledger_ok rows \<Longrightarrow> ledger_ok (set_reservation_state i st rows)"
  by (auto simp: ledger_ok_def set_reservation_state_def map_upd_rows_id list_all_iff in_upd_rows row_named_def split: if_splits)

lemma ledger_insert:
  assumes "ledger_ok rows" "insert_reservation r rows = Some rows'" "row_named r"
  shows "ledger_ok rows'" "rows' = rows @ [r]"
  using assms by (force simp: ledger_ok_def insert_reservation_def list_ex_iff split: if_splits)+

lemma ledger_same_id: "ledger_ok rows \<Longrightarrow> r \<in> set rows \<Longrightarrow> q \<in> set rows \<Longrightarrow> lr_assignment_id q = lr_assignment_id r \<Longrightarrow> q = r"
  by (auto simp: ledger_ok_def distinct_map dest: inj_onD)

lemma ledger_same_volume:
  "ledger_ok rows \<Longrightarrow> r \<in> set rows \<Longrightarrow> q \<in> set rows \<Longrightarrow> lr_vg q = lr_vg r \<Longrightarrow> lr_lv_name q = lr_lv_name r \<Longrightarrow> q = r"
  by (auto simp: ledger_ok_def distinct_map dest!: inj_onD)

lemma new_reservation_named:
  "ar_vm_id req \<noteq> [] \<Longrightarrow> ar_disk_index req \<le> u32_max \<Longrightarrow> row_named (new_reservation b vg req)"
  by (simp add: row_named_def new_reservation_def)

text \<open>Facts of the tools, one by one.\<close>

lemma lvm_specD:
  assumes "lvm_spec t lvs"
  shows "lv_lines t h vg = Some ls \<Longrightarrow> trim ` set ls = lvs h vg"
    and "lv_attr t h vg n = Some a \<Longrightarrow> (a \<noteq> None) = (n \<in> lvs h vg)"
    and "lv_remove t vg n h = Some h' \<Longrightarrow> lvs h' = (lvs h)(vg := lvs h vg - {n})"
    and "lv_create t vg n k h = Some h' \<Longrightarrow> lvs h' = (lvs h)(vg := insert n (lvs h vg))"
    and "lv_snapshot t vg n orig h = Some h' \<Longrightarrow> lvs h' = (lvs h)(vg := insert n (lvs h vg))"
    and "lv_extend t vg n k h = Inr h' \<Longrightarrow> lvs h' = lvs h"
  using assms by (simp_all add: lvm_spec_def)

subsection \<open>Reconcile is safe\<close>

text \<open>
  The volumes a pass may remove: those of a row of the pool that is being deleted or whose machine is
  gone, and volumes no row of the pool claims whose name is of a machine that is gone.
\<close>

definition removable :: "backend \<Rightarrow> string set \<Rightarrow> LvmReservationRow list \<Rightarrow> string \<Rightarrow> string \<Rightarrow> bool" where
  "removable b live rows vg n \<longleftrightarrow>
     (\<exists>r \<in> set rows. lr_pool r = be_pool b \<and> lr_vg r = vg \<and> lr_lv_name r = n \<and>
        (lr_state r = ''Deleting'' \<or> lr_state r = ''Ready'' \<and> lr_vm_id r \<notin> live)) \<or>
     (vg \<in> snd ` set (be_device_vgs b) \<and> (\<exists>vmid i. parse_data_disk_lv_name n = Some (vmid, i) \<and> vmid \<notin> live) \<and>
        \<not> (\<exists>r \<in> set rows. lr_pool r = be_pool b \<and> lr_vg r = vg \<and> lr_lv_name r = n))"

definition settled :: "backend \<Rightarrow> string set \<Rightarrow> LvmReservationRow \<Rightarrow> bool" where
  "settled b live r \<longleftrightarrow> lr_pool r \<noteq> be_pool b \<or> lr_state r = ''Ready'' \<and> lr_vm_id r \<in> live"

definition recon_safe ::
  "('h \<Rightarrow> string \<Rightarrow> string set) \<Rightarrow> backend \<Rightarrow> string set \<Rightarrow> 'h disk_world \<Rightarrow> 'h disk_world \<Rightarrow> bool" where
  "recon_safe lvs b live w0 w \<longleftrightarrow> ledger_ok (dw_rows w) \<and>
     (\<forall>vg. lvs (dw_hw w) vg \<subseteq> lvs (dw_hw w0) vg) \<and>
     (\<forall>vg n. n \<in> lvs (dw_hw w0) vg \<longrightarrow> n \<notin> lvs (dw_hw w) vg \<longrightarrow> removable b live (dw_rows w0) vg n) \<and>
     (\<forall>r \<in> set (dw_rows w0). settled b live r \<longrightarrow> r \<in> set (dw_rows w)) \<and>
     (\<forall>q \<in> set (dw_rows w). \<exists>r \<in> set (dw_rows w0). lr_assignment_id r = lr_assignment_id q \<and> lr_pool r = lr_pool q)"

lemma recon_safeD:
  assumes "recon_safe lvs b live w0 w"
  shows "ledger_ok (dw_rows w)" "lvs (dw_hw w) vg \<subseteq> lvs (dw_hw w0) vg"
    "n \<in> lvs (dw_hw w0) vg \<Longrightarrow> n \<notin> lvs (dw_hw w) vg \<Longrightarrow> removable b live (dw_rows w0) vg n"
    "r \<in> set (dw_rows w0) \<Longrightarrow> settled b live r \<Longrightarrow> r \<in> set (dw_rows w)"
    "q \<in> set (dw_rows w) \<Longrightarrow> \<exists>r \<in> set (dw_rows w0). lr_assignment_id r = lr_assignment_id q \<and> lr_pool r = lr_pool q"
  using assms by (auto simp: recon_safe_def)

lemma recon_safe_refl: "ledger_ok (dw_rows w) \<Longrightarrow> recon_safe lvs b live w w"
  by (auto simp: recon_safe_def)

lemma unsettled_id:
  assumes "ledger_ok rows" "r \<in> set rows" "\<not> settled b live r" "q \<in> set rows" "settled b live q"
  shows "lr_assignment_id q \<noteq> lr_assignment_id r"
  using assms ledger_same_id by metis

lemma recon_safe_delete:
  assumes s: "recon_safe lvs b live w0 w" and l: "ledger_ok (dw_rows w0)" and r: "r \<in> set (dw_rows w0)" "\<not> settled b live r"
  shows "recon_safe lvs b live w0 (w\<lparr>dw_rows := delete_reservation (lr_assignment_id r) (dw_rows w)\<rparr>)"
  using recon_safeD [OF s] unsettled_id [OF l r] ledger_delete [of "dw_rows w"]
  by (auto simp: recon_safe_def delete_reservation_def)

lemma recon_safe_set_state:
  assumes s: "recon_safe lvs b live w0 w" and l: "ledger_ok (dw_rows w0)" and r: "r \<in> set (dw_rows w0)" "\<not> settled b live r"
  shows "recon_safe lvs b live w0 (w\<lparr>dw_rows := set_reservation_state (lr_assignment_id r) st (dw_rows w)\<rparr>)"
proof -
  have "q \<in> set (set_reservation_state (lr_assignment_id r) st (dw_rows w))" if "q \<in> set (dw_rows w0)" "settled b live q" for q
    using recon_safeD(4) [OF s that] unsettled_id [OF l r that]
    by (auto simp: set_reservation_state_def in_upd_rows intro!: bexI [of _ q])
  moreover have "\<exists>r' \<in> set (dw_rows w0). lr_assignment_id r' = lr_assignment_id q \<and> lr_pool r' = lr_pool q"
    if "q \<in> set (set_reservation_state (lr_assignment_id r) st (dw_rows w))" for q
  proof -
    from that obtain p where "p \<in> set (dw_rows w)" "lr_assignment_id p = lr_assignment_id q" "lr_pool p = lr_pool q"
      by (auto simp: set_reservation_state_def in_upd_rows split: if_splits)
    then show ?thesis using recon_safeD(5) [OF s, of p] by auto
  qed
  ultimately show ?thesis
    using recon_safeD(1-3) [OF s] ledger_set_state [of "dw_rows w"] by (auto simp: recon_safe_def)
qed

lemma recon_safe_remove:
  assumes t: "lvm_spec t lvs" and s: "recon_safe lvs b live w0 w" and "lv_remove t vg n (dw_hw w) = Some h"
    and "removable b live (dw_rows w0) vg n"
  shows "recon_safe lvs b live w0 (w\<lparr>dw_hw := h\<rparr>)"
  using recon_safeD [OF s] lvm_specD(3) [OF t assms(3)] assms(4) by (auto simp: recon_safe_def split: if_splits)

lemma drop_volume_safe:
  assumes "lvm_spec t lvs" "recon_safe lvs b live w0 w" "ledger_ok (dw_rows w0)" "r \<in> set (dw_rows w0)" "lr_pool r = be_pool b"
    "lr_state r = ''Deleting'' \<or> lr_state r = ''Ready'' \<and> lr_vm_id r \<notin> live" "drop_volume t permit b r w = (res, w')"
  shows "recon_safe lvs b live w0 w'"
proof -
  have rm: "removable b live (dw_rows w0) (lr_vg r) (lr_lv_name r)" "\<not> settled b live r"
    using assms(4-6) by (auto simp: removable_def settled_def)
  have "recon_safe lvs b live w0 (w\<lparr>dw_rows := delete_reservation (lr_assignment_id r) (dw_rows w), dw_hw := h\<rparr>)"
    if "lv_remove t (lr_vg r) (lr_lv_name r) (dw_hw w) = Some h" for h
    using recon_safe_delete [OF recon_safe_remove [OF assms(1,2) that rm(1)] assms(3,4) rm(2)] by (cases w) simp
  then show ?thesis using assms(2,7) by (auto simp: drop_volume_def split: if_splits option.splits)
qed

lemma reconcile_row_safe:
  assumes "lvm_spec t lvs" and s: "recon_safe lvs b live w0 w" and l: "ledger_ok (dw_rows w0)"
    and r: "r \<in> set (dw_rows w0)" "lr_pool r = be_pool b" and e: "reconcile_row t permit b live r (w, rep) = (res, w', rep')"
  shows "recon_safe lvs b live w0 w'"
proof -
  have u: "\<not> settled b live r" if "lr_state r \<noteq> ''Ready''" using that r(2) by (simp add: settled_def)
  note d = drop_volume_safe [OF assms(1) s l r]
  show ?thesis
    using e s u recon_safe_delete [OF s l r(1)] recon_safe_set_state [OF s l r(1)] d
    by (auto simp: reconcile_row_def Let_def split: if_splits option.splits prod.splits sum.splits)
qed

lemma reconcile_rows_safe:
  assumes "lvm_spec t lvs" "ledger_ok (dw_rows w0)"
  shows "recon_safe lvs b live w0 w \<Longrightarrow> \<forall>r \<in> set rs. r \<in> set (dw_rows w0) \<and> lr_pool r = be_pool b \<Longrightarrow>
    reconcile_rows t permits b live k rs (w, rep) = (res, w', rep') \<Longrightarrow> recon_safe lvs b live w0 w'"
proof (induction rs arbitrary: k w rep)
  case (Cons r rs)
  obtain res1 w1 rep1 where st: "reconcile_row t (permits k) b live r (w, rep) = (res1, w1, rep1)" by (metis prod_cases3)
  have "recon_safe lvs b live w0 w1" using reconcile_row_safe [OF assms(1) Cons.prems(1) assms(2) _ _ st] Cons.prems(2) by simp
  then show ?case using Cons st by (auto split: sum.splits)
qed simp

lemma sweep_names_safe:
  assumes "lvm_spec t lvs" "vg \<in> snd ` set (be_device_vgs b)"
    "claimed = (\<lambda>r. (lr_vg r, lr_lv_name r)) ` set (filter (\<lambda>r. lr_pool r = be_pool b) (dw_rows w0))"
  shows "recon_safe lvs b live w0 (fst s) \<Longrightarrow> sweep_names t permits b live claimed vg k ns s = (res, s') \<Longrightarrow>
    recon_safe lvs b live w0 (fst s')"
proof (induction ns arbitrary: k s)
  case (Cons n ns)
  show ?case
  proof (cases "\<exists>vmid i. parse_data_disk_lv_name n = Some (vmid, i) \<and> vmid \<notin> live \<and> (vg, n) \<notin> claimed")
    case True
    then obtain vmid i where p: "parse_data_disk_lv_name n = Some (vmid, i)" "vmid \<notin> live" "(vg, n) \<notin> claimed" by blast
    then have rm: "removable b live (dw_rows w0) vg n" using assms(2,3) by (auto simp: removable_def image_iff)
    have keep: "recon_safe lvs b live w0 ((fst s)\<lparr>dw_hw := h\<rparr>)" if "lv_remove t vg n (dw_hw (fst s)) = Some h" for h
      by (rule recon_safe_remove [OF assms(1) Cons.prems(1) that rm])
    show ?thesis
    proof (cases "permits k \<and> lv_remove t vg n (dw_hw (fst s)) \<noteq> None")
      case True
      then obtain h where h: "permits k" "lv_remove t vg n (dw_hw (fst s)) = Some h" by blast
      let ?s = "((fst s)\<lparr>dw_hw := h\<rparr>, (snd s)\<lparr>rr_orphans_removed := Suc (rr_orphans_removed (snd s))\<rparr>)"
      have "sweep_names t permits b live claimed vg (Suc k) ns ?s = (res, s')" using Cons.prems(2) p h by simp
      then show ?thesis using Cons.IH [of ?s "Suc k"] keep [OF h(2)] by simp
    next
      case False
      then have "s' = s" using Cons.prems(2) p by (auto split: if_splits)
      then show ?thesis using Cons.prems(1) by simp
    qed
  next
    case False
    then have "sweep_names t permits b live claimed vg k (n # ns) s = sweep_names t permits b live claimed vg (Suc k) ns s"
      by (auto split: option.splits)
    then show ?thesis using Cons by simp
  qed
qed simp

lemma sweep_vgs_safe:
  assumes "lvm_spec t lvs" "claimed = (\<lambda>r. (lr_vg r, lr_lv_name r)) ` set (filter (\<lambda>r. lr_pool r = be_pool b) (dw_rows w0))"
  shows "recon_safe lvs b live w0 (fst s) \<Longrightarrow> set vgs \<subseteq> snd ` set (be_device_vgs b) \<Longrightarrow>
    sweep_vgs t permits b live claimed k vgs s = (res, s') \<Longrightarrow> recon_safe lvs b live w0 (fst s')"
proof (induction vgs arbitrary: k s)
  case (Cons vg vgs)
  show ?case
  proof (cases "lv_lines t (dw_hw (fst s)) vg")
    case (Some ls)
    obtain res1 s1 where n: "sweep_names t permits b live claimed vg k (map trim ls) s = (res1, s1)" by (metis prod.exhaust)
    have "recon_safe lvs b live w0 (fst s1)"
      using sweep_names_safe [OF assms(1) _ assms(2) Cons.prems(1) n] Cons.prems(2) by simp
    then show ?thesis using Cons.IH [of s1 "k + length ls"] Cons.prems(2,3) Some n by (auto split: sum.splits)
  next
    case None
    then show ?thesis using Cons.prems by simp
  qed
qed simp

text \<open>A pass that ends resolves every row of the pool that was being created or deleted.\<close>

lemma drop_volume_rows:
  "drop_volume t permit b r w = (res, w') \<Longrightarrow>
   dw_rows w' = (case res of Inl _ \<Rightarrow> dw_rows w | Inr _ \<Rightarrow> delete_reservation (lr_assignment_id r) (dw_rows w))"
  by (auto simp: drop_volume_def split: if_splits option.splits)

lemma reconcile_row_frame:
  assumes "reconcile_row t permit b live r (w, rep) = (res, w', rep')" "lr_assignment_id q \<noteq> lr_assignment_id r"
  shows "q \<in> set (dw_rows w') \<longleftrightarrow> q \<in> set (dw_rows w)"
  using assms
  by (auto simp: reconcile_row_def Let_def delete_reservation_def set_reservation_state_def in_upd_rows
      dest!: drop_volume_rows split: if_splits option.splits prod.splits sum.splits)

lemma set_reservation_state_D: "q \<in> set (set_reservation_state i st rows) \<Longrightarrow> lr_assignment_id q = i \<Longrightarrow> lr_state q = st"
  by (auto simp: set_reservation_state_def in_upd_rows) (metis LvmReservationRow.select_convs(9) LvmReservationRow.surjective LvmReservationRow.update_convs(9))

lemma reconcile_row_resolves:
  assumes "reconcile_row t permit b live r (w, rep) = (Inr u, w', rep')"
    and "\<forall>q \<in> set (dw_rows w). lr_assignment_id q = lr_assignment_id r \<longrightarrow> q = r"
    and "q \<in> set (dw_rows w')" "lr_assignment_id q = lr_assignment_id r"
  shows "lr_state q \<noteq> ''Creating'' \<and> lr_state q \<noteq> ''Deleting''"
  using assms set_reservation_state_D [OF _ assms(4), of "''Ready''" "dw_rows w"]
  by (auto simp: reconcile_row_def Let_def delete_reservation_def
      dest!: drop_volume_rows split: if_splits option.splits prod.splits sum.splits)

lemma reconcile_rows_frame:
  "reconcile_rows t permits b live k rs (w, rep) = (res, w', rep') \<Longrightarrow> lr_assignment_id q \<notin> lr_assignment_id ` set rs \<Longrightarrow>
   q \<in> set (dw_rows w') \<longleftrightarrow> q \<in> set (dw_rows w)"
proof (induction rs arbitrary: k w rep)
  case (Cons r rs)
  obtain res1 w1 rep1 where st: "reconcile_row t (permits k) b live r (w, rep) = (res1, w1, rep1)" by (metis prod_cases3)
  then show ?case using Cons reconcile_row_frame [OF st, of q] by (auto split: sum.splits)
qed simp

lemma reconcile_rows_resolves:
  "reconcile_rows t permits b live k rs (w, rep) = (Inr u, w', rep') \<Longrightarrow> distinct (map lr_assignment_id rs) \<Longrightarrow>
   \<forall>r \<in> set rs. \<forall>q \<in> set (dw_rows w). lr_assignment_id q = lr_assignment_id r \<longrightarrow> q = r \<Longrightarrow>
   q \<in> set (dw_rows w') \<Longrightarrow> lr_assignment_id q \<in> lr_assignment_id ` set rs \<Longrightarrow>
   lr_state q \<noteq> ''Creating'' \<and> lr_state q \<noteq> ''Deleting''"
proof (induction rs arbitrary: k w rep)
  case (Cons r rs)
  from Cons.prems(1) obtain u1 w1 rep1 where st: "reconcile_row t (permits k) b live r (w, rep) = (Inr u1, w1, rep1)"
    and rest: "reconcile_rows t permits b live (Suc k) rs (w1, rep1) = (Inr u, w', rep')"
    by (auto split: sum.splits prod.splits)
  show ?case
  proof (cases "lr_assignment_id q = lr_assignment_id r")
    case True
    then have "q \<in> set (dw_rows w1)" using reconcile_rows_frame [OF rest, of q] Cons.prems(2,4) by auto
    then show ?thesis using reconcile_row_resolves [OF st _ _ True] Cons.prems(3) by simp
  next
    case False
    have "\<forall>p \<in> set rs. \<forall>x \<in> set (dw_rows w1). lr_assignment_id x = lr_assignment_id p \<longrightarrow> x = p"
    proof (intro ballI impI)
      fix p x assume p: "p \<in> set rs" "x \<in> set (dw_rows w1)" "lr_assignment_id x = lr_assignment_id p"
      then have "lr_assignment_id x \<noteq> lr_assignment_id r" using Cons.prems(2) by force
      then have "x \<in> set (dw_rows w)" using reconcile_row_frame [OF st] p(2) by blast
      then show "x = p" using Cons.prems(3) p by simp
    qed
    then show ?thesis using Cons.IH [OF rest] Cons.prems(2,4,5) False by auto
  qed
qed simp

lemma sweep_names_rows: "sweep_names t permits b live claimed vg k ns s = (res, s') \<Longrightarrow> dw_rows (fst s') = dw_rows (fst s)"
proof (induction ns arbitrary: k s)
  case (Cons n ns)
  from Cons.prems show ?case
    by (auto split: option.splits if_splits prod.splits dest!: Cons.IH)
qed simp

lemma sweep_vgs_rows: "sweep_vgs t permits b live claimed k vgs s = (res, s') \<Longrightarrow> dw_rows (fst s') = dw_rows (fst s)"
proof (induction vgs arbitrary: k s)
  case (Cons vg vgs)
  from Cons.prems show ?case
    by (auto split: option.splits sum.splits prod.splits dest!: Cons.IH sweep_names_rows)
qed simp

lemma backend_reconcile_cases:
  assumes "backend_reconcile t permits b live w = (res, w', rep)"
  obtains e w1 rep1 where "reconcile_rows t permits b live 0 (filter (\<lambda>r. lr_pool r = be_pool b) (dw_rows w))
      (w, \<lparr>rr_orphans_removed = 0, rr_creating_resolved = 0, rr_deleting_resolved = 0, rr_lost = []\<rparr>) = (e, w1, rep1)"
    and "case e of Inl x \<Rightarrow> res = Inl x \<and> w' = w1
      | Inr _ \<Rightarrow> sweep_vgs t permits b live ((\<lambda>r. (lr_vg r, lr_lv_name r)) ` set (filter (\<lambda>r. lr_pool r = be_pool b) (dw_rows w)))
          (length (filter (\<lambda>r. lr_pool r = be_pool b) (dw_rows w))) (map snd (be_device_vgs b)) (w1, rep1) = (res, w', rep)"
  using assms by (auto simp: backend_reconcile_def Let_def split: sum.splits prod.splits)

lemma backend_reconcile_safe:
  assumes t: "lvm_spec t lvs" and l: "ledger_ok (dw_rows w)" and e: "backend_reconcile t permits b live w = (res, w', rep)"
  shows "recon_safe lvs b live w w'"
proof (rule backend_reconcile_cases [OF e])
  fix x w1 rep1
  let ?rows = "filter (\<lambda>r. lr_pool r = be_pool b) (dw_rows w)"
  assume rr: "reconcile_rows t permits b live 0 ?rows
      (w, \<lparr>rr_orphans_removed = 0, rr_creating_resolved = 0, rr_deleting_resolved = 0, rr_lost = []\<rparr>) = (x, w1, rep1)"
    and st: "case x of Inl y \<Rightarrow> res = Inl y \<and> w' = w1
      | Inr _ \<Rightarrow> sweep_vgs t permits b live ((\<lambda>r. (lr_vg r, lr_lv_name r)) ` set ?rows) (length ?rows) (map snd (be_device_vgs b)) (w1, rep1)
          = (res, w', rep)"
  have s1: "recon_safe lvs b live w w1" using reconcile_rows_safe [OF t l recon_safe_refl [OF l] _ rr] by simp
  show ?thesis
  proof (cases x)
    case (Inr u)
    note sw = st [unfolded Inr sum.case]
    show ?thesis using sweep_vgs_safe [OF t refl _ _ sw] s1 by auto
  qed (use s1 st in simp)
qed

lemma backend_reconcile_resolves:
  assumes l: "ledger_ok (dw_rows w)" and e: "backend_reconcile t permits b live w = (Inr u, w', rep)"
    and s: "recon_safe lvs b live w w'" and q: "q \<in> set (dw_rows w')" "lr_pool q = be_pool b"
  shows "lr_state q \<noteq> ''Creating'' \<and> lr_state q \<noteq> ''Deleting''"
proof (rule backend_reconcile_cases [OF e])
  fix x w1 rep1
  let ?rows = "filter (\<lambda>r. lr_pool r = be_pool b) (dw_rows w)"
  assume rr: "reconcile_rows t permits b live 0 ?rows
      (w, \<lparr>rr_orphans_removed = 0, rr_creating_resolved = 0, rr_deleting_resolved = 0, rr_lost = []\<rparr>) = (x, w1, rep1)"
    and st: "case x of Inl y \<Rightarrow> Inr u = Inl y \<and> w' = w1
      | Inr _ \<Rightarrow> sweep_vgs t permits b live ((\<lambda>r. (lr_vg r, lr_lv_name r)) ` set ?rows) (length ?rows) (map snd (be_device_vgs b)) (w1, rep1)
          = (Inr u, w', rep)"
  from st obtain v where x: "x = Inr v" by (cases x) auto
  then have "dw_rows w' = dw_rows w1" using st sweep_vgs_rows by fastforce
  moreover have "lr_assignment_id q \<in> lr_assignment_id ` set ?rows" using recon_safeD(5) [OF s q(1)] q(2) by (auto simp: image_iff)
  moreover have "distinct (map lr_assignment_id ?rows)" using l by (simp add: ledger_ok_def distinct_map_filter)
  moreover have "\<forall>r \<in> set ?rows. \<forall>p \<in> set (dw_rows w). lr_assignment_id p = lr_assignment_id r \<longrightarrow> p = r"
    using ledger_same_id [OF l] by auto
  ultimately show ?thesis using reconcile_rows_resolves [OF rr [unfolded x]] q(1) by simp
qed

lemma live_volume_kept:
  assumes l: "ledger_ok (dw_rows w)" and s: "recon_safe lvs b live w w'"
    and r: "r \<in> set (dw_rows w)" "lr_vm_id r \<in> live" "lr_state r \<noteq> ''Deleting''" "lr_lv_name r \<in> lvs (dw_hw w) (lr_vg r)"
  shows "lr_lv_name r \<in> lvs (dw_hw w') (lr_vg r)"
proof (rule ccontr)
  assume "lr_lv_name r \<notin> lvs (dw_hw w') (lr_vg r)"
  then have rm: "removable b live (dw_rows w) (lr_vg r) (lr_lv_name r)" using recon_safeD(3) [OF s] r(4) by blast
  have "parse_data_disk_lv_name (lr_lv_name r) = Some (lr_vm_id r, nat (lr_disk_index r))"
    using row_named_parse l r(1) by (simp add: ledger_ok_def list_all_iff)
  then show False using rm r(2,3) ledger_same_volume [OF l r(1)] by (auto simp: removable_def)
qed

subsection \<open>Allocate\<close>

lemma make_volume_effect:
  assumes t: "lvm_spec t lvs" and e: "make_volume t permit b vg req w = (res, w')"
  shows "dw_rows w' = (case res of Inl _ \<Rightarrow> dw_rows w | Inr _ \<Rightarrow> set_reservation_state (ar_assignment_id req) ''Ready'' (dw_rows w))"
    and "(v, n) \<noteq> (vg, lv_name (ar_vm_id req) (ar_disk_index req)) \<Longrightarrow> n \<in> lvs (dw_hw w') v \<longleftrightarrow> n \<in> lvs (dw_hw w) v"
    and "res = Inr al \<Longrightarrow> al = \<lparr>al_path = lv_path vg (lv_name (ar_vm_id req) (ar_disk_index req)), al_actual_size_gib = ar_min_size_gib req\<rparr> \<and>
      lv_name (ar_vm_id req) (ar_disk_index req) \<in> lvs (dw_hw w') vg"
  using e by (auto simp: make_volume_def Let_def lvm_specD(3,4) [OF t] split: if_splits option.splits)

lemma set_state_of_new:
  "\<forall>q \<in> set rows. lr_assignment_id q \<noteq> i \<Longrightarrow> lr_assignment_id r = i \<Longrightarrow>
   set_reservation_state i st (rows @ [r]) = rows @ [r\<lparr>lr_state := st\<rparr>]"
  by (auto simp: set_reservation_state_def upd_rows_def intro: map_idI)

text \<open>What is left of the request's own row and volume; nothing else changes.\<close>

definition allocated :: "('h \<Rightarrow> string \<Rightarrow> string set) \<Rightarrow> backend \<Rightarrow> DiskAllocationRequest \<Rightarrow> 'h disk_world \<Rightarrow> 'h disk_world \<Rightarrow> Allocation \<Rightarrow> bool" where
  "allocated lvs b req w w' al \<longleftrightarrow> (\<exists>vg. map_of (be_device_vgs b) (ar_device_id req) = Some vg \<and>
     dw_rows w' = delete_reservation (ar_assignment_id req) (dw_rows w) @ [(new_reservation b vg req)\<lparr>lr_state := ''Ready''\<rparr>] \<and>
     al = \<lparr>al_path = lv_path vg (lv_name (ar_vm_id req) (ar_disk_index req)), al_actual_size_gib = ar_min_size_gib req\<rparr> \<and>
     lv_name (ar_vm_id req) (ar_disk_index req) \<in> lvs (dw_hw w') vg)"

lemma reserve_effect:
  assumes t: "lvm_spec t lvs" and e: "reserve t permit b req w = (res, w')" and n: "\<forall>q \<in> set (dw_rows w). lr_assignment_id q \<noteq> ar_assignment_id req"
  shows "res = Inr al \<Longrightarrow> allocated lvs b req w w' al"
    and "lr_assignment_id q \<noteq> ar_assignment_id req \<Longrightarrow> q \<in> set (dw_rows w') \<longleftrightarrow> q \<in> set (dw_rows w)"
    and "m \<noteq> lv_name (ar_vm_id req) (ar_disk_index req) \<Longrightarrow> m \<in> lvs (dw_hw w') v \<longleftrightarrow> m \<in> lvs (dw_hw w) v"
    and "ledger_ok (dw_rows w) \<Longrightarrow> ar_vm_id req \<noteq> [] \<Longrightarrow> ar_disk_index req \<le> u32_max \<Longrightarrow> ledger_ok (dw_rows w')"
proof -
  have d: "delete_reservation (ar_assignment_id req) (dw_rows w) = dw_rows w"
    using n by (auto simp: delete_reservation_def del_rows_def intro: filter_True)
  have cases: "w' = w \<and> (\<forall>al. res \<noteq> Inr al) \<or> (\<exists>vg. map_of (be_device_vgs b) (ar_device_id req) = Some vg \<and>
      insert_reservation (new_reservation b vg req) (dw_rows w) = Some (dw_rows w @ [new_reservation b vg req]) \<and>
      make_volume t permit b vg req (w\<lparr>dw_rows := dw_rows w @ [new_reservation b vg req]\<rparr>) = (res, w'))"
    using e by (auto simp: reserve_def insert_reservation_def split: if_splits option.splits)
  have new: "lr_assignment_id (new_reservation b vg req) = ar_assignment_id req" for vg by (simp add: new_reservation_def)
  have set: "set_reservation_state (ar_assignment_id req) ''Ready'' (dw_rows w @ [new_reservation b vg req]) =
      dw_rows w @ [(new_reservation b vg req)\<lparr>lr_state := ''Ready''\<rparr>]" for vg by (rule set_state_of_new [OF n new])
  show "allocated lvs b req w w' al" if al: "res = Inr al"
  proof -
    from cases al obtain vg where vg: "map_of (be_device_vgs b) (ar_device_id req) = Some vg"
      and m: "make_volume t permit b vg req (w\<lparr>dw_rows := dw_rows w @ [new_reservation b vg req]\<rparr>) = (Inr al, w')" by blast
    show ?thesis using make_volume_effect(1) [OF t m] make_volume_effect(3) [OF t m refl] vg by (auto simp: allocated_def d set)
  qed
  show "lr_assignment_id q \<noteq> ar_assignment_id req \<Longrightarrow> q \<in> set (dw_rows w') \<longleftrightarrow> q \<in> set (dw_rows w)"
    using cases new by (auto simp: set dest!: make_volume_effect(1) [OF t] split: sum.splits)
  show "m \<noteq> lv_name (ar_vm_id req) (ar_disk_index req) \<Longrightarrow> m \<in> lvs (dw_hw w') v \<longleftrightarrow> m \<in> lvs (dw_hw w) v"
    using cases make_volume_effect(2) [OF t] by fastforce
  show "ledger_ok (dw_rows w')" if l: "ledger_ok (dw_rows w)" "ar_vm_id req \<noteq> []" "ar_disk_index req \<le> u32_max"
  proof -
    have "ledger_ok (dw_rows w @ [new_reservation b vg req])"
      if "insert_reservation (new_reservation b vg req) (dw_rows w) = Some (dw_rows w @ [new_reservation b vg req])" for vg
      using ledger_insert(1) [OF l(1) that] new_reservation_named [OF l(2,3)] by simp
    then show ?thesis
      using cases l(1) ledger_set_state by (auto dest!: make_volume_effect(1) [OF t] split: sum.splits)
  qed
qed

lemma as_u64_as_i64: "n < 2 ^ 64 \<Longrightarrow> as_u64 (as_i64 n) = n"
proof -
  assume n: "n < 2 ^ 64"
  have "(wrap_i64 (int n)) mod 2 ^ 64 = int n mod 2 ^ 64"
    unfolding wrap_i64_def by (metis add_diff_cancel_right' mod_diff_left_eq)
  then show ?thesis using n by (simp add: as_u64_def as_i64_def nat_mod_as_int)
qed

lemma allocate_cases:
  assumes e: "allocate t permit b req w = (res, w')"
  obtains (ready) r where "r \<in> set (dw_rows w)" "lookup_assignment (ar_assignment_id req) (dw_rows w) = Some r"
      "lr_assignment_id r = ar_assignment_id req" "lr_state r = ''Ready''" "w' = w"
      "res = Inr \<lparr>al_path = lv_path (lr_vg r) (lr_lv_name r), al_actual_size_gib = as_u64 (lr_size_gib r)\<rparr>"
    | (fresh) "reserve t permit b req (w\<lparr>dw_rows := delete_reservation (ar_assignment_id req) (dw_rows w)\<rparr>) = (res, w')"
proof (cases "lookup_assignment (ar_assignment_id req) (dw_rows w)")
  case None
  then have "delete_reservation (ar_assignment_id req) (dw_rows w) = dw_rows w"
    by (auto simp: lookup_assignment_def find_None_iff delete_reservation_def del_rows_def intro: filter_True)
  then show ?thesis by (intro fresh) (use e None in \<open>simp add: allocate_def\<close>)
next
  case (Some r)
  then have r: "r \<in> set (dw_rows w)" "lr_assignment_id r = ar_assignment_id req"
    by (auto simp: lookup_assignment_def find_Some_iff)
  show ?thesis
  proof (cases "lr_state r = ''Ready''")
    case True
    show ?thesis by (rule ready [OF r(1) Some r(2) True]) (use e Some True in \<open>simp_all add: allocate_def\<close>)
  next
    case False
    show ?thesis by (rule fresh) (use e Some False in \<open>simp add: allocate_def\<close>)
  qed
qed

lemma no_row_after_delete: "\<forall>q \<in> set (delete_reservation i rows). lr_assignment_id q \<noteq> i"
  by (auto simp: delete_reservation_def)

lemma allocate_frame:
  assumes t: "lvm_spec t lvs" and e: "allocate t permit b req w = (res, w')"
  shows "lr_assignment_id q \<noteq> ar_assignment_id req \<Longrightarrow> q \<in> set (dw_rows w') \<longleftrightarrow> q \<in> set (dw_rows w)"
    and "m \<noteq> lv_name (ar_vm_id req) (ar_disk_index req) \<Longrightarrow> m \<in> lvs (dw_hw w') v \<longleftrightarrow> m \<in> lvs (dw_hw w) v"
    and "ledger_ok (dw_rows w) \<Longrightarrow> ar_vm_id req \<noteq> [] \<Longrightarrow> ar_disk_index req \<le> u32_max \<Longrightarrow> ledger_ok (dw_rows w')"
proof -
  let ?w = "w\<lparr>dw_rows := delete_reservation (ar_assignment_id req) (dw_rows w)\<rparr>"
  note r = reserve_effect [OF t, of permit b req ?w res w']
  have n: "\<forall>q \<in> set (dw_rows ?w). lr_assignment_id q \<noteq> ar_assignment_id req" using no_row_after_delete by simp
  show "lr_assignment_id q \<noteq> ar_assignment_id req \<Longrightarrow> q \<in> set (dw_rows w') \<longleftrightarrow> q \<in> set (dw_rows w)"
    by (rule allocate_cases [OF e]) (auto simp: r(2) [OF _ n] delete_reservation_def)
  show "m \<noteq> lv_name (ar_vm_id req) (ar_disk_index req) \<Longrightarrow> m \<in> lvs (dw_hw w') v \<longleftrightarrow> m \<in> lvs (dw_hw w) v"
    by (rule allocate_cases [OF e]) (auto simp: r(3) [OF _ n])
  show "ledger_ok (dw_rows w) \<Longrightarrow> ar_vm_id req \<noteq> [] \<Longrightarrow> ar_disk_index req \<le> u32_max \<Longrightarrow> ledger_ok (dw_rows w')"
    using r(4) [OF _ n] ledger_delete by (cases rule: allocate_cases [OF e]) auto
qed

lemma lookup_row: "ledger_ok rows \<Longrightarrow> r \<in> set rows \<Longrightarrow> lookup_assignment (lr_assignment_id r) rows = Some r"
proof (cases "lookup_assignment (lr_assignment_id r) rows")
  case (Some q)
  then show "ledger_ok rows \<Longrightarrow> r \<in> set rows \<Longrightarrow> ?thesis"
    using ledger_same_id [of rows r q] by (auto simp: lookup_assignment_def find_Some_iff)
qed (auto simp: lookup_assignment_def find_None_iff)

lemma allocated_row:
  assumes "allocated lvs b req w w' al"
  shows "\<exists>r \<in> set (dw_rows w'). lr_assignment_id r = ar_assignment_id req \<and> lr_vm_id r = ar_vm_id req \<and>
    lr_disk_index r = int (ar_disk_index req) \<and> lr_state r = ''Ready'' \<and> al_path al = lv_path (lr_vg r) (lr_lv_name r) \<and>
    lr_size_gib r = as_i64 (ar_min_size_gib req) \<and> al_actual_size_gib al = ar_min_size_gib req \<and>
    lr_lv_name r \<in> lvs (dw_hw w') (lr_vg r)"
  using assms by (auto simp: allocated_def new_reservation_def)

lemma allocate_row:
  assumes t: "lvm_spec t lvs" and own: "\<forall>r \<in> set (dw_rows w). lr_assignment_id r = ar_assignment_id req \<longrightarrow>
      lr_vm_id r = ar_vm_id req \<and> lr_disk_index r = int (ar_disk_index req)"
    and sz: "ar_min_size_gib req < 2 ^ 64" and e: "allocate t permit b req w = (Inr al, w')"
  shows "\<exists>r \<in> set (dw_rows w'). lr_assignment_id r = ar_assignment_id req \<and> lr_vm_id r = ar_vm_id req \<and>
    lr_disk_index r = int (ar_disk_index req) \<and> lr_state r = ''Ready'' \<and> al_path al = lv_path (lr_vg r) (lr_lv_name r) \<and>
    al_actual_size_gib al = as_u64 (lr_size_gib r)"
proof (cases rule: allocate_cases [OF e])
  case (1 r)
  then show ?thesis using own by (intro bexI [of _ r]) auto
next
  case 2
  have "allocated lvs b req (w\<lparr>dw_rows := delete_reservation (ar_assignment_id req) (dw_rows w)\<rparr>) w' al"
    using reserve_effect(1) [OF t 2] no_row_after_delete by simp
  from allocated_row [OF this] show ?thesis using as_u64_as_i64 [OF sz] by force
qed

lemma allocate_again:
  assumes "ledger_ok (dw_rows w)" "r \<in> set (dw_rows w)" "lr_assignment_id r = ar_assignment_id req" "lr_state r = ''Ready''"
  shows "allocate t permit b req w = (Inr \<lparr>al_path = lv_path (lr_vg r) (lr_lv_name r), al_actual_size_gib = as_u64 (lr_size_gib r)\<rparr>, w)"
  using lookup_row [OF assms(1,2)] assms(3,4) by (simp add: allocate_def)

lemma allocate_conflict:
  assumes "r \<in> set (dw_rows w)" "lr_vm_id r = ar_vm_id req" "lr_disk_index r = int (ar_disk_index req)"
    "\<forall>q \<in> set (dw_rows w). lr_assignment_id q \<noteq> ar_assignment_id req"
  shows "allocate t permit b req w = (Inl (AssignmentConflict (ar_assignment_id req) (ar_vm_id req) (ar_disk_index req)), w)"
proof -
  have "lookup_assignment (ar_assignment_id req) (dw_rows w) = None" using assms(4) by (simp add: lookup_assignment_def find_None_iff)
  then show ?thesis using assms by (auto simp: allocate_def reserve_def list_ex_iff)
qed

subsection \<open>Release\<close>

lemma release_rows_effect:
  assumes t: "lvm_spec t lvs"
  shows "release_rows t rs w = (res, w') \<Longrightarrow>
    (\<forall>q. lr_assignment_id q \<notin> lr_assignment_id ` set rs \<longrightarrow> (q \<in> set (dw_rows w')) = (q \<in> set (dw_rows w))) \<and>
    (\<forall>v. lvs (dw_hw w') v \<subseteq> lvs (dw_hw w) v) \<and>
    (\<forall>v n. n \<in> lvs (dw_hw w) v - lvs (dw_hw w') v \<longrightarrow> (v, n) \<in> (\<lambda>r. (lr_vg r, lr_lv_name r)) ` set rs) \<and>
    (ledger_ok (dw_rows w) \<longrightarrow> ledger_ok (dw_rows w')) \<and> set (dw_rows w') \<subseteq> set (dw_rows w) \<and>
    (res = Inr () \<longrightarrow> (\<forall>q \<in> set (dw_rows w'). lr_assignment_id q \<notin> lr_assignment_id ` set rs) \<and>
       (\<forall>r \<in> set rs. lr_lv_name r \<notin> lvs (dw_hw w') (lr_vg r)))"
proof (induction rs arbitrary: w)
  case (Cons r rs)
  show ?case
  proof (cases "lv_remove t (lr_vg r) (lr_lv_name r) (dw_hw w)")
    case None
    then show ?thesis using Cons.prems by auto
  next
    case (Some h)
    let ?w = "w\<lparr>dw_rows := delete_reservation (lr_assignment_id r) (dw_rows w), dw_hw := h\<rparr>"
    have l: "lvs h = (lvs (dw_hw w))(lr_vg r := lvs (dw_hw w) (lr_vg r) - {lr_lv_name r})" by (rule lvm_specD(3) [OF t Some])
    have sub: "lvs h v \<subseteq> lvs (dw_hw w) v" for v by (auto simp: l)
    have diff: "(v, n) = (lr_vg r, lr_lv_name r)" if "n \<in> lvs (dw_hw w) v - lvs h v" for v n using that by (auto simp: l split: if_splits)
    have gone: "lr_lv_name r \<notin> lvs h (lr_vg r)" by (simp add: l)
    have "release_rows t rs ?w = (res, w')" using Cons.prems Some by simp
    note ih = Cons.IH [OF this]
    note ih3 = ih [THEN conjunct2, THEN conjunct2, THEN conjunct1, rule_format]
    have rows: "(q \<in> set (delete_reservation (lr_assignment_id r) (dw_rows w))) = (q \<in> set (dw_rows w) \<and> lr_assignment_id q \<noteq> lr_assignment_id r)" for q
      by (auto simp: delete_reservation_def)
    have a1: "\<forall>q. lr_assignment_id q \<notin> lr_assignment_id ` set (r # rs) \<longrightarrow> (q \<in> set (dw_rows w')) = (q \<in> set (dw_rows w))"
      using ih rows by simp
    have a2: "\<forall>v. lvs (dw_hw w') v \<subseteq> lvs (dw_hw w) v" using ih [THEN conjunct2, THEN conjunct1] sub by auto
    have a3: "\<forall>v n. n \<in> lvs (dw_hw w) v - lvs (dw_hw w') v \<longrightarrow> (v, n) \<in> (\<lambda>r. (lr_vg r, lr_lv_name r)) ` set (r # rs)"
    proof (intro allI impI)
      fix v n assume d: "n \<in> lvs (dw_hw w) v - lvs (dw_hw w') v"
      show "(v, n) \<in> (\<lambda>r. (lr_vg r, lr_lv_name r)) ` set (r # rs)"
      proof (cases "n \<in> lvs h v")
        case True
        then show ?thesis using ih3 [of n v] d by simp
      qed (use diff [of n v] d in simp)
    qed
    have a4: "ledger_ok (dw_rows w) \<longrightarrow> ledger_ok (dw_rows w')" using ih ledger_delete [of "dw_rows w"] by simp
    have a5: "set (dw_rows w') \<subseteq> set (dw_rows w)" using ih rows by auto
    have a6: "(\<forall>q \<in> set (dw_rows w'). lr_assignment_id q \<notin> lr_assignment_id ` set (r # rs)) \<and>
       (\<forall>r \<in> set (r # rs). lr_lv_name r \<notin> lvs (dw_hw w') (lr_vg r))" if "res = Inr ()"
      using ih rows gone that by auto
    show ?thesis using a1 a2 a3 a4 a5 a6 by blast
  qed
qed simp

lemma release_marks:
  "set_reservation_state i st rows = map (\<lambda>r. if lr_assignment_id r = i then r\<lparr>lr_state := st\<rparr> else r) rows"
  by (simp add: set_reservation_state_def upd_rows_def)

lemma fold_marks:
  "fold (\<lambda>r. set_reservation_state (lr_assignment_id r) st) rs rows =
   map (\<lambda>q. if lr_assignment_id q \<in> lr_assignment_id ` set rs then q\<lparr>lr_state := st\<rparr> else q) rows"
  by (induction rs arbitrary: rows) (auto simp: release_marks)

lemma ledger_fold_marks: "ledger_ok rows \<Longrightarrow> ledger_ok (fold (\<lambda>r. set_reservation_state (lr_assignment_id r) st) rs rows)"
  by (induction rs arbitrary: rows) (simp_all add: ledger_set_state)

text \<open>What a release of a machine's disks may touch: its rows, and the volumes they name.\<close>

definition released :: "('h \<Rightarrow> string \<Rightarrow> string set) \<Rightarrow> string \<Rightarrow> 'h disk_world \<Rightarrow> 'h disk_world \<Rightarrow> bool" where
  "released lvs vmid w w' \<longleftrightarrow> ledger_ok (dw_rows w') \<and>
     (\<forall>q. lr_vm_id q \<noteq> vmid \<longrightarrow> (q \<in> set (dw_rows w')) = (q \<in> set (dw_rows w))) \<and>
     (\<forall>q \<in> set (dw_rows w'). \<exists>r \<in> set (dw_rows w). q = r\<lparr>lr_state := lr_state q\<rparr>) \<and>
     (\<forall>v. lvs (dw_hw w') v \<subseteq> lvs (dw_hw w) v) \<and>
     (\<forall>v n. n \<in> lvs (dw_hw w) v - lvs (dw_hw w') v \<longrightarrow> (\<exists>r \<in> set (dw_rows w). lr_vm_id r = vmid \<and> lr_vg r = v \<and> lr_lv_name r = n))"

lemma releasedD:
  assumes "released lvs vmid w w'"
  shows "ledger_ok (dw_rows w')" "lr_vm_id q \<noteq> vmid \<Longrightarrow> (q \<in> set (dw_rows w')) = (q \<in> set (dw_rows w))"
    "q \<in> set (dw_rows w') \<Longrightarrow> \<exists>r \<in> set (dw_rows w). q = r\<lparr>lr_state := lr_state q\<rparr>" "lvs (dw_hw w') v \<subseteq> lvs (dw_hw w) v"
    "n \<in> lvs (dw_hw w) v \<Longrightarrow> n \<notin> lvs (dw_hw w') v \<Longrightarrow> \<exists>r \<in> set (dw_rows w). lr_vm_id r = vmid \<and> lr_vg r = v \<and> lr_lv_name r = n"
  using assms unfolding released_def by blast+

lemma same_but_state: "q = r\<lparr>lr_state := lr_state q\<rparr> \<Longrightarrow> lr_vm_id q = lr_vm_id r \<and> lr_vg q = lr_vg r \<and> lr_lv_name q = lr_lv_name r \<and>
    lr_assignment_id q = lr_assignment_id r \<and> lr_pool q = lr_pool r"
  by (metis LvmReservationRow.surjective LvmReservationRow.update_convs(9) LvmReservationRow.select_convs)

lemma released_refl: "ledger_ok (dw_rows w) \<Longrightarrow> released lvs vmid w w"
  unfolding released_def by (intro conjI allI ballI impI) (auto intro!: bexI)

lemma released_trans: "released lvs vmid w1 w2 \<Longrightarrow> released lvs vmid w2 w3 \<Longrightarrow> released lvs vmid w1 w3"
proof -
  assume a: "released lvs vmid w1 w2" and b: "released lvs vmid w2 w3"
  have rows: "\<exists>r \<in> set (dw_rows w1). q = r\<lparr>lr_state := lr_state q\<rparr>" if "q \<in> set (dw_rows w3)" for q
  proof -
    obtain p where p: "p \<in> set (dw_rows w2)" "q = p\<lparr>lr_state := lr_state q\<rparr>" using releasedD(3) [OF b \<open>q \<in> set (dw_rows w3)\<close>] by blast
    obtain r where r: "r \<in> set (dw_rows w1)" "p = r\<lparr>lr_state := lr_state p\<rparr>" using releasedD(3) [OF a p(1)] by blast
    have "q = r\<lparr>lr_state := lr_state q\<rparr>" using p(2) r(2) by (cases p, cases r, cases q) simp
    then show ?thesis using r(1) by blast
  qed
  have vols: "\<exists>r \<in> set (dw_rows w1). lr_vm_id r = vmid \<and> lr_vg r = v \<and> lr_lv_name r = n"
    if d: "n \<in> lvs (dw_hw w1) v - lvs (dw_hw w3) v" for v n
  proof (cases "n \<in> lvs (dw_hw w2) v")
    case False
    then show ?thesis using releasedD(5) [OF a, of n v] d by blast
  next
    case True
    then obtain p where p: "p \<in> set (dw_rows w2)" "lr_vm_id p = vmid" "lr_vg p = v" "lr_lv_name p = n"
      using releasedD(5) [OF b, of n v] d by blast
    obtain r where "r \<in> set (dw_rows w1)" "p = r\<lparr>lr_state := lr_state p\<rparr>" using releasedD(3) [OF a p(1)] by blast
    then show ?thesis using p(2-4) same_but_state [of p r] by auto
  qed
  have sub: "lvs (dw_hw w3) v \<subseteq> lvs (dw_hw w1) v" for v using releasedD(4) [OF a, of v] releasedD(4) [OF b, of v] by blast
  show ?thesis unfolding released_def using releasedD(1) [OF b] releasedD(2) [OF a] releasedD(2) [OF b] rows vols sub by simp
qed

lemma release_marked:
  assumes l: "ledger_ok (dw_rows w)" and rs: "rs = filter (\<lambda>r. lr_pool r = p \<and> lr_vm_id r = vmid) (dw_rows w)"
  shows "released lvs vmid w (w\<lparr>dw_rows := fold (\<lambda>r. set_reservation_state (lr_assignment_id r) st) rs (dw_rows w)\<rparr>)"
proof -
  have own: "lr_vm_id q = vmid" if "q \<in> set (dw_rows w)" "lr_assignment_id q \<in> lr_assignment_id ` set rs" for q
    using that ledger_same_id [OF l] rs by auto
  let ?f = "\<lambda>q. if lr_assignment_id q \<in> lr_assignment_id ` set rs then q\<lparr>lr_state := st\<rparr> else q"
  have "q \<in> ?f ` set (dw_rows w) \<longleftrightarrow> q \<in> set (dw_rows w)" if v: "lr_vm_id q \<noteq> vmid" for q
  proof
    assume "q \<in> ?f ` set (dw_rows w)"
    then obtain x where x: "x \<in> set (dw_rows w)" "q = ?f x" by blast
    have "lr_vm_id x = lr_vm_id q" using x(2) by (simp split: if_splits)
    then have "lr_assignment_id x \<notin> lr_assignment_id ` set rs" using own [OF x(1)] v by auto
    then show "q \<in> set (dw_rows w)" using x by simp
  next
    assume q: "q \<in> set (dw_rows w)"
    have "lr_assignment_id q \<notin> lr_assignment_id ` set rs" using own [OF q] v by blast
    then have "?f q = q" by (rule if_not_P)
    then show "q \<in> ?f ` set (dw_rows w)" using imageI [OF q, of ?f] by simp
  qed
  moreover have "\<exists>r \<in> set (dw_rows w). q = r\<lparr>lr_state := lr_state q\<rparr>" if fq: "q \<in> ?f ` set (dw_rows w)" for q
  proof -
    obtain x where x: "x \<in> set (dw_rows w)" "q = ?f x" using fq by blast
    have "q = x\<lparr>lr_state := lr_state q\<rparr>" unfolding x(2) by simp
    then show ?thesis using x(1) by blast
  qed
  ultimately show ?thesis
    using ledger_fold_marks [OF l, of st rs] by (simp add: released_def fold_marks)
qed

lemma release_dropped:
  assumes t: "lvm_spec t lvs" and l: "ledger_ok (dw_rows w)" and rs: "\<forall>r \<in> set rs. lr_vm_id r = vmid \<and> (\<exists>q \<in> set (dw_rows w). r = q\<lparr>lr_state := lr_state r\<rparr>)"
    and e: "release_rows t rs w = (res, w')"
  shows "released lvs vmid w w'"
proof -
  note r = release_rows_effect [OF t e]
  have sub: "set (dw_rows w') \<subseteq> set (dw_rows w)" using r by simp
  have "(q \<in> set (dw_rows w')) = (q \<in> set (dw_rows w))" if v: "lr_vm_id q \<noteq> vmid" for q
  proof (cases "lr_assignment_id q \<in> lr_assignment_id ` set rs")
    case True
    then obtain r p where r: "r \<in> set rs" "lr_assignment_id q = lr_assignment_id r" "p \<in> set (dw_rows w)" "r = p\<lparr>lr_state := lr_state r\<rparr>" "lr_vm_id r = vmid"
      using rs by auto
    have "q \<notin> set (dw_rows w)" using ledger_same_id [OF l r(3), of q] same_but_state [OF r(4)] r(2,5) v by auto
    then show ?thesis using sub by blast
  qed (use r in blast)
  moreover have "\<exists>r \<in> set (dw_rows w). lr_vm_id r = vmid \<and> lr_vg r = v \<and> lr_lv_name r = n"
    if d: "n \<in> lvs (dw_hw w) v - lvs (dw_hw w') v" for v n
  proof -
    have "(v, n) \<in> (\<lambda>r. (lr_vg r, lr_lv_name r)) ` set rs" using r d by simp
    then obtain r p where "r \<in> set rs" "v = lr_vg r" "n = lr_lv_name r" "p \<in> set (dw_rows w)" "r = p\<lparr>lr_state := lr_state r\<rparr>" "lr_vm_id r = vmid"
      using rs by auto
    then show ?thesis using same_but_state by metis
  qed
  moreover have "\<exists>r \<in> set (dw_rows w). q = r\<lparr>lr_state := lr_state q\<rparr>" if "q \<in> set (dw_rows w')" for q
    using that sub by (intro bexI [of _ q]) auto
  ultimately show ?thesis unfolding released_def using r l by simp
qed

lemma release_effect:
  assumes t: "lvm_spec t lvs" and l: "ledger_ok (dw_rows w)" and e: "release t permit b vmid w = (res, w')"
  shows "released lvs vmid w w'"
    and "res = Inr () \<Longrightarrow> q \<in> set (dw_rows w') \<Longrightarrow> lr_vm_id q = vmid \<Longrightarrow> lr_pool q \<noteq> be_pool b"
    and "res = Inr () \<Longrightarrow> r \<in> set (dw_rows w) \<Longrightarrow> lr_vm_id r = vmid \<Longrightarrow> lr_pool r = be_pool b \<Longrightarrow> lr_lv_name r \<notin> lvs (dw_hw w') (lr_vg r)"
    and "r \<in> set (dw_rows w) \<Longrightarrow> lr_pool r \<noteq> be_pool b \<Longrightarrow> r \<in> set (dw_rows w')"
proof -
  define rs where "rs = filter (\<lambda>r. lr_pool r = be_pool b \<and> lr_vm_id r = vmid) (dw_rows w)"
  define w1 where "w1 = w\<lparr>dw_rows := fold (\<lambda>r. set_reservation_state (lr_assignment_id r) ''Deleting'') rs (dw_rows w)\<rparr>"
  have m: "released lvs vmid w w1" unfolding w1_def by (rule release_marked [OF l rs_def])
  have cases: "rs = [] \<and> w' = w \<or> w' = w1 \<and> res \<noteq> Inr () \<or> release_rows t rs w1 = (res, w')"
    using e by (auto simp: release_def Let_def rs_def [symmetric] w1_def [symmetric] split: if_splits)
  have own: "\<forall>r \<in> set rs. lr_vm_id r = vmid \<and> (\<exists>q \<in> set (dw_rows w1). r = q\<lparr>lr_state := lr_state r\<rparr>)"
  proof
    fix r assume r: "r \<in> set rs"
    have "r\<lparr>lr_state := ''Deleting''\<rparr> \<in> set (dw_rows w1)" using r by (force simp: w1_def fold_marks rs_def)
    then show "lr_vm_id r = vmid \<and> (\<exists>q \<in> set (dw_rows w1). r = q\<lparr>lr_state := lr_state r\<rparr>)"
      using r by (auto simp: rs_def intro!: bexI [of _ "r\<lparr>lr_state := ''Deleting''\<rparr>"])
  qed
  have "released lvs vmid w w" by (rule released_refl [OF l])
  then show rel: "released lvs vmid w w'"
    using cases m released_trans [OF m release_dropped [OF t releasedD(1) [OF m] own]] by blast
  show "lr_pool q \<noteq> be_pool b" if q: "res = Inr ()" "q \<in> set (dw_rows w')" "lr_vm_id q = vmid"
  proof
    assume p: "lr_pool q = be_pool b"
    obtain r where r: "r \<in> set (dw_rows w)" "q = r\<lparr>lr_state := lr_state q\<rparr>" using releasedD(3) [OF rel q(2)] by blast
    then have "r \<in> set rs" using same_but_state [OF r(2)] p q(3) by (simp add: rs_def)
    then show False using cases q(1,2) release_rows_effect [OF t, of rs w1 res w'] same_but_state [OF r(2)] by auto
  qed
  show "lr_lv_name r \<notin> lvs (dw_hw w') (lr_vg r)" if "res = Inr ()" "r \<in> set (dw_rows w)" "lr_vm_id r = vmid" "lr_pool r = be_pool b"
  proof -
    have "r \<in> set rs" using that by (simp add: rs_def)
    then show ?thesis using cases that(1) release_rows_effect [OF t, of rs w1 res w'] by auto
  qed
  show "r \<in> set (dw_rows w')" if r: "r \<in> set (dw_rows w)" "lr_pool r \<noteq> be_pool b"
  proof -
    have n: "lr_assignment_id r \<notin> lr_assignment_id ` set rs" using ledger_same_id [OF l] r by (auto simp: rs_def)
    then have "r \<in> set (dw_rows w1)" using r(1) by (auto simp: w1_def fold_marks image_iff intro!: bexI [of _ r])
    then show ?thesis using cases r(1) n release_rows_effect [OF t, of rs w1 res w'] by blast
  qed
qed

lemma release_vm_disks_effect:
  assumes t: "lvm_spec t lvs"
  shows "ledger_ok (dw_rows w) \<Longrightarrow> release_vm_disks t permit bs vmid w = (res, w') \<Longrightarrow>
    released lvs vmid w w' \<and> (res = Inr () \<longrightarrow> (\<forall>q \<in> set (dw_rows w'). lr_vm_id q = vmid \<longrightarrow> lr_pool q \<notin> be_pool ` set bs) \<and>
      (\<forall>r \<in> set (dw_rows w). lr_vm_id r = vmid \<and> lr_pool r \<in> be_pool ` set bs \<longrightarrow> lr_lv_name r \<notin> lvs (dw_hw w') (lr_vg r)))"
proof (induction bs arbitrary: w)
  case Nil
  then show ?case by (auto simp: released_refl)
next
  case (Cons b bs)
  obtain res1 w1 where r1: "release t permit b vmid w = (res1, w1)" by (metis prod.exhaust)
  note e = release_effect [OF t Cons.prems(1) r1]
  have l1: "ledger_ok (dw_rows w1)" by (rule releasedD(1) [OF e(1)])
  show ?case
  proof (cases res1)
    case (Inl err)
    then show ?thesis using Cons.prems(2) r1 e(1) by auto
  next
    case (Inr u)
    have r2: "release_vm_disks t permit bs vmid w1 = (res, w')" using Cons.prems(2) r1 Inr by simp
    note ih = Cons.IH [OF l1 r2]
    have rel2: "released lvs vmid w1 w'" using ih by blast
    have rows: "lr_pool q \<notin> be_pool ` set (b # bs)" if q: "res = Inr ()" "q \<in> set (dw_rows w')" "lr_vm_id q = vmid" for q
    proof -
      obtain p where p: "p \<in> set (dw_rows w1)" "q = p\<lparr>lr_state := lr_state q\<rparr>" using releasedD(3) [OF rel2 q(2)] by blast
      have "lr_pool p \<noteq> be_pool b" using e(2) [OF _ p(1)] same_but_state [OF p(2)] q(3) Inr by simp
      then show ?thesis using ih q same_but_state [OF p(2)] by auto
    qed
    have vols: "lr_lv_name r \<notin> lvs (dw_hw w') (lr_vg r)"
      if "res = Inr ()" "r \<in> set (dw_rows w)" "lr_vm_id r = vmid" "lr_pool r \<in> be_pool ` set (b # bs)" for r
    proof (cases "lr_lv_name r \<in> lvs (dw_hw w1) (lr_vg r)")
      case False
      then show ?thesis using releasedD(4) [OF rel2] by blast
    next
      case True
      then have np: "lr_pool r \<noteq> be_pool b" using e(3) [OF _ that(2,3)] Inr by auto
      then show ?thesis using ih that e(4) [OF that(2) np] by auto
    qed
    show ?thesis using released_trans [OF e(1) rel2] rows vols by blast
  qed
qed

text \<open>Every row is still there, up to its state, or its volume is gone; volumes only go.\<close>

definition covered :: "('h \<Rightarrow> string \<Rightarrow> string set) \<Rightarrow> 'h disk_world \<Rightarrow> 'h disk_world \<Rightarrow> bool" where
  "covered lvs w w' \<longleftrightarrow> (\<forall>v. lvs (dw_hw w') v \<subseteq> lvs (dw_hw w) v) \<and>
     (\<forall>r \<in> set (dw_rows w). lr_lv_name r \<in> lvs (dw_hw w') (lr_vg r) \<longrightarrow> (\<exists>q \<in> set (dw_rows w'). q = r\<lparr>lr_state := lr_state q\<rparr>))"

lemma row_self: "q \<in> S \<Longrightarrow> \<exists>p \<in> S. p = q\<lparr>lr_state := lr_state p\<rparr>"
  by (rule bexI [of _ q]) simp_all

lemma covered_keep: "(\<And>v. lvs (dw_hw w') v \<subseteq> lvs (dw_hw w) v) \<Longrightarrow> set (dw_rows w) \<subseteq> set (dw_rows w') \<Longrightarrow> covered lvs w w'"
  unfolding covered_def by (auto intro: row_self)

lemma covered_trans: "covered lvs w1 w2 \<Longrightarrow> covered lvs w2 w3 \<Longrightarrow> covered lvs w1 w3"
proof -
  assume a: "covered lvs w1 w2" and b: "covered lvs w2 w3"
  have sub: "lvs (dw_hw w3) v \<subseteq> lvs (dw_hw w2) v" for v using b by (simp add: covered_def)
  have "\<exists>q \<in> set (dw_rows w3). q = r\<lparr>lr_state := lr_state q\<rparr>" if r: "r \<in> set (dw_rows w1)" "lr_lv_name r \<in> lvs (dw_hw w3) (lr_vg r)" for r
  proof -
    obtain p where p: "p \<in> set (dw_rows w2)" "p = r\<lparr>lr_state := lr_state p\<rparr>" using a r sub unfolding covered_def by blast
    then obtain q where q: "q \<in> set (dw_rows w3)" "q = p\<lparr>lr_state := lr_state q\<rparr>"
      using b r(2) same_but_state [OF p(2)] unfolding covered_def by metis
    have "q = r\<lparr>lr_state := lr_state q\<rparr>" using p(2) q(2) by (cases p, cases r, cases q) simp
    then show ?thesis using q(1) by blast
  qed
  then show ?thesis using a sub unfolding covered_def by blast
qed

lemma release_rows_covered:
  assumes t: "lvm_spec t lvs"
  shows "ledger_ok (dw_rows w) \<Longrightarrow> \<forall>r \<in> set rs. \<forall>q \<in> set (dw_rows w). lr_assignment_id q = lr_assignment_id r \<longrightarrow> lr_vg q = lr_vg r \<and> lr_lv_name q = lr_lv_name r \<Longrightarrow>
    release_rows t rs w = (res, w') \<Longrightarrow> covered lvs w w'"
proof (induction rs arbitrary: w)
  case (Cons r rs)
  show ?case
  proof (cases "lv_remove t (lr_vg r) (lr_lv_name r) (dw_hw w)")
    case None
    then show ?thesis using Cons.prems(3) covered_keep [of lvs w w] by auto
  next
    case (Some h)
    let ?w = "w\<lparr>dw_rows := delete_reservation (lr_assignment_id r) (dw_rows w), dw_hw := h\<rparr>"
    have "covered lvs ?w w'"
      using Cons.prems Some ledger_delete by (intro Cons.IH) (auto simp: delete_reservation_def)
    moreover have "covered lvs w ?w"
    proof -
      have h: "lvs h = (lvs (dw_hw w))(lr_vg r := lvs (dw_hw w) (lr_vg r) - {lr_lv_name r})" by (rule lvm_specD(3) [OF t Some])
      have "q \<in> set (delete_reservation (lr_assignment_id r) (dw_rows w))" if "q \<in> set (dw_rows w)" "lr_lv_name q \<in> lvs h (lr_vg q)" for q
      proof -
        have "lr_lv_name r \<notin> lvs h (lr_vg r)" by (simp add: h)
        then have "lr_assignment_id q \<noteq> lr_assignment_id r" using that Cons.prems(2) by (metis list.set_intros(1))
        then show ?thesis using that(1) by (simp add: delete_reservation_def)
      qed
      moreover have "lvs h v \<subseteq> lvs (dw_hw w) v" for v by (auto simp: h)
      ultimately show ?thesis unfolding covered_def by (simp add: row_self)
    qed
    ultimately show ?thesis using covered_trans by blast
  qed
qed (auto intro: covered_keep)

lemma marks_covered:
  "covered lvs w (w\<lparr>dw_rows := fold (\<lambda>r. set_reservation_state (lr_assignment_id r) st) rs (dw_rows w)\<rparr>)"
  unfolding covered_def
proof (intro conjI allI ballI impI)
  let ?f = "\<lambda>q. if lr_assignment_id q \<in> lr_assignment_id ` set rs then q\<lparr>lr_state := st\<rparr> else q"
  fix r assume "r \<in> set (dw_rows w)"
  then show "\<exists>q \<in> set (dw_rows (w\<lparr>dw_rows := fold (\<lambda>r. set_reservation_state (lr_assignment_id r) st) rs (dw_rows w)\<rparr>)). q = r\<lparr>lr_state := lr_state q\<rparr>"
    by (intro bexI [of _ "?f r"]) (auto simp: fold_marks)
qed simp

lemma release_covered:
  assumes t: "lvm_spec t lvs" and l: "ledger_ok (dw_rows w)" and e: "release t permit b vmid w = (res, w')"
  shows "covered lvs w w'"
proof -
  define rs where "rs = filter (\<lambda>r. lr_pool r = be_pool b \<and> lr_vm_id r = vmid) (dw_rows w)"
  define w1 where "w1 = w\<lparr>dw_rows := fold (\<lambda>r. set_reservation_state (lr_assignment_id r) ''Deleting'') rs (dw_rows w)\<rparr>"
  have m: "covered lvs w w1" unfolding w1_def by (rule marks_covered)
  have cases: "w' = w \<or> w' = w1 \<or> release_rows t rs w1 = (res, w')"
    using e by (auto simp: release_def Let_def rs_def [symmetric] w1_def [symmetric] split: if_splits)
  have "\<forall>r \<in> set rs. \<forall>q \<in> set (dw_rows w1). lr_assignment_id q = lr_assignment_id r \<longrightarrow> lr_vg q = lr_vg r \<and> lr_lv_name q = lr_lv_name r"
    using ledger_same_id [OF l] by (fastforce simp: w1_def fold_marks rs_def split: if_splits)
  moreover have "ledger_ok (dw_rows w1)" using ledger_fold_marks [OF l] by (simp add: w1_def)
  ultimately have "release_rows t rs w1 = (res, w') \<Longrightarrow> covered lvs w1 w'" using release_rows_covered [OF t] by blast
  then show ?thesis using cases m covered_trans covered_keep [of lvs w w] by blast
qed

lemma release_vm_disks_covered:
  assumes t: "lvm_spec t lvs"
  shows "ledger_ok (dw_rows w) \<Longrightarrow> release_vm_disks t permit bs vmid w = (res, w') \<Longrightarrow> covered lvs w w'"
proof (induction bs arbitrary: w)
  case (Cons b bs)
  obtain r1 w1 where r1: "release t permit b vmid w = (r1, w1)" by (metis prod.exhaust)
  have "covered lvs w w1" "ledger_ok (dw_rows w1)"
    using release_covered [OF t Cons.prems(1) r1] releasedD(1) [OF release_effect(1) [OF t Cons.prems(1) r1]] .
  then show ?case using Cons r1 covered_trans by (fastforce split: sum.splits)
qed (auto intro: covered_keep)

subsection \<open>Properties\<close>

text \<open>
  C20. Allocation is idempotent and exclusive.  Whatever its outcome, it leaves the rows of other
  assignments and the volumes of other disks as they were and keeps the ledger's invariant.  When it
  succeeds, the ledger has the assignment's row, ready and naming the volume returned; the same
  request then returns the same allocation and changes nothing, with or without a permit; and a
  request with another assignment for the same disk is refused and changes nothing.
\<close>

theorem allocate_idempotent:
  assumes t: "lvm_spec t lvs" and l: "ledger_ok (dw_rows w)" and req: "ar_vm_id req \<noteq> []" "ar_disk_index req \<le> u32_max" "ar_min_size_gib req < 2 ^ 64"
    and own: "\<forall>r \<in> set (dw_rows w). lr_assignment_id r = ar_assignment_id req \<longrightarrow>
      lr_vm_id r = ar_vm_id req \<and> lr_disk_index r = int (ar_disk_index req)"
    and e: "allocate t permit b req w = (res, w')"
  shows "ledger_ok (dw_rows w') \<and>
    (\<forall>q. lr_assignment_id q \<noteq> ar_assignment_id req \<longrightarrow> (q \<in> set (dw_rows w')) = (q \<in> set (dw_rows w))) \<and>
    (\<forall>v m. m \<noteq> lv_name (ar_vm_id req) (ar_disk_index req) \<longrightarrow> (m \<in> lvs (dw_hw w') v) = (m \<in> lvs (dw_hw w) v)) \<and>
    (\<forall>al. res = Inr al \<longrightarrow>
      (\<exists>r \<in> set (dw_rows w'). lr_assignment_id r = ar_assignment_id req \<and> lr_state r = ''Ready'' \<and>
         al_path al = lv_path (lr_vg r) (lr_lv_name r)) \<and>
      (\<forall>permit'. allocate t permit' b req w' = (Inr al, w')) \<and>
      (\<forall>req2 permit2. ar_vm_id req2 = ar_vm_id req \<and> ar_disk_index req2 = ar_disk_index req \<and>
         (\<forall>q \<in> set (dw_rows w'). lr_assignment_id q \<noteq> ar_assignment_id req2) \<longrightarrow>
         allocate t permit2 b req2 w' = (Inl (AssignmentConflict (ar_assignment_id req2) (ar_vm_id req) (ar_disk_index req)), w')))"
proof -
  note f = allocate_frame [OF t e]
  have l': "ledger_ok (dw_rows w')" by (rule f(3) [OF l req(1,2)])
  have ok: "(\<exists>r \<in> set (dw_rows w'). lr_assignment_id r = ar_assignment_id req \<and> lr_state r = ''Ready'' \<and>
         al_path al = lv_path (lr_vg r) (lr_lv_name r)) \<and>
      (\<forall>permit'. allocate t permit' b req w' = (Inr al, w')) \<and>
      (\<forall>req2 permit2. ar_vm_id req2 = ar_vm_id req \<and> ar_disk_index req2 = ar_disk_index req \<and>
         (\<forall>q \<in> set (dw_rows w'). lr_assignment_id q \<noteq> ar_assignment_id req2) \<longrightarrow>
         allocate t permit2 b req2 w' = (Inl (AssignmentConflict (ar_assignment_id req2) (ar_vm_id req) (ar_disk_index req)), w'))"
    if al: "res = Inr al" for al
  proof -
    from allocate_row [OF t own req(3) e [unfolded al]] obtain r where r: "r \<in> set (dw_rows w')"
      "lr_assignment_id r = ar_assignment_id req" "lr_vm_id r = ar_vm_id req" "lr_disk_index r = int (ar_disk_index req)"
      "lr_state r = ''Ready''" "al_path al = lv_path (lr_vg r) (lr_lv_name r)" "al_actual_size_gib al = as_u64 (lr_size_gib r)" by blast
    have al': "al = \<lparr>al_path = lv_path (lr_vg r) (lr_lv_name r), al_actual_size_gib = as_u64 (lr_size_gib r)\<rparr>" using r(6,7) by simp
    show ?thesis
      using r allocate_again [OF l' r(1,2,5)] allocate_conflict [OF r(1)] by (intro conjI allI impI) (auto simp: al')
  qed
  show ?thesis using l' f(1,2) ok by blast
qed

text \<open>
  C15. Reconcile never destroys a live disk, whether it ends or stops at an error.  The volume of a
  row whose machine is live and that is not being deleted stays, and so do the ready rows of live
  machines and all rows of other pools; no volume appears; a removed volume belonged to a row of the
  pool that was being deleted or to a machine that is not live.  When it ends, no row of the pool is
  left being created or deleted.
\<close>

theorem reconcile_keeps_live_disks:
  assumes t: "lvm_spec t lvs" and l: "ledger_ok (dw_rows w)" and e: "backend_reconcile t permits b live w = (res, w', rep)"
  shows "(\<forall>r \<in> set (dw_rows w). lr_vm_id r \<in> live \<and> lr_state r \<noteq> ''Deleting'' \<and> lr_lv_name r \<in> lvs (dw_hw w) (lr_vg r) \<longrightarrow>
      lr_lv_name r \<in> lvs (dw_hw w') (lr_vg r)) \<and>
    (\<forall>r \<in> set (dw_rows w). settled b live r \<longrightarrow> r \<in> set (dw_rows w')) \<and>
    (\<forall>vg. lvs (dw_hw w') vg \<subseteq> lvs (dw_hw w) vg) \<and>
    (\<forall>vg n. n \<in> lvs (dw_hw w) vg - lvs (dw_hw w') vg \<longrightarrow> removable b live (dw_rows w) vg n) \<and>
    ledger_ok (dw_rows w') \<and>
    (res = Inr () \<longrightarrow> (\<forall>r \<in> set (dw_rows w'). lr_pool r = be_pool b \<longrightarrow> lr_state r \<noteq> ''Creating'' \<and> lr_state r \<noteq> ''Deleting''))"
proof -
  have s: "recon_safe lvs b live w w'" by (rule backend_reconcile_safe [OF t l e])
  have "lr_state r \<noteq> ''Creating'' \<and> lr_state r \<noteq> ''Deleting''" if "res = Inr ()" "r \<in> set (dw_rows w')" "lr_pool r = be_pool b" for r
    using backend_reconcile_resolves [OF l _ s that(2,3)] e that(1) by blast
  then show ?thesis using live_volume_kept [OF l s] recon_safeD [OF s] by blast
qed

text \<open>An instance of the tools: a group is the list of its volumes.\<close>

definition lvs_ref :: "(string \<times> string) list \<Rightarrow> string \<Rightarrow> string set" where
  "lvs_ref h vg = trim ` {n. (vg, n) \<in> set h}"

definition lvm_ref :: "(string \<times> string) list lvm_tools" where
  "lvm_ref = \<lparr>lv_lines = \<lambda>h vg. Some (map snd (filter (\<lambda>x. fst x = vg) h)),
     lv_attrs = \<lambda>h vg n. Some (if list_ex (\<lambda>x. fst x = vg \<and> trim (snd x) = n) h then ''-wi-a-----'' else ''''),
     lv_create = \<lambda>vg n k h. if trim n = n \<and> 0 < k then Some ((vg, n) # h) else None,
     lv_remove = \<lambda>vg n h. Some (filter (\<lambda>x. \<not> (fst x = vg \<and> trim (snd x) = n)) h),
     lv_create_thin = \<lambda>vg pool n k h. Some ((vg, n) # h), lv_snapshot = \<lambda>vg n orig h. if trim n = n then Some ((vg, n) # h) else None,
     lv_extend = \<lambda>vg n k h. Inr h, lv_readonly = \<lambda>vg n h. Some h, qemu_convert = \<lambda>src vg n h. (Some True, h)\<rparr>"

lemma lvm_ref_spec: "lvm_spec lvm_ref lvs_ref"
proof -
  have "trim ''-wi-a-----'' \<noteq> ''''" by (simp add: trim_def trim_start_def is_whitespace_def)
  moreover have "trim '''' = ''''" by (simp add: trim_def trim_start_def)
  ultimately have "lv_attr lvm_ref h vg n = Some a \<Longrightarrow> (a \<noteq> None) = (n \<in> lvs_ref h vg)" for h vg n a
    by (auto simp: lv_attr_def lvm_ref_def lvs_ref_def list_ex_iff split: if_splits)
  moreover have "lv_lines lvm_ref h vg = Some ls \<Longrightarrow> trim ` set ls = lvs_ref h vg" for h vg ls
    by (auto simp: lvm_ref_def lvs_ref_def image_iff)
  moreover have "lv_remove lvm_ref vg n h = Some h' \<Longrightarrow> lvs_ref h' = (lvs_ref h)(vg := lvs_ref h vg - {n})" for vg n h h'
    by (auto simp: lvm_ref_def lvs_ref_def fun_eq_iff)
  moreover have "lv_create lvm_ref vg n k h = Some h' \<Longrightarrow> lvs_ref h' = (lvs_ref h)(vg := insert n (lvs_ref h vg))" for vg n k h h'
    by (auto simp: lvm_ref_def lvs_ref_def fun_eq_iff split: if_splits intro: image_eqI [of _ _ n])
  moreover have "lv_snapshot lvm_ref vg n orig h = Some h' \<Longrightarrow> lvs_ref h' = (lvs_ref h)(vg := insert n (lvs_ref h vg))" for vg n orig h h'
    by (auto simp: lvm_ref_def lvs_ref_def fun_eq_iff split: if_splits intro: image_eqI [of _ _ n])
  moreover have "lv_extend lvm_ref vg n k h = Inr h' \<Longrightarrow> lvs_ref h' = lvs_ref h" for vg n k h h'
    by (simp add: lvm_ref_def)
  ultimately show ?thesis unfolding lvm_spec_def by blast
qed

definition example_backend :: backend where
  "example_backend = \<lparr>be_pool = ''bulk'', be_device_vgs = [(''sdb'', ''vg-b'')]\<rparr>"

definition example_disk_request :: DiskAllocationRequest where
  "example_disk_request = \<lparr>ar_assignment_id = ''a1'', ar_device_id = ''sdb'', ar_vm_id = ''v'', ar_disk_index = 0, ar_min_size_gib = 10\<rparr>"

definition example_row :: "string \<Rightarrow> string \<Rightarrow> string \<Rightarrow> LvmReservationRow" where
  "example_row i vmid st = \<lparr>lr_assignment_id = i, lr_pool = ''bulk'', lr_device_id = ''sdb'', lr_vg = ''vg-b'',
     lr_lv_name = lv_name vmid 0, lr_vm_id = vmid, lr_disk_index = 0, lr_size_gib = 10, lr_state = st\<rparr>"

definition example_disks :: "(string \<times> string) list disk_world" where
  "example_disks = \<lparr>dw_rows = [example_row ''a1'' ''v'' ''Ready'', example_row ''a2'' ''w'' ''Deleting''],
     dw_hw = [(''vg-b'', lv_name ''v'' 0), (''vg-b'', lv_name ''w'' 0), (''vg-b'', lv_name ''x'' 0)]\<rparr>"

lemma example_names:
  "lv_name ''v'' 0 = ''basis-data-v-0''" "lv_name ''w'' 0 = ''basis-data-w-0''" "lv_name ''x'' 0 = ''basis-data-x-0''"
  by code_simp+

text \<open>Witness of C20: the first allocation of a disk in an empty pool.\<close>

theorem allocate_idempotent_witness:
  "\<exists>w'. allocate lvm_ref True example_backend example_disk_request \<lparr>dw_rows = [], dw_hw = []\<rparr> =
      (Inr \<lparr>al_path = ''/dev/vg-b/basis-data-v-0'', al_actual_size_gib = 10\<rparr>, w') \<and>
    allocate lvm_ref False example_backend example_disk_request w' =
      (Inr \<lparr>al_path = ''/dev/vg-b/basis-data-v-0'', al_actual_size_gib = 10\<rparr>, w')"
proof -
  let ?w = "\<lparr>dw_rows = [], dw_hw = []\<rparr> :: (string \<times> string) list disk_world"
  have "\<exists>w'. allocate lvm_ref True example_backend example_disk_request ?w =
      (Inr \<lparr>al_path = ''/dev/vg-b/basis-data-v-0'', al_actual_size_gib = 10\<rparr>, w')"
    by (simp add: allocate_def reserve_def make_volume_def lookup_assignment_def insert_reservation_def example_backend_def
        example_disk_request_def lvm_ref_def lv_attr_def trim_def trim_start_def is_whitespace_def lv_path_def example_names Let_def)
  then obtain w' where w: "allocate lvm_ref True example_backend example_disk_request ?w =
      (Inr \<lparr>al_path = ''/dev/vg-b/basis-data-v-0'', al_actual_size_gib = 10\<rparr>, w')" by blast
  have "ledger_ok (dw_rows ?w)" by (simp add: ledger_ok_def)
  from allocate_idempotent [OF lvm_ref_spec this _ _ _ _ w] show ?thesis
    using w by (auto simp: example_disk_request_def u32_max_def)
qed

text \<open>Witness of C15: of three volumes the one of the live machine stays.\<close>

theorem reconcile_keeps_live_disks_witness:
  "let (res, w', rep) = backend_reconcile lvm_ref (\<lambda>_. True) example_backend {''v''} example_disks in
     lv_name ''v'' 0 \<in> lvs_ref (dw_hw w') ''vg-b'' \<and> example_row ''a1'' ''v'' ''Ready'' \<in> set (dw_rows w')"
proof -
  have tr: "trim ''basis-data-v-0'' = ''basis-data-v-0''" by (simp add: trim_def trim_start_def is_whitespace_def)
  obtain res w' rep where e: "backend_reconcile lvm_ref (\<lambda>_. True) example_backend {''v''} example_disks = (res, w', rep)"
    by (metis prod_cases3)
  have l: "ledger_ok (dw_rows example_disks)"
    by (simp add: ledger_ok_def example_disks_def example_row_def row_named_def example_names)
  have r: "example_row ''a1'' ''v'' ''Ready'' \<in> set (dw_rows example_disks)" by (simp add: example_disks_def)
  have v: "lv_name ''v'' 0 \<in> lvs_ref (dw_hw example_disks) ''vg-b''"
    unfolding example_names lvs_ref_def by (rule image_eqI [of _ trim "''basis-data-v-0''", OF tr [symmetric]]) (simp add: example_disks_def example_names)
  have sel: "lr_vm_id (example_row ''a1'' ''v'' ''Ready'') = ''v''" "lr_state (example_row ''a1'' ''v'' ''Ready'') = ''Ready''"
    "lr_vg (example_row ''a1'' ''v'' ''Ready'') = ''vg-b''" "lr_lv_name (example_row ''a1'' ''v'' ''Ready'') = lv_name ''v'' 0"
    by (simp_all add: example_row_def)
  note k = reconcile_keeps_live_disks [OF lvm_ref_spec l e]
  have "lv_name ''v'' 0 \<in> lvs_ref (dw_hw w') ''vg-b''" using bspec [OF conjunct1 [OF k] r] v by (simp add: sel)
  moreover have "example_row ''a1'' ''v'' ''Ready'' \<in> set (dw_rows w')"
    using bspec [OF conjunct1 [OF conjunct2 [OF k]] r] by (simp add: sel settled_def)
  ultimately show ?thesis by (simp add: e)
qed

text \<open>
  A volume whose creation was interrupted is not removed in the pass that finds its machine gone: the
  pass drops the row but still counts the volume as claimed.
\<close>

theorem interrupted_create_leaves_volume:
  assumes t: "lvm_spec t lvs" and "ledger_ok (dw_rows w)" and e: "backend_reconcile t permits b live w = (res, w', rep)"
    and r: "r \<in> set (dw_rows w)" "lr_pool r = be_pool b" "lr_state r = ''Creating''" "lr_lv_name r \<in> lvs (dw_hw w) (lr_vg r)"
  shows "lr_lv_name r \<in> lvs (dw_hw w') (lr_vg r)"
proof (rule ccontr)
  assume "lr_lv_name r \<notin> lvs (dw_hw w') (lr_vg r)"
  then have "removable b live (dw_rows w) (lr_vg r) (lr_lv_name r)"
    using recon_safeD(3) [OF backend_reconcile_safe [OF assms(1-3)]] r(4) by blast
  moreover have "lr_state q = ''Creating''" if "q \<in> set (dw_rows w)" "lr_vg q = lr_vg r" "lr_lv_name q = lr_lv_name r" for q
    using ledger_same_volume [OF assms(2) r(1) that] r(3) by simp
  ultimately show False using r(1,2) by (fastforce simp: removable_def)
qed

text \<open>A volume group that is gone is reported as degraded: the state \<open>Missing\<close> is never reached.\<close>

theorem missing_group_reported_degraded: "d \<in> set (devices vgs p) \<Longrightarrow> pq_physical d \<noteq> Missing"
  by (auto simp: devices_def pool_device_def vg_capacity_def Let_def split: sum.splits option.splits)

end
