(* ===== verification/Agent_Image.thy ===== *)
theory Agent_Image
  imports Agent_Lvm
begin

text \<open>
  The image cache of the host agent (\<open>basis-agent/src/image.rs\<close>): file names, digest check of
  pulled layers, the golden volume of an image and the network configuration handed to a guest.  The
  registry client, SHA-256, \<open>qemu-img\<close> and the file system are parameters.
\<close>

subsection \<open>Names, digests, guest network\<close>

definition image_ref_to_prefix :: "string \<Rightarrow> string" where
  "image_ref_to_prefix = map (\<lambda>c. if c \<in> {CHR ''/'', CHR '':'', CHR ''.''} then CHR ''_'' else c)"

definition hex_digit :: "nat \<Rightarrow> char" where
  "hex_digit n = ''0123456789abcdef'' ! n"

definition hex_lower :: "nat list \<Rightarrow> string" where
  "hex_lower bytes = concat (map (\<lambda>b. [hex_digit (b div 16), hex_digit (b mod 16)]) bytes)"

text \<open>The ways a pull can fail (a malformed reference, the network, the local disk) are one constructor.\<close>

datatype ImageError =
    PullFailed | MissingLayer string | DigestMismatch string string string | UnsupportedDigest string
  | ImageLvm LvmError | ImageInfo

definition verify_digest :: "string \<Rightarrow> string \<Rightarrow> nat list \<Rightarrow> (ImageError, unit) res" where
  "verify_digest media_type expected actual =
     (case split_once (\<lambda>c. c = CHR '':'') expected of
        None \<Rightarrow> Inl (UnsupportedDigest expected)
      | Some (alg, hex_expected) \<Rightarrow>
          if alg \<noteq> ''sha256'' then Inl (UnsupportedDigest alg)
          else if to_lowercase hex_expected \<noteq> to_lowercase (hex_lower actual)
          then Inl (DigestMismatch media_type expected (''sha256:'' @ hex_lower actual))
          else Inr ())"

definition virtual_size_gib :: "nat \<Rightarrow> nat" where
  "virtual_size_gib bytes = (bytes + (2 ^ 30 - 1)) div 2 ^ 30"

record GuestNetwork =
  gn_mac :: string
  gn_ip_address :: string
  gn_gateway :: string
  gn_prefix_len :: nat
  gn_dns_servers :: "string list"
  gn_mtu :: nat

definition nl :: string where "nl = [CHR 0x0A]"

definition network_config :: "GuestNetwork \<Rightarrow> string" where
  "network_config g =
     ''network:'' @ nl @ ''  version: 2'' @ nl @ ''  ethernets:'' @ nl @ ''    primary:'' @ nl @ ''      match:'' @ nl @
     ''        macaddress: '' @ [CHR 0x22] @ gn_mac g @ [CHR 0x22] @ nl @ ''      mtu: '' @ show_nat (gn_mtu g) @ nl @
     ''      addresses:'' @ nl @ ''        - '' @ gn_ip_address g @ ''/'' @ show_nat (gn_prefix_len g) @ nl @
     ''      gateway4: '' @ gn_gateway g @ nl @ ''      nameservers:'' @ nl @ ''        addresses:'' @ nl @
     concat (map (\<lambda>d. ''          - '' @ d @ nl) (gn_dns_servers g))"

subsection \<open>Pulling\<close>

definition MEDIA_TYPE_QCOW2 :: string where "MEDIA_TYPE_QCOW2 = ''application/vnd.lattice.node.v1+qcow2''"

definition MEDIA_TYPE_KERNEL :: string where "MEDIA_TYPE_KERNEL = ''application/vnd.lattice.node.v1+kernel''"

definition MEDIA_TYPE_INITRD :: string where "MEDIA_TYPE_INITRD = ''application/vnd.lattice.node.v1+initrd''"

record layer =
  ly_media_type :: string
  ly_digest :: string

text \<open>
  The registry and the tools: the layers of an image's manifest, the bytes of a layer (\<open>None\<close> when
  the stream fails or stalls), SHA-256, whether \<open>qemu-img\<close> rewrites the disk image, and the size it
  reports.
\<close>

record registry =
  re_manifest :: "string \<Rightarrow> layer list option"
  re_blob :: "layer \<Rightarrow> nat list option"
  re_sha256 :: "nat list \<Rightarrow> nat list"
  re_decompress :: bool
  re_info :: "string \<Rightarrow> nat option"

text \<open>The cache directory is the set of its files; a layer appears there only after its check.\<close>

fun pull_layers :: "registry \<Rightarrow> layer list \<Rightarrow> (string \<times> string) list \<Rightarrow> string set \<Rightarrow> (ImageError, unit) res \<times> string set" where
  "pull_layers reg ls [] fs = (Inr (), fs)"
| "pull_layers reg ls ((media_type, dest) # ts) fs =
     (if dest \<in> fs then pull_layers reg ls ts fs
      else case find (\<lambda>l. ly_media_type l = media_type) ls of
        None \<Rightarrow> (Inl (MissingLayer media_type), fs)
      | Some l \<Rightarrow>
     (case re_blob reg l of
        None \<Rightarrow> (Inl PullFailed, fs)
      | Some bytes \<Rightarrow>
     (case verify_digest media_type (ly_digest l) (re_sha256 reg bytes) of
        Inl e \<Rightarrow> (Inl e, fs)
      | Inr _ \<Rightarrow>
          if media_type = MEDIA_TYPE_QCOW2 \<and> \<not> re_decompress reg then (Inl PullFailed, fs)
          else pull_layers reg ls ts (insert dest fs))))"

definition pull_oci :: "registry \<Rightarrow> string \<Rightarrow> (string \<times> string) list \<Rightarrow> string set \<Rightarrow> (ImageError, unit) res \<times> string set" where
  "pull_oci reg image_ref targets fs =
     (case re_manifest reg image_ref of None \<Rightarrow> (Inl PullFailed, fs) | Some ls \<Rightarrow> pull_layers reg ls targets fs)"

record CachedImage =
  im_image_hash :: string
  im_kernel :: string
  im_initrd :: string
  im_virtual_size_gib :: nat

record 'h image_world =
  iw_files :: "string set"
  iw_hw :: 'h

definition image_file :: "string \<Rightarrow> string \<Rightarrow> string" where
  "image_file prefix suffix = prefix @ suffix"

definition files_cached :: "string \<Rightarrow> string set \<Rightarrow> bool" where
  "files_cached prefix fs \<longleftrightarrow> image_file prefix ''.qcow2'' \<in> fs \<and> image_file prefix ''.vmlinuz'' \<in> fs \<and> image_file prefix ''.initrd'' \<in> fs"

definition cached_image :: "string \<Rightarrow> nat \<Rightarrow> CachedImage" where
  "cached_image prefix sz = \<lparr>im_image_hash = prefix, im_kernel = image_file prefix ''.vmlinuz'',
     im_initrd = image_file prefix ''.initrd'', im_virtual_size_gib = sz\<rparr>"

text \<open>
  \<open>dev_exists\<close> is the test of the device node; \<open>env\<close> is what other requests did while this one waited
  for the image's lock, \<open>env'\<close> while it waited for the permit.
\<close>

definition ensure_cached ::
  "'h lvm_tools \<Rightarrow> registry \<Rightarrow> ('h \<Rightarrow> string \<Rightarrow> bool) \<Rightarrow> bool \<Rightarrow> ('h image_world \<Rightarrow> 'h image_world) \<Rightarrow> ('h \<Rightarrow> 'h) \<Rightarrow> RootfsConfig \<Rightarrow>
   string \<Rightarrow> 'h image_world \<Rightarrow> (ImageError, CachedImage) res \<times> 'h image_world" where
  "ensure_cached t reg dev_exists permit env env' c image_ref w0 =
     (let prefix = image_ref_to_prefix image_ref; qcow2 = image_file prefix ''.qcow2'';
          sz = map_option virtual_size_gib (re_info reg qcow2) in
      if files_cached prefix (iw_files w0) \<and> dev_exists (iw_hw w0) (image_lv_path c prefix)
      then (case sz of None \<Rightarrow> (Inl ImageInfo, w0) | Some n \<Rightarrow> (Inr (cached_image prefix n), w0))
      else let w = env w0 in
      case (if files_cached prefix (iw_files w) then (Inr (), iw_files w)
            else pull_oci reg image_ref [(MEDIA_TYPE_QCOW2, qcow2), (MEDIA_TYPE_KERNEL, image_file prefix ''.vmlinuz''),
              (MEDIA_TYPE_INITRD, image_file prefix ''.initrd'')] (iw_files w)) of
        (Inl e, fs) \<Rightarrow> (Inl e, w\<lparr>iw_files := fs\<rparr>)
      | (Inr _, fs) \<Rightarrow>
     (case sz of
        None \<Rightarrow> (Inl ImageInfo, w\<lparr>iw_files := fs\<rparr>)
      | Some n \<Rightarrow>
     (case ensure_image_lv t permit env' c prefix qcow2 n (iw_hw w) of
        (Inl e, h) \<Rightarrow> (Inl (ImageLvm e), w\<lparr>iw_files := fs, iw_hw := h\<rparr>)
      | (Inr _, h) \<Rightarrow> (Inr (cached_image prefix n), w\<lparr>iw_files := fs, iw_hw := h\<rparr>))))"

subsection \<open>Digests\<close>

lemma hex_lower_length: "length (hex_lower bytes) = 2 * length bytes"
  by (induction bytes) (simp_all add: hex_lower_def)

lemma all_lt_16: "(\<forall>n < (16::nat). P n) \<longleftrightarrow> P 0 \<and> P 1 \<and> P 2 \<and> P 3 \<and> P 4 \<and> P 5 \<and> P 6 \<and> P 7 \<and> P 8 \<and> P 9 \<and>
    P 10 \<and> P 11 \<and> P 12 \<and> P 13 \<and> P 14 \<and> P 15"
  by (simp add: numeral_eq_Suc All_less_Suc2)

lemma to_lowercase_hex_digit: "n < 16 \<Longrightarrow> to_lowercase [hex_digit n] = [hex_digit n]"
proof -
  have "\<forall>n < 16. to_lowercase [hex_digit n] = [hex_digit n]"
    unfolding all_lt_16 by code_simp
  then show "n < 16 \<Longrightarrow> to_lowercase [hex_digit n] = [hex_digit n]" by blast
qed

lemma hex_digit_inj: "m < 16 \<Longrightarrow> n < 16 \<Longrightarrow> hex_digit m = hex_digit n \<Longrightarrow> m = n"
proof -
  have d: "distinct ''0123456789abcdef''" by simp
  show "m < 16 \<Longrightarrow> n < 16 \<Longrightarrow> hex_digit m = hex_digit n \<Longrightarrow> m = n"
    unfolding hex_digit_def using nth_eq_iff_index_eq [OF d, of m n] by simp
qed

lemma to_lowercase_hex_lower: "\<forall>b \<in> set bytes. b < 256 \<Longrightarrow> to_lowercase (hex_lower bytes) = hex_lower bytes"
proof (induction bytes)
  case (Cons b bytes)
  have "b div 16 < 16" "b mod 16 < 16" using Cons.prems by auto
  then show ?case using Cons to_lowercase_hex_digit by (simp add: hex_lower_def to_lowercase_def)
qed (simp add: hex_lower_def to_lowercase_def)

lemma hex_lower_inj:
  "\<forall>b \<in> set xs. b < 256 \<Longrightarrow> \<forall>b \<in> set ys. b < 256 \<Longrightarrow> hex_lower xs = hex_lower ys \<Longrightarrow> xs = ys"
proof (induction xs arbitrary: ys)
  case (Cons x xs)
  then obtain y zs where ys: "ys = y # zs" by (cases ys) (auto simp: hex_lower_def)
  with Cons.prems have d: "hex_digit (x div 16) = hex_digit (y div 16)" "hex_digit (x mod 16) = hex_digit (y mod 16)"
    and rest: "hex_lower xs = hex_lower zs" by (simp_all add: hex_lower_def)
  have lt: "x div 16 < 16" "y div 16 < 16" "x mod 16 < 16" "y mod 16 < 16" using Cons.prems ys by (simp_all add: less_mult_imp_div_less)
  have q: "x div 16 = y div 16" by (rule hex_digit_inj [OF lt(1,2) d(1)])
  have m: "x mod 16 = y mod 16" by (rule hex_digit_inj [OF lt(3,4) d(2)])
  have "x = x div 16 * 16 + x mod 16" by (rule div_mult_mod_eq [symmetric])
  also have "\<dots> = y div 16 * 16 + y mod 16" by (simp only: q m)
  also have "\<dots> = y" by (rule div_mult_mod_eq)
  finally have "x = y" .
  moreover have "xs = zs" using Cons.IH [OF _ _ rest] Cons.prems(1,2) ys by simp
  ultimately show ?case using ys by simp
qed (auto simp: hex_lower_def)

text \<open>The check passes exactly for a SHA-256 digest of the bytes, in either case.\<close>

lemma verify_digest_iff:
  assumes "\<forall>b \<in> set actual. b < 256"
  shows "verify_digest media_type expected actual = Inr () \<longleftrightarrow> (\<exists>hex. expected = ''sha256:'' @ hex \<and> to_lowercase hex = hex_lower actual)"
proof
  assume v: "verify_digest media_type expected actual = Inr ()"
  then obtain alg hex where sp: "split_once (\<lambda>c. c = CHR '':'') expected = Some (alg, hex)"
    by (cases "split_once (\<lambda>c. c = CHR '':'') expected") (simp_all add: verify_digest_def split: prod.splits)
  with v have "alg = ''sha256''" "to_lowercase hex = hex_lower actual"
    by (simp_all add: verify_digest_def to_lowercase_hex_lower [OF assms] split: if_splits)
  moreover obtain c where "c = CHR '':''" "expected = alg @ c # hex" using split_once_Some [OF sp] by blast
  ultimately show "\<exists>hex. expected = ''sha256:'' @ hex \<and> to_lowercase hex = hex_lower actual" by auto
next
  assume "\<exists>hex. expected = ''sha256:'' @ hex \<and> to_lowercase hex = hex_lower actual"
  then obtain hex where h: "expected = ''sha256'' @ CHR '':'' # hex" "to_lowercase hex = hex_lower actual" by auto
  have "split_once (\<lambda>c. c = CHR '':'') expected = Some (''sha256'', hex)"
    unfolding h(1) by (rule split_once_append) auto
  then show "verify_digest media_type expected actual = Inr ()"
    using h(2) to_lowercase_hex_lower [OF assms] by (simp add: verify_digest_def)
qed

text \<open>Every file that a pull adds is a target whose layer's bytes passed the check.\<close>

definition pulled_ok :: "registry \<Rightarrow> layer list \<Rightarrow> (string \<times> string) list \<Rightarrow> string \<Rightarrow> bool" where
  "pulled_ok reg ls targets f \<longleftrightarrow> (\<exists>m l bytes. (m, f) \<in> set targets \<and> l \<in> set ls \<and> ly_media_type l = m \<and>
     re_blob reg l = Some bytes \<and> verify_digest m (ly_digest l) (re_sha256 reg bytes) = Inr ())"

lemma pulled_files_verified:
  "pull_layers reg ls targets fs = (res, fs') \<Longrightarrow> fs \<subseteq> fs' \<and> (\<forall>f \<in> fs' - fs. pulled_ok reg ls targets f)"
proof (induction targets arbitrary: fs)
  case (Cons x ts)
  obtain m dest where x: "x = (m, dest)" by (cases x)
  have mono: "pulled_ok reg ls ts f \<Longrightarrow> pulled_ok reg ls (x # ts) f" for f by (auto simp: pulled_ok_def)
  show ?case
  proof (cases "pull_layers reg ls ts fs = (res, fs') \<or> fs' = fs")
    case True
    then show ?thesis using Cons.IH mono by blast
  next
    case False
    then have n: "dest \<notin> fs" using Cons.prems x by auto
    obtain l where l: "find (\<lambda>l. ly_media_type l = m) ls = Some l" using Cons.prems x n False by (auto split: option.splits)
    obtain bytes where b: "re_blob reg l = Some bytes" using Cons.prems x n False l by (auto split: option.splits)
    have v: "verify_digest m (ly_digest l) (re_sha256 reg bytes) = Inr ()"
      using Cons.prems x n False l b by (cases "verify_digest m (ly_digest l) (re_sha256 reg bytes)") auto
    have "pull_layers reg ls ts (insert dest fs) = (res, fs')" using Cons.prems x n False l b v by (simp split: if_splits)
    from Cons.IH [OF this] have ih: "insert dest fs \<subseteq> fs'" "\<forall>f \<in> fs' - insert dest fs. pulled_ok reg ls ts f" by blast+
    have "l \<in> set ls" "ly_media_type l = m" using l by (auto simp: find_Some_iff)
    then have "pulled_ok reg ls (x # ts) dest" using b v x by (auto simp: pulled_ok_def)
    then show ?thesis using ih mono by blast
  qed
qed simp

text \<open>A golden volume that \<open>ensure_image_lv\<close> returns is marked read-only, the mark of a complete image.\<close>

lemma ensure_image_lv_golden:
  assumes ro: "\<And>vg n h h'. lv_readonly t vg n h = Some h' \<Longrightarrow> is_golden (lv_attr t h' vg n)"
    and e: "ensure_image_lv t permit env c image_hash src k h0 = (Inr p, h')"
  shows "is_golden (lv_attr t h' (rf_vg c) (IMAGE_LV_PREFIX @ image_hash))"
proof -
  have "is_golden (lv_attr t h' (rf_vg c) (IMAGE_LV_PREFIX @ image_hash))"
    if "populate_image_lv t c image_hash src k h = (Inr p, h')" for h
    using that ro by (auto simp: populate_image_lv_def Let_def split: option.splits prod.splits bool.splits)
  moreover have "is_golden (lv_attr t h vg n)" if "lv_attr t h vg n = Some (Some a)" "attr_is_readonly a" for h vg n a
    using that by (simp add: is_golden_def)
  ultimately show ?thesis
    using e by (auto simp: ensure_image_lv_def Let_def split: if_splits option.splits)
qed

text \<open>
  An image handed out is golden, unless its files were cached and its device node was there on
  arrival; in that case it is handed out as it is, whatever the volume's state.
\<close>

theorem cached_image_golden:
  assumes ro: "\<And>vg n h h'. lv_readonly t vg n h = Some h' \<Longrightarrow> is_golden (lv_attr t h' vg n)"
    and e: "ensure_cached t reg dev_exists permit env env' c image_ref w = (Inr im, w')"
  shows "files_cached (image_ref_to_prefix image_ref) (iw_files w) \<and> dev_exists (iw_hw w) (image_lv_path c (image_ref_to_prefix image_ref)) \<and> w' = w \<or>
    is_golden (lv_attr t (iw_hw w') (rf_vg c) (IMAGE_LV_PREFIX @ im_image_hash im))"
proof -
  have "is_golden (lv_attr t h (rf_vg c) (IMAGE_LV_PREFIX @ image_ref_to_prefix image_ref))"
    if "ensure_image_lv t permit env' c (image_ref_to_prefix image_ref) src k h0 = (Inr p, h)" for h h0 src k p
    using ensure_image_lv_golden [OF _ that] ro by blast
  then show ?thesis
    using e by (auto simp: ensure_cached_def Let_def cached_image_def split: if_splits option.splits prod.splits sum.splits)
qed

text \<open>
  An image whose conversion was interrupted, or is still running, is handed out: the files are there
  and so is the device node, but the volume is not marked complete.
\<close>

theorem unfinished_image_handed_out:
  assumes "files_cached (image_ref_to_prefix image_ref) (iw_files w)" "dev_exists (iw_hw w) (image_lv_path c (image_ref_to_prefix image_ref))"
    "\<not> is_golden (lv_attr t (iw_hw w) (rf_vg c) (IMAGE_LV_PREFIX @ image_ref_to_prefix image_ref))"
    "re_info reg (image_file (image_ref_to_prefix image_ref) ''.qcow2'') = Some n"
  shows "ensure_cached t reg dev_exists permit env env' c image_ref w =
    (Inr (cached_image (image_ref_to_prefix image_ref) (virtual_size_gib n)), w)"
  using assms by (simp add: ensure_cached_def)

text \<open>Two references of different images share their cache entry.\<close>

theorem image_prefix_collision:
  "''reg/node:1.2'' \<noteq> ''reg/node:1_2'' \<and> image_ref_to_prefix ''reg/node:1.2'' = image_ref_to_prefix ''reg/node:1_2''"
  by code_simp

end
