(* ===== verification/Agent_Vm.thy ===== *)
theory Agent_Vm
  imports Agent_Image Server_Streams
begin

text \<open>
  Machines on a host (\<open>basis-agent/src/handlers.rs\<close>, \<open>vm.rs\<close>, the local tables of \<open>db.rs\<close>, the
  orphan sweep of \<open>reconcile.rs\<close>, the tombstones of \<open>main.rs\<close>).  The host is a record: the local
  table, the tracked and pending machines, systemd's units, directories, taps, devices bound to VFIO,
  volumes.  What systemd, the kernel and the tools answer at each step is the parameter \<open>answers\<close>.
\<close>

subsection \<open>The host\<close>

record LocalStorageDisk =
  lx_assignment_id :: string
  lx_pool :: string
  lx_device_id :: string
  lx_disk_index :: nat
  lx_size_gib :: nat
  lx_purpose :: string
  lx_device_path :: string

record LocalVmRow =
  lm_vm_id :: string
  lm_name :: string
  lm_unit_name :: string
  lm_ip_address :: ipv4
  lm_cpu :: int
  lm_memory_mib :: int
  lm_disk_gib :: int
  lm_gpu_pci_addresses :: "string list"
  lm_storage_disks :: "LocalStorageDisk list"
  lm_image :: string
  lm_vni :: int
  lm_cluster_id :: string
  lm_created_at :: string

record TrackedVm =
  tk_unit_name :: string
  tk_vm_dir :: string

text \<open>A unit is known to systemd with the arguments it was started with.\<close>

record 'h host =
  ow_disks :: "'h disk_world"
  ow_vms :: "LocalVmRow list"
  ow_tracked :: "string \<rightharpoonup> TrackedVm"
  ow_pending :: "string set"
  ow_units :: "string \<rightharpoonup> string list"
  ow_dirs :: "string set"
  ow_taps :: "string set"
  ow_vfio :: "string set"
  ow_sent :: "AgentMessage list"

text \<open>
  \<open>ag_tap_name\<close> is the name of a machine's tap, a prefix and a hash of the id; \<open>ag_mac\<close> its address.
\<close>

record agent_cfg =
  ag_rootfs :: RootfsConfig
  ag_pools :: "PoolSpec list"
  ag_vms_dir :: string
  ag_tap_name :: "string \<Rightarrow> string"
  ag_mac :: "string \<Rightarrow> string"

text \<open>What the world outside answers, step by step.\<close>

record 'h answers =
  an_mkdir :: bool
  an_image :: "'h \<Rightarrow> CachedImage option \<times> 'h"
  an_vgs :: "string \<Rightarrow> (string, string) res"
  an_insert :: bool
  an_rootfs_permit :: bool
  an_disk_permit :: "nat \<Rightarrow> bool"
  an_update :: bool
  an_iso :: bool
  an_bootstrap :: bool
  an_tap_add :: bool
  an_tap_up :: bool
  an_bound :: "string \<Rightarrow> bool"
  an_bind :: "string \<Rightarrow> string option"
  an_spawn :: bool
  an_get :: bool
  an_stop :: bool
  an_rmdir :: bool
  an_detach :: bool
  an_unbind :: "string \<Rightarrow> bool"
  an_remove_permit :: bool
  an_release_permit :: bool
  an_delete :: bool

datatype CreateError =
    CreateIo | CreateImage | DiskTooSmall nat nat | UnknownPool string | NotAMember string string
  | UnhealthyDevice string string | DeviceFull string nat nat | LocalDb | CreateLvm LvmError
  | IsoFailed | TapFailed | BindFailed string | SpawnFailed

subsection \<open>The virtual machine manager\<close>

definition unit_name_for_vm :: "string \<Rightarrow> string" where
  "unit_name_for_vm vmid = ''basis-vm-'' @ vmid @ ''.service''"

definition vm_dir :: "agent_cfg \<Rightarrow> string \<Rightarrow> string" where
  "vm_dir cfg vmid = ag_vms_dir cfg @ ''/'' @ vmid"

datatype DiskSpec = RootfsDisk string nat | DataDisk string nat | CloudInit string

definition DiskSpec_to_string :: "DiskSpec \<Rightarrow> string" where
  "DiskSpec_to_string d = (case d of
     RootfsDisk path vcpus \<Rightarrow> ''path='' @ path @ '',image_type=raw,direct=on,num_queues='' @ show_nat vcpus @ '',queue_size=256''
   | DataDisk path vcpus \<Rightarrow> ''path='' @ path @ '',image_type=raw,direct=on,num_queues='' @ show_nat vcpus @ '',queue_size=256''
   | CloudInit path \<Rightarrow> ''path='' @ path)"

text \<open>The number of queues is computed in 32 bits.\<close>

definition NetSpec_to_string :: "string \<Rightarrow> string \<Rightarrow> nat \<Rightarrow> string" where
  "NetSpec_to_string tap mac vcpus =
     ''tap='' @ tap @ '',mac='' @ mac @ '',num_queues='' @ show_nat (wrap_u32 (2 * max vcpus 1)) @ '',queue_size=256''"

record BootArtifacts =
  bo_kernel :: string
  bo_initrd :: string
  bo_rootfs :: string
  bo_cloud_init :: string
  bo_data_disks :: "string list"

definition boot_disks :: "CreateVmCommand \<Rightarrow> BootArtifacts \<Rightarrow> DiskSpec list" where
  "boot_disks cmd bo = [RootfsDisk (bo_rootfs bo) (cc_cpu cmd), CloudInit (bo_cloud_init bo)] @
     map (\<lambda>p. DataDisk p (cc_cpu cmd)) (bo_data_disks bo)"

definition ch_args :: "agent_cfg \<Rightarrow> CreateVmCommand \<Rightarrow> BootArtifacts \<Rightarrow> string \<Rightarrow> string list \<Rightarrow> string list" where
  "ch_args cfg cmd bo tap vfio =
     [''--api-socket='' @ vm_dir cfg (cc_vm_id cmd) @ ''/cloud-hypervisor.sock'', ''--cpus=boot='' @ show_nat (cc_cpu cmd),
      ''--memory=size='' @ show_nat (cc_memory_mib cmd) @ ''M'', ''--kernel='' @ bo_kernel bo, ''--initramfs='' @ bo_initrd bo,
      ''--cmdline=root=/dev/vda1 ro console=ttyS0 transparent_hugepage=never'', ''--net'',
      NetSpec_to_string tap (ag_mac cfg (cc_vm_id cmd)) (cc_cpu cmd), ''--serial=tty'', ''--console=off'', ''--disk''] @
     map DiskSpec_to_string (boot_disks cmd bo) @
     (if vfio = [] then [] else ''--device'' # map (\<lambda>d. ''path='' @ d) vfio)"

definition systemd_args :: "string \<Rightarrow> string list \<Rightarrow> string list" where
  "systemd_args vmid args = [''--unit='' @ unit_name_for_vm vmid, ''--service-type=exec'', ''--remain-after-exit'',
     ''--description=Basis VM '' @ vmid, ''--'', ''cloud-hypervisor''] @ args"

text \<open>\<open>systemd-run\<close> refuses a unit that is already loaded.\<close>

definition vm_mgr_create ::
  "'h answers \<Rightarrow> agent_cfg \<Rightarrow> CreateVmCommand \<Rightarrow> BootArtifacts \<Rightarrow> string \<Rightarrow> string list \<Rightarrow> 'h host \<Rightarrow> (CreateError, unit) res \<times> 'h host" where
  "vm_mgr_create a cfg cmd bo tap vfio w =
     (let vmid = cc_vm_id cmd; dir = vm_dir cfg vmid; unit = unit_name_for_vm vmid in
      if \<not> an_mkdir a then (Inl CreateIo, w)
      else let w1 = w\<lparr>ow_dirs := insert dir (ow_dirs w)\<rparr> in
      if \<not> an_spawn a \<or> ow_units w unit \<noteq> None then (Inl SpawnFailed, w1)
      else (Inr (), w1\<lparr>ow_units := (ow_units w)(unit \<mapsto> systemd_args vmid (ch_args cfg cmd bo tap vfio)),
        ow_tracked := (ow_tracked w)(vmid \<mapsto> \<lparr>tk_unit_name = unit, tk_vm_dir = dir\<rparr>)\<rparr>))"

text \<open>Stopping the unit, removing the directory and forgetting the unit are all best effort.\<close>

definition vm_mgr_delete :: "'h answers \<Rightarrow> agent_cfg \<Rightarrow> string \<Rightarrow> 'h host \<Rightarrow> 'h host" where
  "vm_mgr_delete a cfg vmid w =
     (let unit = (case ow_tracked w vmid of Some t \<Rightarrow> tk_unit_name t | None \<Rightarrow> unit_name_for_vm vmid);
          dir = (case ow_tracked w vmid of Some t \<Rightarrow> tk_vm_dir t | None \<Rightarrow> vm_dir cfg vmid) in
      w\<lparr>ow_tracked := (ow_tracked w)(vmid := None),
        ow_units := if an_stop a then (ow_units w)(unit := None) else ow_units w,
        ow_dirs := if an_rmdir a then ow_dirs w - {dir} else ow_dirs w\<rparr>)"

definition unit_vm_id :: "string \<Rightarrow> string option" where
  "unit_vm_id line =
     (case strip_prefix ''basis-vm-'' (case split_whitespace line of u # _ \<Rightarrow> u | [] \<Rightarrow> '''') of
        None \<Rightarrow> None
      | Some s \<Rightarrow> strip_suffix ''.service'' s)"

definition list_all_unit_vm_ids :: "string \<Rightarrow> string list" where
  "list_all_unit_vm_ids out = List.map_filter unit_vm_id (text_lines out)"

text \<open>On startup, the units that run are tracked again.\<close>

definition reconcile_running :: "agent_cfg \<Rightarrow> string \<Rightarrow> 'h host \<Rightarrow> string list \<times> 'h host" where
  "reconcile_running cfg out w =
     (let ids = List.map_filter unit_vm_id (text_lines out) in
      (ids, w\<lparr>ow_tracked := fold (\<lambda>i m. m(i \<mapsto> \<lparr>tk_unit_name = unit_name_for_vm i, tk_vm_dir = vm_dir cfg i\<rparr>)) ids (ow_tracked w)\<rparr>))"

definition live_vm_ids :: "'h host \<Rightarrow> string set" where
  "live_vm_ids w = dom (ow_tracked w) \<union> ow_pending w"

definition has_live_process :: "string option \<Rightarrow> bool" where
  "has_live_process out = (case out of Some s \<Rightarrow> trim s = ''running'' | None \<Rightarrow> False)"

subsection \<open>Creating a machine\<close>

definition agent_insert_vm :: "LocalVmRow \<Rightarrow> LocalVmRow list \<Rightarrow> LocalVmRow list option" where
  "agent_insert_vm r rows = (if list_ex (\<lambda>q. lm_vm_id q = lm_vm_id r) rows then None else Some (rows @ [r]))"

definition agent_delete_vm_row :: "string \<Rightarrow> LocalVmRow list \<Rightarrow> LocalVmRow list" where
  "agent_delete_vm_row vmid = del_rows (\<lambda>r. lm_vm_id r = vmid)"

definition get_local_vm :: "string \<Rightarrow> LocalVmRow list \<Rightarrow> LocalVmRow option" where
  "get_local_vm vmid rows = find (\<lambda>r. lm_vm_id r = vmid) rows"

definition pool_named :: "agent_cfg \<Rightarrow> string \<Rightarrow> PoolSpec option" where
  "pool_named cfg n = find (\<lambda>p. xp_name p = n) (ag_pools cfg)"

text \<open>Every commanded disk must name a healthy device with room, before anything is allocated.\<close>

definition check_disk :: "'h answers \<Rightarrow> agent_cfg \<Rightarrow> CommandedDisk \<Rightarrow> (CreateError, unit) res" where
  "check_disk a cfg disk =
     (case pool_named cfg (cd_pool disk) of
        None \<Rightarrow> Inl (UnknownPool (cd_pool disk))
      | Some p \<Rightarrow> (case find (\<lambda>d. pq_id d = cd_device_id disk) (devices (an_vgs a) p) of
          None \<Rightarrow> Inl (NotAMember (cd_device_id disk) (cd_pool disk))
        | Some dev \<Rightarrow>
            if pq_physical dev \<noteq> Ready then Inl (UnhealthyDevice (pq_id dev) (cd_pool disk))
            else if pq_free_gib dev < cd_min_size_gib disk then Inl (DeviceFull (pq_id dev) (pq_free_gib dev) (cd_min_size_gib disk))
            else Inr ()))"

definition check_disks :: "'h answers \<Rightarrow> agent_cfg \<Rightarrow> CommandedDisk list \<Rightarrow> (CreateError, unit) res" where
  "check_disks a cfg disks = fold_res (\<lambda>d _. check_disk a cfg d) disks ()"

definition local_row :: "CreateVmCommand \<Rightarrow> string \<Rightarrow> LocalVmRow" where
  "local_row cmd now = \<lparr>lm_vm_id = cc_vm_id cmd, lm_name = cc_name cmd, lm_unit_name = unit_name_for_vm (cc_vm_id cmd),
     lm_ip_address = cc_ip_address cmd, lm_cpu = int (cc_cpu cmd), lm_memory_mib = int (cc_memory_mib cmd),
     lm_disk_gib = int (cc_disk_gib cmd), lm_gpu_pci_addresses = cc_gpu_pci_addresses cmd, lm_storage_disks = [],
     lm_image = cc_image cmd, lm_vni = int (cc_vni cmd), lm_cluster_id = cc_cluster_id cmd, lm_created_at = now\<rparr>"

definition allocation_request :: "string \<Rightarrow> CommandedDisk \<Rightarrow> DiskAllocationRequest" where
  "allocation_request vmid disk = \<lparr>ar_assignment_id = cd_assignment_id disk, ar_device_id = cd_device_id disk, ar_vm_id = vmid,
     ar_disk_index = cd_disk_index disk, ar_min_size_gib = cd_min_size_gib disk\<rparr>"

definition local_disk :: "CommandedDisk \<Rightarrow> Allocation \<Rightarrow> LocalStorageDisk" where
  "local_disk disk al = \<lparr>lx_assignment_id = cd_assignment_id disk, lx_pool = cd_pool disk, lx_device_id = cd_device_id disk,
     lx_disk_index = cd_disk_index disk, lx_size_gib = al_actual_size_gib al,
     lx_purpose = DiskPurpose_as_db_str (cd_purpose disk), lx_device_path = al_path al\<rparr>"

definition disk_report :: "string \<Rightarrow> CommandedDisk \<Rightarrow> Allocation \<Rightarrow> AgentMessage" where
  "disk_report vmid disk al = DiskAssignmentReport (Some \<lparr>asg_assignment_id = cd_assignment_id disk, asg_vm_id = vmid,
     asg_disk_index = cd_disk_index disk, asg_pool = cd_pool disk, asg_device_id = cd_device_id disk,
     asg_actual_size_gib = al_actual_size_gib al, asg_device_path = al_path al\<rparr>)"

text \<open>The disks in order; each is reported once it is allocated.  \<open>k\<close> numbers the waits for a permit.\<close>

fun allocate_disks ::
  "'h lvm_tools \<Rightarrow> 'h answers \<Rightarrow> agent_cfg \<Rightarrow> string \<Rightarrow> nat \<Rightarrow> CommandedDisk list \<Rightarrow> 'h host \<Rightarrow>
   (CreateError, LocalStorageDisk list) res \<times> 'h host" where
  "allocate_disks t a cfg vmid k [] w = (Inr [], w)"
| "allocate_disks t a cfg vmid k (disk # ds) w =
     (case pool_named cfg (cd_pool disk) of
        None \<Rightarrow> (Inl (UnknownPool (cd_pool disk)), w)
      | Some p \<Rightarrow>
     (case allocate t (an_disk_permit a k) (backend_of p) (allocation_request vmid disk) (ow_disks w) of
        (Inl e, d) \<Rightarrow> (Inl (CreateLvm e), w\<lparr>ow_disks := d\<rparr>)
      | (Inr al, d) \<Rightarrow>
     (case allocate_disks t a cfg vmid (Suc k) ds (w\<lparr>ow_disks := d, ow_sent := ow_sent w @ [disk_report vmid disk al]\<rparr>) of
        (Inl e, w') \<Rightarrow> (Inl e, w')
      | (Inr ls, w') \<Rightarrow> (Inr (local_disk disk al # ls), w'))))"

text \<open>A tap that is already there is taken as it is.\<close>

definition attach_vm_primary :: "'h answers \<Rightarrow> agent_cfg \<Rightarrow> string \<Rightarrow> 'h host \<Rightarrow> (CreateError, string) res \<times> 'h host" where
  "attach_vm_primary a cfg vmid w =
     (let tap = ag_tap_name cfg vmid in
      if \<not> an_bootstrap a \<or> (tap \<notin> ow_taps w \<and> \<not> an_tap_add a) then (Inl TapFailed, w)
      else let w1 = w\<lparr>ow_taps := insert tap (ow_taps w)\<rparr> in
        if an_tap_up a then (Inr tap, w1) else (Inl TapFailed, w1))"

text \<open>\<open>an_bound\<close>: the driver took the device, whether or not the call then succeeded.\<close>

fun bind_gpus :: "'h answers \<Rightarrow> string list \<Rightarrow> 'h host \<Rightarrow> (CreateError, string list) res \<times> 'h host" where
  "bind_gpus a [] w = (Inr [], w)"
| "bind_gpus a (pci # ps) w =
     (let w1 = (if an_bound a pci then w\<lparr>ow_vfio := insert pci (ow_vfio w)\<rparr> else w) in
      case an_bind a pci of
        None \<Rightarrow> (Inl (BindFailed pci), w1)
      | Some path \<Rightarrow> (case bind_gpus a ps w1 of (Inl e, w') \<Rightarrow> (Inl e, w') | (Inr l, w') \<Rightarrow> (Inr (path # l), w')))"

text \<open>After the disks: record them, write the cloud-init image, attach the tap, bind the devices, start.\<close>

definition boot_vm ::
  "'h answers \<Rightarrow> agent_cfg \<Rightarrow> CreateVmCommand \<Rightarrow> CachedImage \<Rightarrow> string \<Rightarrow> LocalStorageDisk list \<Rightarrow> 'h host \<Rightarrow> (CreateError, unit) res \<times> 'h host" where
  "boot_vm a cfg cmd im rootfs ls w =
     (let vmid = cc_vm_id cmd in
      if \<not> an_update a then (Inl LocalDb, w)
      else let w1 = w\<lparr>ow_vms := upd_rows (\<lambda>r. lm_vm_id r = vmid) (\<lambda>r. r\<lparr>lm_storage_disks := ls\<rparr>) (ow_vms w)\<rparr> in
      if \<not> an_iso a then (Inl IsoFailed, w1)
      else case attach_vm_primary a cfg vmid w1 of
        (Inl e, w2) \<Rightarrow> (Inl e, w2)
      | (Inr tap, w2) \<Rightarrow>
     (case bind_gpus a (cc_gpu_pci_addresses cmd) w2 of
        (Inl e, w3) \<Rightarrow> (Inl e, w3)
      | (Inr vfio, w3) \<Rightarrow>
          vm_mgr_create a cfg cmd \<lparr>bo_kernel = im_kernel im, bo_initrd = im_initrd im, bo_rootfs = rootfs,
            bo_cloud_init = vm_dir cfg vmid @ ''/cidata.iso'', bo_data_disks = map lx_device_path ls\<rparr> tap vfio w3))"

definition provision_vm ::
  "'h lvm_tools \<Rightarrow> 'h answers \<Rightarrow> agent_cfg \<Rightarrow> CreateVmCommand \<Rightarrow> CachedImage \<Rightarrow> 'h host \<Rightarrow> (CreateError, unit) res \<times> 'h host" where
  "provision_vm t a cfg cmd im w =
     (case create_vm_rootfs t (an_rootfs_permit a) (ag_rootfs cfg) (cc_vm_id cmd) (im_image_hash im) (cc_disk_gib cmd) (dw_hw (ow_disks w)) of
        (Inl e, h) \<Rightarrow> (Inl (CreateLvm e), w\<lparr>ow_disks := (ow_disks w)\<lparr>dw_hw := h\<rparr>\<rparr>)
      | (Inr rootfs, h) \<Rightarrow>
     (case allocate_disks t a cfg (cc_vm_id cmd) 0 (cc_storage_disks cmd) (w\<lparr>ow_disks := (ow_disks w)\<lparr>dw_hw := h\<rparr>\<rparr>) of
        (Inl e, w1) \<Rightarrow> (Inl e, w1)
      | (Inr ls, w1) \<Rightarrow> boot_vm a cfg cmd im rootfs ls w1))"

definition create_vm_inner ::
  "'h lvm_tools \<Rightarrow> 'h answers \<Rightarrow> agent_cfg \<Rightarrow> string \<Rightarrow> CreateVmCommand \<Rightarrow> 'h host \<Rightarrow> (CreateError, unit) res \<times> 'h host" where
  "create_vm_inner t a cfg now cmd w =
     (if \<not> an_mkdir a then (Inl CreateIo, w)
      else let w1 = w\<lparr>ow_dirs := insert (vm_dir cfg (cc_vm_id cmd)) (ow_dirs w)\<rparr> in
      case an_image a (dw_hw (ow_disks w1)) of
        (None, h) \<Rightarrow> (Inl CreateImage, w1\<lparr>ow_disks := (ow_disks w1)\<lparr>dw_hw := h\<rparr>\<rparr>)
      | (Some im, h) \<Rightarrow>
     (let w2 = w1\<lparr>ow_disks := (ow_disks w1)\<lparr>dw_hw := h\<rparr>\<rparr> in
      if cc_disk_gib cmd < im_virtual_size_gib im then (Inl (DiskTooSmall (cc_disk_gib cmd) (im_virtual_size_gib im)), w2)
      else case check_disks a cfg (cc_storage_disks cmd) of
        Inl e \<Rightarrow> (Inl e, w2)
      | Inr _ \<Rightarrow>
     (case (if an_insert a then agent_insert_vm (local_row cmd now) (ow_vms w2) else None) of
        None \<Rightarrow> (Inl LocalDb, w2)
      | Some rows \<Rightarrow> provision_vm t a cfg cmd im (w2\<lparr>ow_vms := rows\<rparr>))))"

subsection \<open>Deleting a machine\<close>

definition detach_vm_taps :: "'h answers \<Rightarrow> agent_cfg \<Rightarrow> string \<Rightarrow> 'h host \<Rightarrow> 'h host" where
  "detach_vm_taps a cfg vmid w = (if an_detach a then w\<lparr>ow_taps := ow_taps w - {ag_tap_name cfg vmid}\<rparr> else w)"

definition unbind_gpus :: "'h answers \<Rightarrow> string list \<Rightarrow> 'h host \<Rightarrow> 'h host" where
  "unbind_gpus a ps w = w\<lparr>ow_vfio := ow_vfio w - {p \<in> set ps. an_unbind a p}\<rparr>"

definition stop_vm :: "'h answers \<Rightarrow> agent_cfg \<Rightarrow> string \<Rightarrow> 'h host \<Rightarrow> 'h host" where
  "stop_vm a cfg vmid w =
     (let rec = (if an_get a then get_local_vm vmid (ow_vms w) else None); w1 = detach_vm_taps a cfg vmid (vm_mgr_delete a cfg vmid w) in
      case rec of None \<Rightarrow> w1 | Some r \<Rightarrow> unbind_gpus a (lm_gpu_pci_addresses r) w1)"

definition agent_delete_vm ::
  "'h lvm_tools \<Rightarrow> 'h answers \<Rightarrow> agent_cfg \<Rightarrow> string \<Rightarrow> 'h host \<Rightarrow> (LvmError, unit) res \<times> 'h host" where
  "agent_delete_vm t a cfg vmid w =
     (let w1 = stop_vm a cfg vmid w in
      case remove_vm_rootfs t (an_remove_permit a) (ag_rootfs cfg) vmid (dw_hw (ow_disks w1)) of
        (Inl e, h) \<Rightarrow> (Inl e, w1\<lparr>ow_disks := (ow_disks w1)\<lparr>dw_hw := h\<rparr>\<rparr>)
      | (Inr _, h) \<Rightarrow>
     (case release_vm_disks t (an_release_permit a) (map backend_of (ag_pools cfg)) vmid ((ow_disks w1)\<lparr>dw_hw := h\<rparr>) of
        (Inl e, d) \<Rightarrow> (Inl e, w1\<lparr>ow_disks := d\<rparr>)
      | (Inr _, d) \<Rightarrow> (Inr (), w1\<lparr>ow_disks := d, ow_vms := if an_delete a then agent_delete_vm_row vmid (ow_vms w1) else ow_vms w1\<rparr>)))"

text \<open>\<open>a\<close> answers the create, \<open>a'\<close> its rollback.\<close>

definition agent_create_vm ::
  "'h lvm_tools \<Rightarrow> 'h answers \<Rightarrow> 'h answers \<Rightarrow> agent_cfg \<Rightarrow> string \<Rightarrow> CreateVmCommand \<Rightarrow> 'h host \<Rightarrow> (CreateError, unit) res \<times> 'h host" where
  "agent_create_vm t a a' cfg now cmd w =
     (case create_vm_inner t a cfg now cmd (w\<lparr>ow_pending := insert (cc_vm_id cmd) (ow_pending w)\<rparr>) of
        (r, w1) \<Rightarrow>
     (let w2 = w1\<lparr>ow_pending := ow_pending w1 - {cc_vm_id cmd}\<rparr> in
      case r of Inr _ \<Rightarrow> (Inr (), w2) | Inl e \<Rightarrow> (Inl e, snd (agent_delete_vm t a' cfg (cc_vm_id cmd) w2))))"

text \<open>The report of one machine, and of all machines that are not being created.\<close>

definition vm_state_report :: "(string \<Rightarrow> string option) \<Rightarrow> LocalVmRow \<Rightarrow> AgentMessage" where
  "vm_state_report substate r = (if has_live_process (substate (lm_unit_name r))
     then VmState \<lparr>rv_vm_id = lm_vm_id r, rv_state = STATE_RUNNING, rv_error_message = '''', rv_transient = False\<rparr>
     else VmState \<lparr>rv_vm_id = lm_vm_id r, rv_state = STATE_FAILED, rv_error_message = ''cloud-hypervisor process exited'', rv_transient = False\<rparr>)"

definition report_local_vm_states :: "(string \<Rightarrow> string option) \<Rightarrow> 'h host \<Rightarrow> 'h host" where
  "report_local_vm_states substate w = w\<lparr>ow_sent := ow_sent w @
     map (vm_state_report substate) (filter (\<lambda>r. lm_vm_id r \<notin> ow_pending w) (ow_vms w))\<rparr>"

text \<open>The report that ends a create; only a full backend is worth a retry.\<close>

definition create_report :: "string \<Rightarrow> (CreateError \<Rightarrow> string) \<Rightarrow> (CreateError, unit) res \<Rightarrow> AgentMessage" where
  "create_report vmid show_err r = (case r of
     Inr _ \<Rightarrow> VmState \<lparr>rv_vm_id = vmid, rv_state = STATE_RUNNING, rv_error_message = '''', rv_transient = False\<rparr>
   | Inl e \<Rightarrow> VmState \<lparr>rv_vm_id = vmid, rv_state = STATE_FAILED, rv_error_message = show_err e,
       rv_transient = (case e of CreateLvm (LvmBusy _) \<Rightarrow> True | _ \<Rightarrow> False)\<rparr>)"

subsection \<open>Restart after a reboot\<close>

datatype RestartError = DiskMissing string | GpuBindFailed string | RestartOther

definition narrow_u32 :: "int \<Rightarrow> (RestartError, nat) res" where
  "narrow_u32 v = (if 0 \<le> v \<and> v \<le> int u32_max then Inr (nat v) else Inl RestartOther)"

definition commanded_disk :: "string \<Rightarrow> LocalStorageDisk \<Rightarrow> CommandedDisk" where
  "commanded_disk cluster d = \<lparr>cd_assignment_id = lx_assignment_id d, cd_min_size_gib = lx_size_gib d, cd_pool = lx_pool d,
     cd_device_id = lx_device_id d, cd_disk_index = lx_disk_index d, cd_cluster_id = cluster,
     cd_purpose = (if lx_purpose d = ''replicated'' then Replicated else GenericData)\<rparr>"

text \<open>The fields the restart leaves empty hold no address in the source; they are not read.\<close>

definition restart_cmd :: "LocalVmRow \<Rightarrow> nat \<Rightarrow> (RestartError, CreateVmCommand) res" where
  "restart_cmd r vni = and_then (narrow_u32 (lm_cpu r)) (\<lambda>cpu. and_then (narrow_u32 (lm_memory_mib r)) (\<lambda>mem.
     and_then (narrow_u32 (lm_disk_gib r)) (\<lambda>disk.
     Inr \<lparr>cc_vm_id = lm_vm_id r, cc_name = lm_name r, cc_cpu = cpu, cc_memory_mib = mem, cc_disk_gib = disk,
       cc_image = lm_image r, cc_ip_address = lm_ip_address r, cc_gateway = 0, cc_prefix_len = 0, cc_gpus = 0,
       cc_min_group_size = None, cc_dns_servers = [], cc_gpu_pci_addresses = lm_gpu_pci_addresses r,
       cc_storage_disks = map (commanded_disk (lm_cluster_id r)) (lm_storage_disks r), cc_cluster_id = lm_cluster_id r,
       cc_vni = vni\<rparr>)))"

text \<open>
  \<open>path_exists\<close> is the test of a path.  When a device does not bind, those already bound are handed
  back by their VFIO path, as the source does.
\<close>

definition restart_vm ::
  "'h answers \<Rightarrow> agent_cfg \<Rightarrow> (string \<Rightarrow> bool) \<Rightarrow> LocalVmRow \<Rightarrow> 'h host \<Rightarrow> (RestartError, unit) res \<times> 'h host" where
  "restart_vm a cfg path_exists r w =
     (let rootfs = vm_lv_path (ag_rootfs cfg) (lm_vm_id r); iso = vm_dir cfg (lm_vm_id r) @ ''/cidata.iso'';
          paths = map lx_device_path (lm_storage_disks r) in
      if \<not> path_exists rootfs \<or> \<not> path_exists iso then (Inl (DiskMissing rootfs), w)
      else case find (\<lambda>p. \<not> path_exists p) paths of
        Some p \<Rightarrow> (Inl (DiskMissing p), w)
      | None \<Rightarrow>
     (case an_image a (dw_hw (ow_disks w)) of
        (None, h) \<Rightarrow> (Inl RestartOther, w\<lparr>ow_disks := (ow_disks w)\<lparr>dw_hw := h\<rparr>\<rparr>)
      | (Some im, h) \<Rightarrow>
     (let w1 = w\<lparr>ow_disks := (ow_disks w)\<lparr>dw_hw := h\<rparr>\<rparr> in
      case narrow_u32 (lm_vni r) of
        Inl e \<Rightarrow> (Inl e, w1)
      | Inr vni \<Rightarrow>
     (case attach_vm_primary a cfg (lm_vm_id r) w1 of
        (Inl _, w2) \<Rightarrow> (Inl RestartOther, w2)
      | (Inr tap, w2) \<Rightarrow>
     (case bind_gpus a (lm_gpu_pci_addresses r) w2 of
        (Inl (BindFailed pci), w3) \<Rightarrow>
          (Inl (GpuBindFailed pci), unbind_gpus a (List.map_filter (an_bind a) (takeWhile (\<lambda>p. an_bind a p \<noteq> None) (lm_gpu_pci_addresses r))) w3)
      | (Inl _, w3) \<Rightarrow> (Inl RestartOther, w3)
      | (Inr vfio, w3) \<Rightarrow>
     (case restart_cmd r vni of
        Inl e \<Rightarrow> (Inl e, w3)
      | Inr cmd \<Rightarrow>
     (case vm_mgr_create a cfg cmd \<lparr>bo_kernel = im_kernel im, bo_initrd = im_initrd im, bo_rootfs = rootfs,
            bo_cloud_init = iso, bo_data_disks = paths\<rparr> tap vfio w3 of
        (Inl _, w4) \<Rightarrow> (Inl RestartOther, w4)
      | (Inr _, w4) \<Rightarrow> (Inr (), w4))))))))"

subsection \<open>Teardown loops\<close>

text \<open>
  The loop over tombstones and over orphans: each is torn down, and those whose teardown succeeded
  are collected.  \<open>k\<close> numbers the teardowns.
\<close>

fun teardown_loop :: "(nat \<Rightarrow> 'x \<Rightarrow> 's \<Rightarrow> ('e, unit) res \<times> 's) \<Rightarrow> nat \<Rightarrow> 'x list \<Rightarrow> 's \<Rightarrow> 'x list \<times> 's" where
  "teardown_loop del k [] s = ([], s)"
| "teardown_loop del k (x # xs) s =
     (case del k x s of
        (Inr _, s') \<Rightarrow> (case teardown_loop del (Suc k) xs s' of (done', s'') \<Rightarrow> (x # done', s''))
      | (Inl _, s') \<Rightarrow> teardown_loop del (Suc k) xs s')"

definition tombstone_vms ::
  "'h lvm_tools \<Rightarrow> (nat \<Rightarrow> 'h answers) \<Rightarrow> agent_cfg \<Rightarrow> string list \<Rightarrow> 'h host \<Rightarrow> string list \<times> 'h host" where
  "tombstone_vms t as cfg ids w = teardown_loop (\<lambda>k. agent_delete_vm t (as k) cfg) 0 ids w"

definition ORPHAN_LV_BATCH :: nat where "ORPHAN_LV_BATCH = 50"

text \<open>An orphan collector: what it lists, without the known machines, up to its batch.\<close>

definition collect ::
  "(nat \<Rightarrow> 'x \<Rightarrow> 's \<Rightarrow> ('e, unit) res \<times> 's) \<Rightarrow> 'x set \<Rightarrow> nat option \<Rightarrow> 'x list option \<Rightarrow> 's \<Rightarrow> nat \<times> 's" where
  "collect del known batch listed s =
     (case listed of
        None \<Rightarrow> (0, s)
      | Some ids \<Rightarrow>
          (let orphans = filter (\<lambda>i. i \<notin> known) ids; os = (case batch of None \<Rightarrow> orphans | Some b \<Rightarrow> take b orphans) in
           case teardown_loop del 0 os s of (done', s') \<Rightarrow> (length done', s')))"

definition reclaim_lvs :: "'h lvm_tools \<Rightarrow> 'h answers \<Rightarrow> agent_cfg \<Rightarrow> string \<Rightarrow> 'h host \<Rightarrow> (LvmError, unit) res \<times> 'h host" where
  "reclaim_lvs t a cfg vmid w =
     (case remove_vm_rootfs t (an_remove_permit a) (ag_rootfs cfg) vmid (dw_hw (ow_disks w)) of
        (Inl e, h) \<Rightarrow> (Inl e, w\<lparr>ow_disks := (ow_disks w)\<lparr>dw_hw := h\<rparr>\<rparr>)
      | (Inr _, h) \<Rightarrow>
          (case release_vm_disks t (an_release_permit a) (map backend_of (ag_pools cfg)) vmid ((ow_disks w)\<lparr>dw_hw := h\<rparr>) of
             (r, d) \<Rightarrow> (r, w\<lparr>ow_disks := d\<rparr>)))"

definition reclaim_dir :: "'h answers \<Rightarrow> agent_cfg \<Rightarrow> string \<Rightarrow> 'h host \<Rightarrow> (unit, unit) res \<times> 'h host" where
  "reclaim_dir a cfg vmid w =
     (if an_rmdir a then (Inr (), w\<lparr>ow_dirs := ow_dirs w - {vm_dir cfg vmid}\<rparr>) else (Inl (), w))"

text \<open>
  \<open>unit_out\<close> is the output of \<open>systemctl\<close>, \<open>order\<close> the iteration order of a hash set, \<open>dir_names\<close> the
  directories found; each of the three passes has its own answers.
\<close>

definition sweep_orphans ::
  "'h lvm_tools \<Rightarrow> (nat \<Rightarrow> nat \<Rightarrow> 'h answers) \<Rightarrow> agent_cfg \<Rightarrow> ('h host \<Rightarrow> string option) \<Rightarrow> (string set \<Rightarrow> string list) \<Rightarrow>
   ('h host \<Rightarrow> string list option) \<Rightarrow> string set \<Rightarrow> 'h host \<Rightarrow> nat \<times> 'h host" where
  "sweep_orphans t as cfg unit_out order dir_names known w =
     (case collect (\<lambda>k. agent_delete_vm t (as 0 k) cfg) known None (map_option list_all_unit_vm_ids (unit_out w)) w of
        (n1, w1) \<Rightarrow>
     (case collect (\<lambda>k. reclaim_lvs t (as 1 k) cfg) known (Some ORPHAN_LV_BATCH)
        (map_option order (list_managed_vm_ids t (ag_rootfs cfg) (map backend_of (ag_pools cfg)) (dw_hw (ow_disks w1)))) w1 of
        (n2, w2) \<Rightarrow>
     (case collect (\<lambda>k. reclaim_dir (as 2 k) cfg) known None (dir_names w2) w2 of
        (n3, w3) \<Rightarrow> (wrap_u32 (n1 + n2 + n3), w3))))"

text \<open>The periodic sweep knows the machines of the table and those tracked or being created.\<close>

definition periodic_sweep ::
  "'h lvm_tools \<Rightarrow> (nat \<Rightarrow> nat \<Rightarrow> 'h answers) \<Rightarrow> agent_cfg \<Rightarrow> ('h host \<Rightarrow> string option) \<Rightarrow> (string set \<Rightarrow> string list) \<Rightarrow>
   ('h host \<Rightarrow> string list option) \<Rightarrow> ('h host \<Rightarrow> 'h host) \<Rightarrow> 'h host \<Rightarrow> nat \<times> 'h host" where
  "periodic_sweep t as cfg unit_out order dir_names env w =
     sweep_orphans t as cfg unit_out order dir_names (lm_vm_id ` set (ow_vms w) \<union> live_vm_ids w) (env w)"

subsection \<open>The contract of a teardown\<close>

text \<open>
  What a loop needs of the teardown it calls: a success leaves nothing of its subject, a subject that
  is gone stays gone, and nothing of the other subjects changes.
\<close>

locale teardown =
  fixes del :: "nat \<Rightarrow> 'x \<Rightarrow> 's \<Rightarrow> ('e, unit) res \<times> 's"
    and ok :: "'s \<Rightarrow> bool"
    and gone :: "'x \<Rightarrow> 's \<Rightarrow> bool"
    and kept :: "'x \<Rightarrow> 's \<Rightarrow> 's \<Rightarrow> bool"
  assumes del_ok: "ok s \<Longrightarrow> del k x s = (r, s') \<Longrightarrow> ok s'"
    and del_gone: "ok s \<Longrightarrow> del k x s = (Inr u, s') \<Longrightarrow> gone x s'"
    and del_stays: "ok s \<Longrightarrow> gone y s \<Longrightarrow> del k x s = (r, s') \<Longrightarrow> gone y s'"
    and del_kept: "ok s \<Longrightarrow> x \<noteq> y \<Longrightarrow> del k x s = (r, s') \<Longrightarrow> kept y s s'"
    and kept_refl: "kept y s s"
    and kept_trans: "kept y s s' \<Longrightarrow> kept y s' s'' \<Longrightarrow> kept y s s''"
begin

lemma loop_ok: "ok s \<Longrightarrow> teardown_loop del k xs s = (done', s') \<Longrightarrow> ok s'"
proof (induction xs arbitrary: k s done')
  case (Cons x xs)
  obtain r s1 where d: "del k x s = (r, s1)" by (metis prod.exhaust)
  have "ok s1" by (rule del_ok [OF Cons.prems(1) d])
  then show ?case using Cons d by (auto split: sum.splits prod.splits)
qed simp

lemma loop_gone:
  "ok s \<Longrightarrow> teardown_loop del k xs s = (done', s') \<Longrightarrow> set done' \<subseteq> set xs \<and> (\<forall>x \<in> set done'. gone x s') \<and> (\<forall>y. gone y s \<longrightarrow> gone y s')"
proof (induction xs arbitrary: k s done')
  case (Cons x xs)
  obtain r s1 where d: "del k x s = (r, s1)" by (metis prod.exhaust)
  obtain d2 where l: "teardown_loop del (Suc k) xs s1 = (d2, s')" "done' = (case r of Inr _ \<Rightarrow> x # d2 | Inl _ \<Rightarrow> d2)"
    using Cons.prems(2) d by (auto split: sum.splits prod.splits)
  have ok1: "ok s1" by (rule del_ok [OF Cons.prems(1) d])
  note ih = Cons.IH [OF ok1 l(1)]
  have st: "\<forall>y. gone y s \<longrightarrow> gone y s'" using ih del_stays [OF Cons.prems(1) _ d] by blast
  show ?case
  proof (cases r)
    case (Inl e)
    then show ?thesis using ih l(2) st by auto
  next
    case (Inr u)
    then have "gone x s1" using del_gone [OF Cons.prems(1)] d by blast
    then show ?thesis using ih l(2) st Inr by auto
  qed
qed simp

lemma loop_kept: "ok s \<Longrightarrow> y \<notin> set xs \<Longrightarrow> teardown_loop del k xs s = (done', s') \<Longrightarrow> kept y s s'"
proof (induction xs arbitrary: k s done')
  case Nil
  then show ?case by (simp add: kept_refl)
next
  case (Cons x xs)
  obtain r s1 where d: "del k x s = (r, s1)" by (metis prod.exhaust)
  obtain d2 where l: "teardown_loop del (Suc k) xs s1 = (d2, s')" using Cons.prems(3) d by (auto split: sum.splits prod.splits)
  have "x \<noteq> y" using Cons.prems(2) by auto
  then have "kept y s s1" by (rule del_kept [OF Cons.prems(1) _ d])
  moreover have "kept y s1 s'" using Cons.IH [OF del_ok [OF Cons.prems(1) d] _ l] Cons.prems(2) by simp
  ultimately show ?case by (rule kept_trans)
qed

lemma collect_kept: "ok s \<Longrightarrow> y \<in> known \<Longrightarrow> collect del known batch listed s = (n, s') \<Longrightarrow> ok s' \<and> kept y s s'"
proof (cases listed)
  case (Some ids)
  assume a: "ok s" "y \<in> known" "collect del known batch listed s = (n, s')"
  define os where "os = (case batch of None \<Rightarrow> filter (\<lambda>i. i \<notin> known) ids | Some b \<Rightarrow> take b (filter (\<lambda>i. i \<notin> known) ids))"
  have "y \<notin> set os" using a(2) by (auto simp: os_def split: option.splits dest: in_set_takeD)
  moreover obtain dn where "teardown_loop del 0 os s = (dn, s')"
    using a(3) Some by (auto simp: collect_def Let_def os_def split: prod.splits)
  ultimately show ?thesis using loop_ok [OF a(1)] loop_kept [OF a(1)] by blast
qed (auto simp: collect_def kept_refl)

end

subsection \<open>Deleting one machine\<close>

text \<open>The tools obey their contract, the ledger its invariant, and a tracked machine its unit and directory.\<close>

definition host_ok :: "'h lvm_tools \<Rightarrow> ('h \<Rightarrow> string \<Rightarrow> string set) \<Rightarrow> agent_cfg \<Rightarrow> 'h host \<Rightarrow> bool" where
  "host_ok t lvs cfg w \<longleftrightarrow> lvm_spec t lvs \<and> ledger_ok (dw_rows (ow_disks w)) \<and>
     (\<forall>i tk. ow_tracked w i = Some tk \<longrightarrow> tk = \<lparr>tk_unit_name = unit_name_for_vm i, tk_vm_dir = vm_dir cfg i\<rparr>)"

abbreviation rows_of :: "'h host \<Rightarrow> LvmReservationRow list" where
  "rows_of w \<equiv> dw_rows (ow_disks w)"

abbreviation vols_of :: "('h \<Rightarrow> string \<Rightarrow> string set) \<Rightarrow> 'h host \<Rightarrow> string \<Rightarrow> string set" where
  "vols_of lvs w \<equiv> lvs (dw_hw (ow_disks w))"

text \<open>No root volume and no reservation of the machine in the configured pools.\<close>

definition vm_gone :: "('h \<Rightarrow> string \<Rightarrow> string set) \<Rightarrow> agent_cfg \<Rightarrow> string \<Rightarrow> 'h host \<Rightarrow> bool" where
  "vm_gone lvs cfg vmid w \<longleftrightarrow> VM_LV_PREFIX @ vmid \<notin> vols_of lvs w (rf_vg (ag_rootfs cfg)) \<and>
     (\<forall>r \<in> set (rows_of w). lr_vm_id r = vmid \<longrightarrow> lr_pool r \<notin> xp_name ` set (ag_pools cfg))"

text \<open>Everything of a machine is as it was: its row, its unit, its directory, its volumes and reservations.\<close>

definition vm_kept :: "('h \<Rightarrow> string \<Rightarrow> string set) \<Rightarrow> agent_cfg \<Rightarrow> string \<Rightarrow> 'h host \<Rightarrow> 'h host \<Rightarrow> bool" where
  "vm_kept lvs cfg v w w' \<longleftrightarrow>
     (\<forall>r. lm_vm_id r = v \<longrightarrow> (r \<in> set (ow_vms w')) = (r \<in> set (ow_vms w))) \<and> ow_tracked w' v = ow_tracked w v \<and>
     ow_units w' (unit_name_for_vm v) = ow_units w (unit_name_for_vm v) \<and> (vm_dir cfg v \<in> ow_dirs w') = (vm_dir cfg v \<in> ow_dirs w) \<and>
     (\<forall>q. lr_vm_id q = v \<longrightarrow> (q \<in> set (rows_of w')) = (q \<in> set (rows_of w))) \<and>
     (VM_LV_PREFIX @ v \<in> vols_of lvs w' (rf_vg (ag_rootfs cfg))) = (VM_LV_PREFIX @ v \<in> vols_of lvs w (rf_vg (ag_rootfs cfg))) \<and>
     (\<forall>q \<in> set (rows_of w). lr_vm_id q = v \<longrightarrow> (lr_lv_name q \<in> vols_of lvs w' (lr_vg q)) = (lr_lv_name q \<in> vols_of lvs w (lr_vg q)))"

lemma vm_kept_refl: "vm_kept lvs cfg v w w"
  by (simp add: vm_kept_def)

lemma vm_kept_trans: "vm_kept lvs cfg v w w' \<Longrightarrow> vm_kept lvs cfg v w' w'' \<Longrightarrow> vm_kept lvs cfg v w w''"
  unfolding vm_kept_def by simp

lemma unit_name_inj: "unit_name_for_vm x = unit_name_for_vm y \<longleftrightarrow> x = y"
  by (simp add: unit_name_for_vm_def)

lemma vm_dir_inj: "vm_dir cfg x = vm_dir cfg y \<longleftrightarrow> x = y"
  by (simp add: vm_dir_def)

lemma data_name_not_root: "row_named q \<Longrightarrow> lr_lv_name q \<noteq> VM_LV_PREFIX @ v"
  by (simp add: row_named_def lv_name_def DATA_LV_PREFIX_def VM_LV_PREFIX_def)

lemma remove_vm_rootfs_effect:
  assumes t: "lvm_spec t lvs" and e: "remove_vm_rootfs t p c x h = (r, h')"
  shows "(v, n) \<noteq> (rf_vg c, VM_LV_PREFIX @ x) \<Longrightarrow> (n \<in> lvs h' v) = (n \<in> lvs h v)"
    and "lvs h' v \<subseteq> lvs h v" and "r = Inr u \<Longrightarrow> VM_LV_PREFIX @ x \<notin> lvs h' (rf_vg c)"
  using e lvm_specD(2) [OF t, of h "rf_vg c" "VM_LV_PREFIX @ x"] lvm_specD(3) [OF t, of "rf_vg c" "VM_LV_PREFIX @ x" h]
  by (auto simp: remove_vm_rootfs_def Let_def split: option.splits if_splits)

lemma reclaim_lvs_cases:
  assumes "reclaim_lvs t a cfg x w = (r, w')"
  obtains r1 h where "remove_vm_rootfs t (an_remove_permit a) (ag_rootfs cfg) x (dw_hw (ow_disks w)) = (r1, h)"
    "(\<exists>e. r1 = Inl e \<and> r = Inl e \<and> w' = w\<lparr>ow_disks := (ow_disks w)\<lparr>dw_hw := h\<rparr>\<rparr>) \<or>
     (\<exists>u d. r1 = Inr u \<and> release_vm_disks t (an_release_permit a) (map backend_of (ag_pools cfg)) x ((ow_disks w)\<lparr>dw_hw := h\<rparr>) = (r, d) \<and>
        w' = w\<lparr>ow_disks := d\<rparr>)"
  using assms by (auto simp: reclaim_lvs_def split: prod.splits sum.splits)

lemma be_pools: "be_pool ` backend_of ` S = xp_name ` S"
  by (auto simp: backend_of_def image_iff)

lemma reclaim_lvs_disks:
  assumes ok: "host_ok t lvs cfg w" and e: "reclaim_lvs t a cfg x w = (r, w')"
  obtains h where "\<And>v n. (v, n) \<noteq> (rf_vg (ag_rootfs cfg), VM_LV_PREFIX @ x) \<Longrightarrow> (n \<in> lvs h v) = (n \<in> vols_of lvs w v)"
    "\<And>v. lvs h v \<subseteq> vols_of lvs w v" "released lvs x ((ow_disks w)\<lparr>dw_hw := h\<rparr>) (ow_disks w')"
    "w' = w\<lparr>ow_disks := ow_disks w'\<rparr>" "\<And>u. r = Inr u \<Longrightarrow> VM_LV_PREFIX @ x \<notin> lvs h (rf_vg (ag_rootfs cfg))"
    "\<And>u q. r = Inr u \<Longrightarrow> q \<in> set (rows_of w') \<Longrightarrow> lr_vm_id q = x \<Longrightarrow> lr_pool q \<notin> xp_name ` set (ag_pools cfg)"
proof (rule reclaim_lvs_cases [OF e])
  fix r1 h
  assume rm: "remove_vm_rootfs t (an_remove_permit a) (ag_rootfs cfg) x (dw_hw (ow_disks w)) = (r1, h)"
    and c: "(\<exists>e. r1 = Inl e \<and> r = Inl e \<and> w' = w\<lparr>ow_disks := (ow_disks w)\<lparr>dw_hw := h\<rparr>\<rparr>) \<or>
     (\<exists>u d. r1 = Inr u \<and> release_vm_disks t (an_release_permit a) (map backend_of (ag_pools cfg)) x ((ow_disks w)\<lparr>dw_hw := h\<rparr>) = (r, d) \<and>
        w' = w\<lparr>ow_disks := d\<rparr>)"
  have t: "lvm_spec t lvs" and l: "ledger_ok (dw_rows ((ow_disks w)\<lparr>dw_hw := h\<rparr>))" using ok by (simp_all add: host_ok_def)
  note f = remove_vm_rootfs_effect [OF t rm]
  have rel: "released lvs x ((ow_disks w)\<lparr>dw_hw := h\<rparr>) (ow_disks w')"
    using c released_refl [OF l] release_vm_disks_effect [OF t l] by fastforce
  have w': "w' = w\<lparr>ow_disks := ow_disks w'\<rparr>" using c by auto
  have g1: "VM_LV_PREFIX @ x \<notin> lvs h (rf_vg (ag_rootfs cfg))" if "r = Inr u" for u using c f(3) that by auto
  have g2: "lr_pool q \<notin> xp_name ` set (ag_pools cfg)" if "r = Inr u" "q \<in> set (rows_of w')" "lr_vm_id q = x" for u q
  proof -
    obtain v d where d: "release_vm_disks t (an_release_permit a) (map backend_of (ag_pools cfg)) x ((ow_disks w)\<lparr>dw_hw := h\<rparr>) = (r, d)" "w' = w\<lparr>ow_disks := d\<rparr>"
      using c \<open>r = Inr u\<close> by auto
    show ?thesis using release_vm_disks_effect [OF t l d(1)] d(2) that by (simp add: be_pools)
  qed
  show ?thesis by (rule that [of h]) (use f(1,2) rel w' g1 g2 in auto)
qed

lemma released_kept:
  assumes l: "ledger_ok (dw_rows d)" and r: "released lvs x d d'" and xy: "x \<noteq> y"
  shows "(VM_LV_PREFIX @ y \<in> lvs (dw_hw d') v) = (VM_LV_PREFIX @ y \<in> lvs (dw_hw d) v)"
    and "q \<in> set (dw_rows d) \<Longrightarrow> lr_vm_id q = y \<Longrightarrow> (lr_lv_name q \<in> lvs (dw_hw d') (lr_vg q)) = (lr_lv_name q \<in> lvs (dw_hw d) (lr_vg q))"
proof -
  have named: "row_named p" if "p \<in> set (dw_rows d)" for p using l that by (simp add: ledger_ok_def list_all_iff)
  show "(VM_LV_PREFIX @ y \<in> lvs (dw_hw d') v) = (VM_LV_PREFIX @ y \<in> lvs (dw_hw d) v)"
    using releasedD(4) [OF r, of v] releasedD(5) [OF r, of "VM_LV_PREFIX @ y" v] named data_name_not_root by blast
  show "(lr_lv_name q \<in> lvs (dw_hw d') (lr_vg q)) = (lr_lv_name q \<in> lvs (dw_hw d) (lr_vg q))" if "q \<in> set (dw_rows d)" "lr_vm_id q = y"
    using releasedD(4) [OF r, of "lr_vg q"] releasedD(5) [OF r, of "lr_lv_name q" "lr_vg q"] ledger_same_volume [OF l that(1)] that(2) xy by blast
qed

lemma reclaim_lvs_ok: "host_ok t lvs cfg w \<Longrightarrow> reclaim_lvs t a cfg x w = (r, w') \<Longrightarrow> host_ok t lvs cfg w'"
proof -
  assume a: "host_ok t lvs cfg w" "reclaim_lvs t a cfg x w = (r, w')"
  show "host_ok t lvs cfg w'"
  proof (rule reclaim_lvs_disks [OF a])
    fix h assume rel: "released lvs x ((ow_disks w)\<lparr>dw_hw := h\<rparr>) (ow_disks w')" and w': "w' = w\<lparr>ow_disks := ow_disks w'\<rparr>"
    have "ow_tracked w' = ow_tracked w" by (subst w') simp
    then show ?thesis using a(1) releasedD(1) [OF rel] by (simp add: host_ok_def)
  qed
qed

lemma reclaim_lvs_gone:
  assumes a: "host_ok t lvs cfg w" "reclaim_lvs t a cfg x w = (Inr u, w')"
  shows "vm_gone lvs cfg x w'"
proof (rule reclaim_lvs_disks [OF a])
  fix h assume rel: "released lvs x ((ow_disks w)\<lparr>dw_hw := h\<rparr>) (ow_disks w')"
    and g: "\<And>v. Inr u = Inr v \<Longrightarrow> VM_LV_PREFIX @ x \<notin> lvs h (rf_vg (ag_rootfs cfg))"
    "\<And>v q. Inr u = Inr v \<Longrightarrow> q \<in> set (rows_of w') \<Longrightarrow> lr_vm_id q = x \<Longrightarrow> lr_pool q \<notin> xp_name ` set (ag_pools cfg)"
  have "VM_LV_PREFIX @ x \<notin> vols_of lvs w' (rf_vg (ag_rootfs cfg))" using releasedD(4) [OF rel, of "rf_vg (ag_rootfs cfg)"] g(1) by auto
  then show ?thesis using g(2) by (auto simp: vm_gone_def)
qed

lemma reclaim_lvs_stays:
  assumes a: "host_ok t lvs cfg w" "reclaim_lvs t a cfg x w = (r, w')" and y: "vm_gone lvs cfg y w"
  shows "vm_gone lvs cfg y w'"
proof (rule reclaim_lvs_disks [OF a])
  fix h assume sub: "\<And>v. lvs h v \<subseteq> vols_of lvs w v" and rel: "released lvs x ((ow_disks w)\<lparr>dw_hw := h\<rparr>) (ow_disks w')"
  have "VM_LV_PREFIX @ y \<notin> vols_of lvs w' (rf_vg (ag_rootfs cfg))"
    using y sub [of "rf_vg (ag_rootfs cfg)"] releasedD(4) [OF rel, of "rf_vg (ag_rootfs cfg)"] by (auto simp: vm_gone_def)
  moreover have "lr_pool q \<notin> xp_name ` set (ag_pools cfg)" if q: "q \<in> set (rows_of w')" "lr_vm_id q = y" for q
  proof -
    obtain p where "p \<in> set (rows_of w)" "q = p\<lparr>lr_state := lr_state q\<rparr>" using releasedD(3) [OF rel q(1)] by auto
    then show ?thesis using y q(2) same_but_state [of q p] by (auto simp: vm_gone_def)
  qed
  ultimately show ?thesis by (auto simp: vm_gone_def)
qed

lemma reclaim_lvs_kept:
  assumes a: "host_ok t lvs cfg w" "reclaim_lvs t a cfg x w = (r, w')" and xy: "x \<noteq> y"
  shows "vm_kept lvs cfg y w w'"
proof (rule reclaim_lvs_disks [OF a])
  fix h assume eq: "\<And>v n. (v, n) \<noteq> (rf_vg (ag_rootfs cfg), VM_LV_PREFIX @ x) \<Longrightarrow> (n \<in> lvs h v) = (n \<in> vols_of lvs w v)"
    and rel: "released lvs x ((ow_disks w)\<lparr>dw_hw := h\<rparr>) (ow_disks w')" and w': "w' = w\<lparr>ow_disks := ow_disks w'\<rparr>"
  have l: "ledger_ok (dw_rows ((ow_disks w)\<lparr>dw_hw := h\<rparr>))" using a(1) by (simp add: host_ok_def)
  have same: "ow_vms w' = ow_vms w" "ow_tracked w' = ow_tracked w" "ow_units w' = ow_units w" "ow_dirs w' = ow_dirs w" by (subst w', simp)+
  have rows: "(q \<in> set (rows_of w')) = (q \<in> set (rows_of w))" if "lr_vm_id q = y" for q using releasedD(2) [OF rel, of q] that xy by simp
  note k = released_kept [OF l rel xy, simplified]
  have named: "lr_lv_name q \<noteq> VM_LV_PREFIX @ x" if "q \<in> set (rows_of w)" for q
    using data_name_not_root l that by (simp add: ledger_ok_def list_all_iff)
  show ?thesis unfolding vm_kept_def same using rows k eq named xy by (simp add: eq)
qed

lemma stop_vm_same [simp]:
  "ow_disks (stop_vm a cfg x w) = ow_disks w" "ow_vms (stop_vm a cfg x w) = ow_vms w" "ow_pending (stop_vm a cfg x w) = ow_pending w"
  "ow_sent (stop_vm a cfg x w) = ow_sent w" "ow_tracked (stop_vm a cfg x w) = (ow_tracked w)(x := None)"
  by (auto simp: stop_vm_def detach_vm_taps_def unbind_gpus_def vm_mgr_delete_def Let_def split: option.splits)

lemma stop_vm_units:
  assumes "host_ok t lvs cfg w"
  shows "ow_units (stop_vm a cfg x w) = (if an_stop a then (ow_units w)(unit_name_for_vm x := None) else ow_units w)"
    and "ow_dirs (stop_vm a cfg x w) = (if an_rmdir a then ow_dirs w - {vm_dir cfg x} else ow_dirs w)"
proof -
  have eq: "tk = \<lparr>tk_unit_name = unit_name_for_vm x, tk_vm_dir = vm_dir cfg x\<rparr>" if "ow_tracked w x = Some tk" for tk
    using assms that by (auto simp: host_ok_def)
  have tk: "tk_unit_name tk = unit_name_for_vm x" "tk_vm_dir tk = vm_dir cfg x" if "ow_tracked w x = Some tk" for tk
    by (subst eq [OF that], simp)+
  show "ow_units (stop_vm a cfg x w) = (if an_stop a then (ow_units w)(unit_name_for_vm x := None) else ow_units w)"
    and "ow_dirs (stop_vm a cfg x w) = (if an_rmdir a then ow_dirs w - {vm_dir cfg x} else ow_dirs w)"
    by (auto simp: stop_vm_def detach_vm_taps_def unbind_gpus_def vm_mgr_delete_def Let_def tk split: option.splits)
qed

lemma stop_vm_ok: "host_ok t lvs cfg w \<Longrightarrow> host_ok t lvs cfg (stop_vm a cfg x w)"
  by (auto simp: host_ok_def)

lemma stop_vm_kept: "host_ok t lvs cfg w \<Longrightarrow> x \<noteq> y \<Longrightarrow> vm_kept lvs cfg y w (stop_vm a cfg x w)"
  by (simp add: vm_kept_def stop_vm_units unit_name_inj vm_dir_inj)

lemma agent_delete_vm_eq:
  "agent_delete_vm t a cfg x w = (case reclaim_lvs t a cfg x (stop_vm a cfg x w) of
     (Inl e, w') \<Rightarrow> (Inl e, w')
   | (Inr _, w') \<Rightarrow> (Inr (), w'\<lparr>ow_vms := if an_delete a then agent_delete_vm_row x (ow_vms w') else ow_vms w'\<rparr>))"
  by (auto simp: agent_delete_vm_def reclaim_lvs_def Let_def split: prod.splits sum.splits)

lemma agent_delete_vm_cases:
  assumes "agent_delete_vm t a cfg x w = (r, w')"
  obtains r1 w1 where "reclaim_lvs t a cfg x (stop_vm a cfg x w) = (r1, w1)"
    "(\<exists>e. r1 = Inl e \<and> r = Inl e \<and> w' = w1) \<or>
     (r1 = Inr () \<and> r = Inr () \<and> w' = w1\<lparr>ow_vms := if an_delete a then agent_delete_vm_row x (ow_vms w1) else ow_vms w1\<rparr>)"
  using assms unfolding agent_delete_vm_eq by (auto split: prod.splits sum.splits)

lemma gone_vms_update [simp]: "vm_gone lvs cfg y (w\<lparr>ow_vms := v\<rparr>) = vm_gone lvs cfg y w"
  by (simp add: vm_gone_def)

lemma ok_vms_update [simp]: "host_ok t lvs cfg (w\<lparr>ow_vms := v\<rparr>) = host_ok t lvs cfg w"
  by (simp add: host_ok_def)

lemma kept_delete_row: "x \<noteq> y \<Longrightarrow> vm_kept lvs cfg y w w' \<Longrightarrow> vm_kept lvs cfg y w (w'\<lparr>ow_vms := agent_delete_vm_row x (ow_vms w')\<rparr>)"
  by (auto simp: vm_kept_def agent_delete_vm_row_def)

lemma agent_delete_vm_ok: "host_ok t lvs cfg w \<Longrightarrow> agent_delete_vm t a cfg x w = (r, w') \<Longrightarrow> host_ok t lvs cfg w'"
  by (erule agent_delete_vm_cases) (auto dest: reclaim_lvs_ok [OF stop_vm_ok])

lemma agent_delete_vm_gone: "host_ok t lvs cfg w \<Longrightarrow> agent_delete_vm t a cfg x w = (Inr u, w') \<Longrightarrow> vm_gone lvs cfg x w'"
  by (erule agent_delete_vm_cases) (auto dest: reclaim_lvs_gone [OF stop_vm_ok])

lemma agent_delete_vm_stays:
  assumes "host_ok t lvs cfg w" "vm_gone lvs cfg y w" "agent_delete_vm t a cfg x w = (r, w')"
  shows "vm_gone lvs cfg y w'"
proof -
  have g: "vm_gone lvs cfg y (stop_vm a cfg x w)" using assms(2) by (simp add: vm_gone_def)
  show ?thesis
    by (rule agent_delete_vm_cases [OF assms(3)]) (auto dest: reclaim_lvs_stays [OF stop_vm_ok [OF assms(1)] _ g])
qed

lemma agent_delete_vm_kept:
  assumes "host_ok t lvs cfg w" "x \<noteq> y" "agent_delete_vm t a cfg x w = (r, w')"
  shows "vm_kept lvs cfg y w w'"
proof (rule agent_delete_vm_cases [OF assms(3)])
  fix r1 w1
  assume e: "reclaim_lvs t a cfg x (stop_vm a cfg x w) = (r1, w1)"
    and c: "(\<exists>e. r1 = Inl e \<and> r = Inl e \<and> w' = w1) \<or>
     (r1 = Inr () \<and> r = Inr () \<and> w' = w1\<lparr>ow_vms := if an_delete a then agent_delete_vm_row x (ow_vms w1) else ow_vms w1\<rparr>)"
  have "vm_kept lvs cfg y w w1"
    using vm_kept_trans [OF stop_vm_kept [OF assms(1,2)] reclaim_lvs_kept [OF stop_vm_ok [OF assms(1)] e assms(2)]] .
  then show ?thesis using c kept_delete_row [OF assms(2)] by auto
qed

lemma reclaim_lvs_covered:
  assumes ok: "host_ok t lvs cfg w" and e: "reclaim_lvs t a cfg x w = (r, w')"
  shows "covered lvs (ow_disks w) (ow_disks w')"
proof (rule reclaim_lvs_cases [OF e])
  fix r1 h
  assume rm: "remove_vm_rootfs t (an_remove_permit a) (ag_rootfs cfg) x (dw_hw (ow_disks w)) = (r1, h)"
    and c: "(\<exists>e. r1 = Inl e \<and> r = Inl e \<and> w' = w\<lparr>ow_disks := (ow_disks w)\<lparr>dw_hw := h\<rparr>\<rparr>) \<or>
     (\<exists>u d. r1 = Inr u \<and> release_vm_disks t (an_release_permit a) (map backend_of (ag_pools cfg)) x ((ow_disks w)\<lparr>dw_hw := h\<rparr>) = (r, d) \<and>
        w' = w\<lparr>ow_disks := d\<rparr>)"
  have t: "lvm_spec t lvs" and l: "ledger_ok (dw_rows ((ow_disks w)\<lparr>dw_hw := h\<rparr>))" using ok by (simp_all add: host_ok_def)
  have "covered lvs (ow_disks w) ((ow_disks w)\<lparr>dw_hw := h\<rparr>)"
    using remove_vm_rootfs_effect(2) [OF t rm] by (intro covered_keep) simp_all
  then show ?thesis using c release_vm_disks_covered [OF t l] covered_trans by fastforce
qed

lemma agent_delete_vm_covered:
  "host_ok t lvs cfg w \<Longrightarrow> agent_delete_vm t a cfg x w = (r, w') \<Longrightarrow> covered lvs (ow_disks w) (ow_disks w')"
  by (erule agent_delete_vm_cases) (auto dest: reclaim_lvs_covered [OF stop_vm_ok])

lemma agent_delete_vm_tracked: "agent_delete_vm t a cfg x w = (r, w') \<Longrightarrow> ow_tracked w' = (ow_tracked w)(x := None)"
  by (auto simp: agent_delete_vm_def Let_def split: prod.splits sum.splits)

text \<open>
  A machine that was deleted is not tracked either.  \<open>d0\<close> are the disks when the loop began: a volume
  that had a reservation then has one now, or is gone.
\<close>

interpretation vm_teardown: teardown "\<lambda>k. agent_delete_vm t (as k) cfg" "\<lambda>w. host_ok t lvs cfg w \<and> covered lvs d0 (ow_disks w)"
  "\<lambda>x w. vm_gone lvs cfg x w \<and> ow_tracked w x = None" "vm_kept lvs cfg"
  for t :: "'h lvm_tools" and as cfg lvs d0
proof (unfold_locales, goal_cases)
  case (1 s k x r s')
  then show ?case using agent_delete_vm_ok agent_delete_vm_covered covered_trans by blast
next
  case (2 s k x u s')
  then show ?case using agent_delete_vm_gone agent_delete_vm_tracked by fastforce
next
  case (3 s y k x r s')
  then show ?case using agent_delete_vm_stays agent_delete_vm_tracked by fastforce
qed (blast intro: agent_delete_vm_kept vm_kept_refl vm_kept_trans)+

interpretation lv_reclaim: teardown "\<lambda>k. reclaim_lvs t (as k) cfg" "host_ok t lvs cfg" "vm_gone lvs cfg" "vm_kept lvs cfg"
  for t :: "'h lvm_tools" and as cfg lvs
  by unfold_locales (blast intro: reclaim_lvs_ok reclaim_lvs_gone reclaim_lvs_stays reclaim_lvs_kept vm_kept_refl vm_kept_trans)+

definition dir_gone :: "agent_cfg \<Rightarrow> string \<Rightarrow> 'h host \<Rightarrow> bool" where
  "dir_gone cfg vmid w \<longleftrightarrow> vm_dir cfg vmid \<notin> ow_dirs w"

interpretation dir_reclaim: teardown "\<lambda>k. reclaim_dir (as k) cfg" "host_ok t lvs cfg" "dir_gone cfg" "vm_kept lvs cfg"
  for t :: "'h lvm_tools" and as cfg lvs
proof
  show "host_ok t lvs cfg s'" if "host_ok t lvs cfg s" "reclaim_dir (as k) cfg x s = (r, s')" for s s' :: "'h host" and k x r
    using that by (auto simp: reclaim_dir_def host_ok_def split: if_splits)
  show "vm_kept lvs cfg y s s'" if "x \<noteq> y" "reclaim_dir (as k) cfg x s = (r, s')" for s s' :: "'h host" and k x y r
    using that by (auto simp: reclaim_dir_def vm_kept_def vm_dir_inj split: if_splits)
qed (auto simp: reclaim_dir_def dir_gone_def split: if_splits intro: vm_kept_refl vm_kept_trans)

subsection \<open>Properties\<close>

lemma covered_self: "covered lvs w w"
  by (rule covered_keep) simp_all


text \<open>
  C14. The orphan sweep spares every machine it knew of: a machine with a row in the local table,
  one that is tracked and one that is being created keep everything, however the passes go and
  whatever else happened between the look at the tables and the listing of the host.
\<close>

theorem sweep_spares_known:
  assumes ok: "host_ok t lvs cfg (env w)" and v: "v \<in> lm_vm_id ` set (ow_vms w) \<or> ow_tracked w v \<noteq> None \<or> v \<in> ow_pending w"
    and e: "periodic_sweep t as cfg unit_out order dir_names env w = (n, w')"
  shows "vm_kept lvs cfg v (env w) w'"
proof -
  let ?known = "lm_vm_id ` set (ow_vms w) \<union> live_vm_ids w"
  have k: "v \<in> ?known" using v by (auto simp: live_vm_ids_def)
  obtain n1 w1 where c1: "collect (\<lambda>k. agent_delete_vm t (as 0 k) cfg) ?known None (map_option list_all_unit_vm_ids (unit_out (env w))) (env w) = (n1, w1)"
    by (metis prod.exhaust)
  obtain n2 w2 where c2: "collect (\<lambda>k. reclaim_lvs t (as 1 k) cfg) ?known (Some ORPHAN_LV_BATCH)
      (map_option order (list_managed_vm_ids t (ag_rootfs cfg) (map backend_of (ag_pools cfg)) (dw_hw (ow_disks w1)))) w1 = (n2, w2)"
    by (metis prod.exhaust)
  obtain n3 where c3: "collect (\<lambda>k. reclaim_dir (as 2 k) cfg) ?known None (dir_names w2) w2 = (n3, w')"
    using e c1 c2 by (auto simp: periodic_sweep_def sweep_orphans_def split: prod.splits)
  have s1: "host_ok t lvs cfg w1 \<and> vm_kept lvs cfg v (env w) w1"
    using vm_teardown.collect_kept [OF conjI [OF ok covered_self] k c1] by blast
  then have s2: "host_ok t lvs cfg w2 \<and> vm_kept lvs cfg v w1 w2" using lv_reclaim.collect_kept [OF _ k c2] by blast
  then have "vm_kept lvs cfg v w2 w'" using dir_reclaim.collect_kept [OF _ k c3] by blast
  then show ?thesis using s1 s2 vm_kept_trans by blast
qed

subsection \<open>Witnesses\<close>

definition example_agent_cfg :: agent_cfg where
  "example_agent_cfg = \<lparr>ag_rootfs = \<lparr>rf_vg = ''basis'', rf_thin_pool = ''thin''\<rparr>,
     ag_pools = [\<lparr>xp_name = ''bulk'', xp_backend = LvmLinear, xp_labels = Map.empty, xp_devices = [\<lparr>xd_id = ''sdb'', xd_vg = Some ''vg-b'', xd_size_gib = 100\<rparr>]\<rparr>],
     ag_vms_dir = ''/vms'', ag_tap_name = (\<lambda>v. ''tap-'' @ v), ag_mac = (\<lambda>v. ''52:54:00:00:00:01'')\<rparr>"

definition example_answers :: "'h answers" where
  "example_answers = \<lparr>an_mkdir = True, an_image = (\<lambda>h. (Some (cached_image ''img'' 1), h)), an_vgs = (\<lambda>_. Inr ''100 50''),
     an_insert = True, an_rootfs_permit = True, an_disk_permit = (\<lambda>_. True), an_update = True, an_iso = True, an_bootstrap = True,
     an_tap_add = True, an_tap_up = True, an_bound = (\<lambda>_. True), an_bind = (\<lambda>p. Some (''/dev/vfio/'' @ p)), an_spawn = True,
     an_get = True, an_stop = True, an_rmdir = True, an_detach = True, an_unbind = (\<lambda>_. True), an_remove_permit = True,
     an_release_permit = True, an_delete = True\<rparr>"

definition example_local_row :: "string \<Rightarrow> LocalVmRow" where
  "example_local_row v = \<lparr>lm_vm_id = v, lm_name = v, lm_unit_name = unit_name_for_vm v, lm_ip_address = 1, lm_cpu = 2, lm_memory_mib = 1024,
     lm_disk_gib = 10, lm_gpu_pci_addresses = [], lm_storage_disks = [], lm_image = ''img'', lm_vni = 100, lm_cluster_id = ''c'', lm_created_at = ''''\<rparr>"

text \<open>A host with a machine \<open>v\<close> and the remains of a machine \<open>w\<close>: its volumes and a reservation.\<close>

definition example_agent_host :: "(string \<times> string) list host" where
  "example_agent_host = \<lparr>ow_disks = \<lparr>dw_rows = [example_row ''a1'' ''v'' ''Ready'', example_row ''a2'' ''w'' ''Ready''],
       dw_hw = [(''vg-b'', lv_name ''v'' 0), (''vg-b'', lv_name ''w'' 0), (''basis'', VM_LV_PREFIX @ ''v''), (''basis'', VM_LV_PREFIX @ ''w'')]\<rparr>,
     ow_vms = [example_local_row ''v''], ow_tracked = [''v'' \<mapsto> \<lparr>tk_unit_name = unit_name_for_vm ''v'', tk_vm_dir = vm_dir example_agent_cfg ''v''\<rparr>],
     ow_pending = {}, ow_units = [unit_name_for_vm ''v'' \<mapsto> []], ow_dirs = {vm_dir example_agent_cfg ''v''}, ow_taps = {''tap-v''}, ow_vfio = {}, ow_sent = []\<rparr>"

lemma example_host_ok: "host_ok lvm_ref lvs_ref example_agent_cfg example_agent_host"
  by (simp add: host_ok_def lvm_ref_spec example_agent_host_def ledger_ok_def example_row_def row_named_def example_names split: if_splits)


text \<open>Witness of C14: a host with the remains of \<open>w\<close>; \<open>v\<close> is spared.\<close>

theorem sweep_spares_known_witness:
  "\<exists>n w'. periodic_sweep lvm_ref (\<lambda>_ _. example_answers) example_agent_cfg (\<lambda>_. Some '''') (\<lambda>s. filter (\<lambda>v. v \<in> s) [''v'', ''w''])
      (\<lambda>_. Some [''v'']) (\<lambda>w. w) example_agent_host = (n, w') \<and> vm_kept lvs_ref example_agent_cfg ''v'' example_agent_host w'"
proof -
  let ?s = "periodic_sweep lvm_ref (\<lambda>_ _. example_answers) example_agent_cfg (\<lambda>_. Some '''') (\<lambda>s. filter (\<lambda>v. v \<in> s) [''v'', ''w''])
      (\<lambda>_. Some [''v'']) (\<lambda>w. w) example_agent_host"
  obtain n w' where e: "?s = (n, w')" by (metis prod.exhaust)
  have v: "''v'' \<in> lm_vm_id ` set (ow_vms example_agent_host) \<or> ow_tracked example_agent_host ''v'' \<noteq> None \<or> ''v'' \<in> ow_pending example_agent_host"
    by (simp add: example_agent_host_def example_local_row_def)
  show ?thesis using e sweep_spares_known [OF example_host_ok v e] by blast
qed

subsection \<open>Behaviours worth knowing\<close>

lemma agent_delete_vm_stops: "agent_delete_vm t a cfg x w = (r, w') \<Longrightarrow> ow_units w' = ow_units (stop_vm a cfg x w)"
  by (auto simp: agent_delete_vm_def Let_def split: prod.splits sum.splits)

lemma create_existing_fails:
  assumes "r \<in> set (ow_vms w)" "lm_vm_id r = cc_vm_id cmd"
  shows "\<exists>e h dirs. create_vm_inner t a cfg now cmd w = (Inl e, w\<lparr>ow_dirs := dirs, ow_disks := (ow_disks w)\<lparr>dw_hw := h\<rparr>\<rparr>)"
proof -
  have n: "agent_insert_vm (local_row cmd now) (ow_vms w) = None"
    using assms by (auto simp: agent_insert_vm_def local_row_def list_ex_iff)
  have self: "w = w\<lparr>ow_dirs := ow_dirs w, ow_disks := (ow_disks w)\<lparr>dw_hw := dw_hw (ow_disks w)\<rparr>\<rparr>" by simp
  show ?thesis
    by (auto simp: create_vm_inner_def Let_def n split: prod.splits option.splits sum.splits intro: self)
qed

text \<open>
  A create for a machine that is already on the host, such as a command that is delivered twice,
  fails at the insert of its row; its rollback then deletes the machine that was running.
\<close>

theorem replayed_create_destroys_machine:
  assumes ok: "host_ok t lvs cfg w" and r: "r \<in> set (ow_vms w)" "lm_vm_id r = cc_vm_id cmd"
    and e: "agent_create_vm t a a' cfg now cmd w = (res, w')"
  shows "\<not> is_ok res \<and> ow_tracked w' (cc_vm_id cmd) = None \<and> (an_stop a' \<longrightarrow> ow_units w' (unit_name_for_vm (cc_vm_id cmd)) = None)"
proof -
  let ?w = "w\<lparr>ow_pending := insert (cc_vm_id cmd) (ow_pending w)\<rparr>"
  obtain er h dirs where c: "create_vm_inner t a cfg now cmd ?w = (Inl er, ?w\<lparr>ow_dirs := dirs, ow_disks := (ow_disks ?w)\<lparr>dw_hw := h\<rparr>\<rparr>)"
    using create_existing_fails [of r ?w cmd t a cfg now] r by auto
  define w2 where "w2 = ?w\<lparr>ow_dirs := dirs, ow_disks := (ow_disks ?w)\<lparr>dw_hw := h\<rparr>, ow_pending := ow_pending ?w - {cc_vm_id cmd}\<rparr>"
  obtain r2 w3 where d: "agent_delete_vm t a' cfg (cc_vm_id cmd) w2 = (r2, w3)" by (metis prod.exhaust)
  have "res = Inl er" "w' = w3" using e c d by (simp_all add: agent_create_vm_def w2_def)
  moreover have ok2: "host_ok t lvs cfg w2" using ok by (simp add: host_ok_def w2_def)
  ultimately show ?thesis
    using agent_delete_vm_tracked [OF d] agent_delete_vm_stops [OF d] stop_vm_units(1) [OF ok2, of a' "cc_vm_id cmd"] by simp
qed

text \<open>A delete that succeeds says nothing of the unit: when \<open>systemctl\<close> does not stop it, it still runs.\<close>

theorem deleted_machine_may_still_run:
  "\<not> an_stop a \<Longrightarrow> agent_delete_vm t a cfg x w = (r, w') \<Longrightarrow> ow_units w' = ow_units w"
  by (auto simp: agent_delete_vm_def stop_vm_def detach_vm_taps_def unbind_gpus_def vm_mgr_delete_def Let_def
      split: prod.splits sum.splits option.splits)

text \<open>
  The sweep looks at the tables before it lists the host.  A machine created in between is unknown to
  it: here \<open>w\<close> appears meanwhile, is tracked, and loses its root volume to the sweep.
\<close>

theorem sweep_reaps_new_machine:
  "let w' = snd (periodic_sweep lvm_ref (\<lambda>_ _. example_answers) example_agent_cfg (\<lambda>_. Some '''') (\<lambda>s. filter (\<lambda>v. v \<in> s) [''v'', ''w''])
      (\<lambda>_. Some [''v'']) (\<lambda>w. w\<lparr>ow_tracked := (ow_tracked w)(''w'' \<mapsto> \<lparr>tk_unit_name = unit_name_for_vm ''w'', tk_vm_dir = vm_dir example_agent_cfg ''w''\<rparr>)\<rparr>)
      (example_agent_host\<lparr>ow_disks := \<lparr>dw_rows = [], dw_hw = [(''basis'', VM_LV_PREFIX @ ''v''), (''basis'', VM_LV_PREFIX @ ''w'')]\<rparr>\<rparr>))
   in ow_tracked w' ''w'' \<noteq> None \<and> (''basis'', VM_LV_PREFIX @ ''w'') \<notin> set (dw_hw (ow_disks w'))"
proof -
  have known: "lm_vm_id ` set (ow_vms (example_agent_host\<lparr>ow_disks := d\<rparr>)) \<union> live_vm_ids (example_agent_host\<lparr>ow_disks := d\<rparr>) = {''v''}" for d
    by (simp add: live_vm_ids_def example_agent_host_def example_local_row_def)
  have sweep: "snd (sweep_orphans t as cfg unit_out order dir_names known w) =
     (case collect (\<lambda>k. agent_delete_vm t (as 0 k) cfg) known None (map_option list_all_unit_vm_ids (unit_out w)) w of (n1, w1) \<Rightarrow>
     (case collect (\<lambda>k. reclaim_lvs t (as 1 k) cfg) known (Some ORPHAN_LV_BATCH)
        (map_option order (list_managed_vm_ids t (ag_rootfs cfg) (map backend_of (ag_pools cfg)) (dw_hw (ow_disks w1)))) w1 of (n2, w2) \<Rightarrow>
      snd (collect (\<lambda>k. reclaim_dir (as 2 k) cfg) known None (dir_names w2) w2)))"
    for t :: "'a lvm_tools" and as cfg unit_out order dir_names known w
    by (simp add: sweep_orphans_def split: prod.splits)
  show ?thesis unfolding periodic_sweep_def known sweep Let_def by code_simp
qed

end
