(* ===== verification/Agent_Rollback.thy ===== *)
theory Agent_Rollback
  imports Agent_Vm
begin

text \<open>
  What a failed create leaves on a host (\<open>create_vm\<close> in \<open>basis-agent/src/handlers.rs\<close>).  Each
  stage of the create keeps a relation to the host before it, \<open>vm_partial\<close>; the rollback takes a host
  in that relation back.  The theory has no code of its own: the operations are those of \<open>Agent_Vm\<close>.
\<close>

subsection \<open>The disks of a create\<close>

text \<open>The volumes an image may have in the root volume group; the cache keeps them.\<close>

definition image_volume :: "agent_cfg \<Rightarrow> string \<Rightarrow> string \<Rightarrow> bool" where
  "image_volume cfg v n \<longleftrightarrow> v = rf_vg (ag_rootfs cfg) \<and> take (length IMAGE_LV_PREFIX) n = IMAGE_LV_PREFIX"

text \<open>
  Between \<open>d0\<close> and \<open>d\<close> only the machine's own rows, the volumes they name, its root volume and image
  volumes differ.
\<close>

definition disks_partial :: "('h \<Rightarrow> string \<Rightarrow> string set) \<Rightarrow> agent_cfg \<Rightarrow> string \<Rightarrow> 'h disk_world \<Rightarrow> 'h disk_world \<Rightarrow> bool" where
  "disks_partial lvs cfg vmid d0 d \<longleftrightarrow> ledger_ok (dw_rows d) \<and>
     (\<forall>q. lr_vm_id q \<noteq> vmid \<longrightarrow> (q \<in> set (dw_rows d)) = (q \<in> set (dw_rows d0))) \<and>
     (\<forall>q \<in> set (dw_rows d). lr_vm_id q = vmid \<longrightarrow> lr_pool q \<in> xp_name ` set (ag_pools cfg)) \<and>
     (\<forall>v n. (\<forall>q \<in> set (dw_rows d). \<not> (lr_vm_id q = vmid \<and> lr_vg q = v \<and> lr_lv_name q = n)) \<longrightarrow>
        \<not> image_volume cfg v n \<longrightarrow> (v, n) \<noteq> (rf_vg (ag_rootfs cfg), VM_LV_PREFIX @ vmid) \<longrightarrow> (n \<in> lvs (dw_hw d) v) = (n \<in> lvs (dw_hw d0) v))"

lemma disks_partialD:
  assumes "disks_partial lvs cfg vmid d0 d"
  shows "ledger_ok (dw_rows d)" "lr_vm_id q \<noteq> vmid \<Longrightarrow> (q \<in> set (dw_rows d)) = (q \<in> set (dw_rows d0))"
    "q \<in> set (dw_rows d) \<Longrightarrow> lr_vm_id q = vmid \<Longrightarrow> lr_pool q \<in> xp_name ` set (ag_pools cfg)"
    "(\<And>q. q \<in> set (dw_rows d) \<Longrightarrow> \<not> (lr_vm_id q = vmid \<and> lr_vg q = v \<and> lr_lv_name q = n)) \<Longrightarrow> \<not> image_volume cfg v n \<Longrightarrow>
      (v, n) \<noteq> (rf_vg (ag_rootfs cfg), VM_LV_PREFIX @ vmid) \<Longrightarrow> (n \<in> lvs (dw_hw d) v) = (n \<in> lvs (dw_hw d0) v)"
  using assms unfolding disks_partial_def by blast+

lemma disks_partial_hw:
  assumes "disks_partial lvs cfg vmid d0 d"
    and "\<And>v n. \<not> image_volume cfg v n \<Longrightarrow> (v, n) \<noteq> (rf_vg (ag_rootfs cfg), VM_LV_PREFIX @ vmid) \<Longrightarrow> (n \<in> lvs h v) = (n \<in> lvs (dw_hw d) v)"
  shows "disks_partial lvs cfg vmid d0 (d\<lparr>dw_hw := h\<rparr>)"
  using assms unfolding disks_partial_def by simp

lemma reserve_cases:
  assumes t: "lvm_spec t lvs" and e: "reserve t permit b req w = (res, w')" and n: "\<forall>q \<in> set (dw_rows w). lr_assignment_id q \<noteq> ar_assignment_id req"
  obtains (refused) "w' = w" "\<not> is_ok res"
    | (reserved) vg st where "dw_rows w' = dw_rows w @ [(new_reservation b vg req)\<lparr>lr_state := st\<rparr>]" "is_ok res \<Longrightarrow> st = ''Ready''"
      "\<And>v n. (v, n) \<noteq> (vg, lv_name (ar_vm_id req) (ar_disk_index req)) \<Longrightarrow> (n \<in> lvs (dw_hw w') v) = (n \<in> lvs (dw_hw w) v)"
proof -
  have "w' = w \<and> \<not> is_ok res \<or> (\<exists>vg. make_volume t permit b vg req (w\<lparr>dw_rows := dw_rows w @ [new_reservation b vg req]\<rparr>) = (res, w'))"
    using e by (auto simp: reserve_def insert_reservation_def split: if_splits option.splits)
  then show ?thesis
  proof (elim disjE exE)
    assume "w' = w \<and> \<not> is_ok res"
    then show ?thesis using refused by blast
  next
    fix vg assume m: "make_volume t permit b vg req (w\<lparr>dw_rows := dw_rows w @ [new_reservation b vg req]\<rparr>) = (res, w')"
    have new: "lr_assignment_id (new_reservation b vg req) = ar_assignment_id req" by (simp add: new_reservation_def)
    have self: "(new_reservation b vg req)\<lparr>lr_state := ''Creating''\<rparr> = new_reservation b vg req" by (simp add: new_reservation_def)
    show ?thesis
    proof (cases res)
      case (Inl er)
      show ?thesis by (rule reserved [of "''Creating''" vg]) (use make_volume_effect(1,2) [OF t m] Inl self in auto)
    next
      case (Inr al)
      show ?thesis
        by (rule reserved [of "''Ready''" vg]) (use make_volume_effect(1,2) [OF t m] Inr set_state_of_new [OF n new] in auto)
    qed
  qed
qed

lemma allocate_partial:
  assumes t: "lvm_spec t lvs" and d: "disks_partial lvs cfg vmid d0 d" and ready: "\<forall>q \<in> set (dw_rows d). lr_vm_id q = vmid \<longrightarrow> lr_state q = ''Ready''"
    and own: "\<forall>q \<in> set (dw_rows d). lr_assignment_id q = ar_assignment_id req \<longrightarrow> lr_vm_id q = vmid"
    and req: "ar_vm_id req = vmid" "vmid \<noteq> []" "ar_disk_index req \<le> u32_max" and p: "p \<in> set (ag_pools cfg)"
    and e: "allocate t permit (backend_of p) req d = (res, d')"
  shows "disks_partial lvs cfg vmid d0 d'" and "is_ok res \<Longrightarrow> q \<in> set (dw_rows d') \<Longrightarrow> lr_vm_id q = vmid \<Longrightarrow> lr_state q = ''Ready''"
    and "q \<in> set (dw_rows d') \<Longrightarrow> lr_vm_id q = vmid \<or> q \<in> set (dw_rows d)"
proof -
  have "disks_partial lvs cfg vmid d0 d' \<and> (is_ok res \<longrightarrow> (\<forall>q \<in> set (dw_rows d'). lr_vm_id q = vmid \<longrightarrow> lr_state q = ''Ready'')) \<and>
    (\<forall>q \<in> set (dw_rows d'). lr_vm_id q = vmid \<or> q \<in> set (dw_rows d))"
  proof (cases "\<exists>r \<in> set (dw_rows d). lr_assignment_id r = ar_assignment_id req")
    case True
    then obtain r where r: "r \<in> set (dw_rows d)" "lr_assignment_id r = ar_assignment_id req" by blast
    then have "d' = d" using allocate_again [OF disks_partialD(1) [OF d] r] own ready e by auto
    then show ?thesis using d ready by blast
  next
    case False
    then have n: "\<forall>q \<in> set (dw_rows d). lr_assignment_id q \<noteq> ar_assignment_id req" by blast
    then have "lookup_assignment (ar_assignment_id req) (dw_rows d) = None" by (simp add: lookup_assignment_def find_None_iff)
    then have r: "reserve t permit (backend_of p) req d = (res, d')" using e by (simp add: allocate_def)
    have l: "ledger_ok (dw_rows d')" using allocate_frame(3) [OF t e disks_partialD(1) [OF d]] req by simp
    show ?thesis
    proof (cases rule: reserve_cases [OF t r n])
      case 1
      then show ?thesis using d ready by simp
    next
      case (2 vg st)
      let ?r = "(new_reservation (backend_of p) vg req)\<lparr>lr_state := st\<rparr>"
      have new: "lr_vm_id ?r = vmid" "lr_pool ?r \<in> xp_name ` set (ag_pools cfg)" "lr_vg ?r = vg" "lr_lv_name ?r = lv_name (ar_vm_id req) (ar_disk_index req)"
        using p req by (auto simp: new_reservation_def backend_of_def)
      have "(m \<in> lvs (dw_hw d') v) = (m \<in> lvs (dw_hw d0) v)"
        if "\<forall>q \<in> set (dw_rows d'). \<not> (lr_vm_id q = vmid \<and> lr_vg q = v \<and> lr_lv_name q = m)" "\<not> image_volume cfg v m"
          "(v, m) \<noteq> (rf_vg (ag_rootfs cfg), VM_LV_PREFIX @ vmid)" for v m
        using that 2(1) new 2(3) [of v m] disks_partialD(4) [OF d _ that(2,3)] by auto
      then show ?thesis using l 2(1,2) new(1,2) ready disks_partialD(2,3) [OF d] unfolding disks_partial_def by auto
    qed
  qed
  then show "disks_partial lvs cfg vmid d0 d'" and "is_ok res \<Longrightarrow> q \<in> set (dw_rows d') \<Longrightarrow> lr_vm_id q = vmid \<Longrightarrow> lr_state q = ''Ready''"
    and "q \<in> set (dw_rows d') \<Longrightarrow> lr_vm_id q = vmid \<or> q \<in> set (dw_rows d)" by blast+
qed

lemma allocate_disks_partial:
  assumes t: "lvm_spec t lvs" and v: "vmid \<noteq> []"
  shows "disks_partial lvs cfg vmid d0 (ow_disks w) \<Longrightarrow> \<forall>q \<in> set (rows_of w). lr_vm_id q = vmid \<longrightarrow> lr_state q = ''Ready'' \<Longrightarrow>
    \<forall>x \<in> set ds. cd_disk_index x \<le> u32_max \<and> (\<forall>q \<in> set (rows_of w). lr_assignment_id q = cd_assignment_id x \<longrightarrow> lr_vm_id q = vmid) \<Longrightarrow>
    allocate_disks t a cfg vmid k ds w = (res, w') \<Longrightarrow>
    \<exists>d sent. w' = w\<lparr>ow_disks := d, ow_sent := sent\<rparr> \<and> disks_partial lvs cfg vmid d0 d"
proof (induction ds arbitrary: k w res)
  case Nil
  then show ?case by (intro exI [of _ "ow_disks w"] exI [of _ "ow_sent w"]) simp
next
  case (Cons x ds)
  show ?case
  proof (cases "pool_named cfg (cd_pool x)")
    case None
    then show ?thesis using Cons.prems by (intro exI [of _ "ow_disks w"] exI [of _ "ow_sent w"]) simp
  next
    case (Some p)
    then have p: "p \<in> set (ag_pools cfg)" by (auto simp: pool_named_def find_Some_iff)
    obtain r1 d1 where al: "allocate t (an_disk_permit a k) (backend_of p) (allocation_request vmid x) (ow_disks w) = (r1, d1)"
      by (metis prod.exhaust)
    have req: "ar_vm_id (allocation_request vmid x) = vmid" "ar_disk_index (allocation_request vmid x) \<le> u32_max"
      "\<forall>q \<in> set (rows_of w). lr_assignment_id q = ar_assignment_id (allocation_request vmid x) \<longrightarrow> lr_vm_id q = vmid"
      using Cons.prems(3) by (simp_all add: allocation_request_def)
    note p1 = allocate_partial [OF t Cons.prems(1,2) req(3,1) v req(2) p al]
    show ?thesis
    proof (cases r1)
      case (Inl e)
      then have "w' = w\<lparr>ow_disks := d1, ow_sent := ow_sent w\<rparr>" using Cons.prems(4) Some al by auto
      then show ?thesis using p1(1) by blast
    next
      case (Inr alloc)
      let ?w = "w\<lparr>ow_disks := d1, ow_sent := ow_sent w @ [disk_report vmid x alloc]\<rparr>"
      obtain r2 where r2: "allocate_disks t a cfg vmid (Suc k) ds ?w = (r2, w')"
        using Cons.prems(4) Some al Inr by (auto split: sum.splits prod.splits)
      have "\<forall>y \<in> set ds. cd_disk_index y \<le> u32_max \<and> (\<forall>q \<in> set (rows_of ?w). lr_assignment_id q = cd_assignment_id y \<longrightarrow> lr_vm_id q = vmid)"
        using Cons.prems(3) p1(3) by auto
      then have "\<exists>d sent. w' = ?w\<lparr>ow_disks := d, ow_sent := sent\<rparr> \<and> disks_partial lvs cfg vmid d0 d"
        by (intro Cons.IH [OF _ _ _ r2]) (use p1(1,2) Inr in auto)
      then show ?thesis by simp
    qed
  qed
qed

lemma create_vm_rootfs_effect:
  assumes t: "lvm_spec t lvs" and e: "create_vm_rootfs t permit c x img n h = (res, h')" and ne: "(v, m) \<noteq> (rf_vg c, VM_LV_PREFIX @ x)"
  shows "(m \<in> lvs h' v) = (m \<in> lvs h v)"
  using e ne by (auto simp: create_vm_rootfs_def lvextend_def Let_def lvm_specD(3,5,6) [OF t] split: if_splits option.splits sum.splits)

subsection \<open>The host of a create\<close>

text \<open>
  Between \<open>w0\<close> and \<open>w\<close> a create has only added: the machine's directory, its tap, its row, its
  devices once the row is there, and its disks.
\<close>

definition vm_partial :: "('h \<Rightarrow> string \<Rightarrow> string set) \<Rightarrow> agent_cfg \<Rightarrow> CreateVmCommand \<Rightarrow> 'h host \<Rightarrow> 'h host \<Rightarrow> bool" where
  "vm_partial lvs cfg cmd w0 w \<longleftrightarrow> ow_tracked w = ow_tracked w0 \<and> ow_units w = ow_units w0 \<and> ow_pending w = ow_pending w0 \<and>
     ow_dirs w - {vm_dir cfg (cc_vm_id cmd)} = ow_dirs w0 \<and> ow_taps w - {ag_tap_name cfg (cc_vm_id cmd)} = ow_taps w0 \<and>
     agent_delete_vm_row (cc_vm_id cmd) (ow_vms w) = ow_vms w0 \<and>
     (case get_local_vm (cc_vm_id cmd) (ow_vms w) of
        None \<Rightarrow> ow_vfio w = ow_vfio w0
      | Some r \<Rightarrow> lm_gpu_pci_addresses r = cc_gpu_pci_addresses cmd \<and> ow_vfio w - set (cc_gpu_pci_addresses cmd) = ow_vfio w0) \<and>
     disks_partial lvs cfg (cc_vm_id cmd) (ow_disks w0) (ow_disks w)"

lemma bind_gpus_effect:
  "bind_gpus a ps w = (res, w') \<Longrightarrow> \<exists>V. w' = w\<lparr>ow_vfio := V\<rparr> \<and> V - set ps = ow_vfio w - set ps"
proof (induction ps arbitrary: w res)
  case Nil
  then show ?case by (intro exI [of _ "ow_vfio w"]) simp
next
  case (Cons p ps)
  define W where "W = (if an_bound a p then insert p (ow_vfio w) else ow_vfio w)"
  have w1: "(if an_bound a p then w\<lparr>ow_vfio := insert p (ow_vfio w)\<rparr> else w) = w\<lparr>ow_vfio := W\<rparr>" by (simp add: W_def)
  have W: "W - set (p # ps) = ow_vfio w - set (p # ps)" by (auto simp: W_def)
  show ?case
  proof (cases "an_bind a p")
    case None
    then have "w' = w\<lparr>ow_vfio := W\<rparr>" using Cons.prems by (simp add: w1)
    then show ?thesis using W by blast
  next
    case (Some path)
    obtain r2 where r2: "bind_gpus a ps (w\<lparr>ow_vfio := W\<rparr>) = (r2, w')"
      using Cons.prems Some by (auto simp: w1 split: sum.splits prod.splits)
    obtain V where "w' = w\<lparr>ow_vfio := V\<rparr>" "V - set ps = W - set ps" using Cons.IH [OF r2] by auto
    then show ?thesis using W by (intro exI [of _ V]) auto
  qed
qed

lemma attach_effect:
  assumes "attach_vm_primary a cfg x w = (res, w')"
  shows "\<exists>T. w' = w\<lparr>ow_taps := T\<rparr> \<and> T - {ag_tap_name cfg x} = ow_taps w - {ag_tap_name cfg x}"
proof -
  have "w' = w\<lparr>ow_taps := ow_taps w\<rparr> \<or> w' = w\<lparr>ow_taps := insert (ag_tap_name cfg x) (ow_taps w)\<rparr>"
    using assms by (auto simp: attach_vm_primary_def Let_def split: if_splits)
  then show ?thesis by blast
qed

lemma mgr_create_error:
  assumes "vm_mgr_create a cfg cmd bo tap vfio w = (Inl e, w')"
  shows "\<exists>D. w' = w\<lparr>ow_dirs := D\<rparr> \<and> D - {vm_dir cfg (cc_vm_id cmd)} = ow_dirs w - {vm_dir cfg (cc_vm_id cmd)}"
proof -
  have "w' = w\<lparr>ow_dirs := ow_dirs w\<rparr> \<or> w' = w\<lparr>ow_dirs := insert (vm_dir cfg (cc_vm_id cmd)) (ow_dirs w)\<rparr>"
    using assms by (auto simp: vm_mgr_create_def Let_def split: if_splits)
  then show ?thesis by blast
qed

lemma vm_partial_dirs:
  "vm_partial lvs cfg cmd w0 w \<Longrightarrow> D - {vm_dir cfg (cc_vm_id cmd)} = ow_dirs w - {vm_dir cfg (cc_vm_id cmd)} \<Longrightarrow> vm_partial lvs cfg cmd w0 (w\<lparr>ow_dirs := D\<rparr>)"
  by (simp add: vm_partial_def split: option.splits)

lemma vm_partial_taps:
  "vm_partial lvs cfg cmd w0 w \<Longrightarrow> T - {ag_tap_name cfg (cc_vm_id cmd)} = ow_taps w - {ag_tap_name cfg (cc_vm_id cmd)} \<Longrightarrow>
   vm_partial lvs cfg cmd w0 (w\<lparr>ow_taps := T\<rparr>)"
  by (simp add: vm_partial_def split: option.splits)

lemma vm_partial_vfio:
  "vm_partial lvs cfg cmd w0 w \<Longrightarrow> get_local_vm (cc_vm_id cmd) (ow_vms w) = Some r \<Longrightarrow>
   V - set (cc_gpu_pci_addresses cmd) = ow_vfio w - set (cc_gpu_pci_addresses cmd) \<Longrightarrow> vm_partial lvs cfg cmd w0 (w\<lparr>ow_vfio := V\<rparr>)"
  by (simp add: vm_partial_def split: option.splits)

lemma vm_partial_disks:
  "vm_partial lvs cfg cmd w0 w \<Longrightarrow> disks_partial lvs cfg (cc_vm_id cmd) (ow_disks w0) d \<Longrightarrow> vm_partial lvs cfg cmd w0 (w\<lparr>ow_disks := d, ow_sent := s\<rparr>)"
  by (simp add: vm_partial_def split: option.splits)

lemma vm_partial_disksD: "vm_partial lvs cfg cmd w0 w \<Longrightarrow> disks_partial lvs cfg (cc_vm_id cmd) (ow_disks w0) (ow_disks w)"
  unfolding vm_partial_def by blast

lemma recorded_disks:
  "agent_delete_vm_row x (upd_rows (\<lambda>r. lm_vm_id r = x) (\<lambda>r. r\<lparr>lm_storage_disks := ls\<rparr>) rows) = agent_delete_vm_row x rows"
  "get_local_vm x (upd_rows (\<lambda>r. lm_vm_id r = x) (\<lambda>r. r\<lparr>lm_storage_disks := ls\<rparr>) rows) =
   map_option (\<lambda>r. r\<lparr>lm_storage_disks := ls\<rparr>) (get_local_vm x rows)"
  by (induction rows) (simp_all add: agent_delete_vm_row_def get_local_vm_def upd_rows_def del_rows_def)

lemma vm_partial_record:
  "vm_partial lvs cfg cmd w0 w \<Longrightarrow>
   vm_partial lvs cfg cmd w0 (w\<lparr>ow_vms := upd_rows (\<lambda>r. lm_vm_id r = cc_vm_id cmd) (\<lambda>r. r\<lparr>lm_storage_disks := ls\<rparr>) (ow_vms w)\<rparr>)"
  by (auto simp: vm_partial_def recorded_disks split: option.splits)

lemma boot_vm_partial:
  assumes p: "vm_partial lvs cfg cmd w0 w" and r: "get_local_vm (cc_vm_id cmd) (ow_vms w) = Some r" and e: "boot_vm a cfg cmd im rootfs ls w = (Inl er, w')"
  shows "vm_partial lvs cfg cmd w0 w'"
proof -
  define w1 where "w1 = w\<lparr>ow_vms := upd_rows (\<lambda>r. lm_vm_id r = cc_vm_id cmd) (\<lambda>r. r\<lparr>lm_storage_disks := ls\<rparr>) (ow_vms w)\<rparr>"
  have p1: "vm_partial lvs cfg cmd w0 w1" unfolding w1_def by (rule vm_partial_record [OF p])
  obtain r1 where g1: "get_local_vm (cc_vm_id cmd) (ow_vms w1) = Some r1" using r by (simp add: w1_def recorded_disks)
  obtain a2 w2 where a2: "attach_vm_primary a cfg (cc_vm_id cmd) w1 = (a2, w2)" by (metis prod.exhaust)
  obtain T where T: "w2 = w1\<lparr>ow_taps := T\<rparr>" "T - {ag_tap_name cfg (cc_vm_id cmd)} = ow_taps w1 - {ag_tap_name cfg (cc_vm_id cmd)}"
    using attach_effect [OF a2] by blast
  have p2: "vm_partial lvs cfg cmd w0 w2" unfolding T(1) by (rule vm_partial_taps [OF p1 T(2)])
  have g2: "get_local_vm (cc_vm_id cmd) (ow_vms w2) = Some r1" using g1 T(1) by simp
  obtain a3 w3 where a3: "bind_gpus a (cc_gpu_pci_addresses cmd) w2 = (a3, w3)" by (metis prod.exhaust)
  obtain V where V: "w3 = w2\<lparr>ow_vfio := V\<rparr>" "V - set (cc_gpu_pci_addresses cmd) = ow_vfio w2 - set (cc_gpu_pci_addresses cmd)"
    using bind_gpus_effect [OF a3] by blast
  have p3: "vm_partial lvs cfg cmd w0 w3" unfolding V(1) by (rule vm_partial_vfio [OF p2 g2 V(2)])
  have p4: "vm_partial lvs cfg cmd w0 x" if "vm_mgr_create a cfg cmd bo tap vfio w3 = (Inl er, x)" for bo tap vfio x
    using mgr_create_error [OF that] vm_partial_dirs [OF p3] by blast
  have "w' = w \<or> w' = w1 \<or> w' = w2 \<or> w' = w3 \<or> (\<exists>bo tap vfio. vm_mgr_create a cfg cmd bo tap vfio w3 = (Inl er, w'))"
    using e a2 a3 by (auto simp: boot_vm_def Let_def w1_def [symmetric] split: if_splits sum.splits)
  then show ?thesis using p p1 p2 p3 p4 by blast
qed

subsection \<open>From the command to the failure\<close>

text \<open>A machine the host has nothing of: no row, unit, directory, tap, device, reservation or volume.\<close>

definition fresh_vm :: "('h \<Rightarrow> string \<Rightarrow> string set) \<Rightarrow> agent_cfg \<Rightarrow> CreateVmCommand \<Rightarrow> 'h host \<Rightarrow> bool" where
  "fresh_vm lvs cfg cmd w \<longleftrightarrow> cc_vm_id cmd \<noteq> [] \<and> cc_vm_id cmd \<notin> lm_vm_id ` set (ow_vms w) \<and> ow_tracked w (cc_vm_id cmd) = None \<and>
     ow_units w (unit_name_for_vm (cc_vm_id cmd)) = None \<and> vm_dir cfg (cc_vm_id cmd) \<notin> ow_dirs w \<and>
     ag_tap_name cfg (cc_vm_id cmd) \<notin> ow_taps w \<and> set (cc_gpu_pci_addresses cmd) \<inter> ow_vfio w = {} \<and>
     (\<forall>q \<in> set (rows_of w). lr_vm_id q \<noteq> cc_vm_id cmd) \<and>
     (\<forall>x \<in> set (cc_storage_disks cmd). cd_disk_index x \<le> u32_max \<and> (\<forall>q \<in> set (rows_of w). lr_assignment_id q \<noteq> cd_assignment_id x)) \<and>
     VM_LV_PREFIX @ cc_vm_id cmd \<notin> vols_of lvs w (rf_vg (ag_rootfs cfg)) \<and> (\<forall>v i. lv_name (cc_vm_id cmd) i \<notin> vols_of lvs w v)"

text \<open>The image cache touches only image volumes.\<close>

definition image_frame :: "('h \<Rightarrow> string \<Rightarrow> string set) \<Rightarrow> agent_cfg \<Rightarrow> ('h \<Rightarrow> CachedImage option \<times> 'h) \<Rightarrow> bool" where
  "image_frame lvs cfg f \<longleftrightarrow> (\<forall>h v n. \<not> image_volume cfg v n \<longrightarrow> (n \<in> lvs (snd (f h)) v) = (n \<in> lvs h v))"

lemma fresh_no_row:
  assumes "fresh_vm lvs cfg cmd w"
  shows "\<forall>r \<in> set (ow_vms w). lm_vm_id r \<noteq> cc_vm_id cmd"
proof -
  have "cc_vm_id cmd \<notin> lm_vm_id ` set (ow_vms w)" using assms unfolding fresh_vm_def by (elim conjE)
  then show ?thesis by (metis imageI)
qed

lemma fresh_partial:
  assumes "host_ok t lvs cfg w" "fresh_vm lvs cfg cmd w"
  shows "vm_partial lvs cfg cmd w w"
proof -
  have "agent_delete_vm_row (cc_vm_id cmd) (ow_vms w) = ow_vms w" "get_local_vm (cc_vm_id cmd) (ow_vms w) = None"
    using fresh_no_row [OF assms(2)] by (simp_all add: agent_delete_vm_row_def del_rows_def get_local_vm_def find_None_iff filter_id_conv)
  moreover have "disks_partial lvs cfg (cc_vm_id cmd) (ow_disks w) (ow_disks w)"
    using assms by (simp add: disks_partial_def fresh_vm_def host_ok_def)
  ultimately show ?thesis using assms(2) by (simp add: vm_partial_def fresh_vm_def)
qed

lemma get_added_row:
  "\<forall>q \<in> set rows. lm_vm_id q \<noteq> lm_vm_id r \<Longrightarrow> get_local_vm (lm_vm_id r) (rows @ [r]) = Some r"
  "\<forall>q \<in> set rows. lm_vm_id q \<noteq> lm_vm_id r \<Longrightarrow> agent_delete_vm_row (lm_vm_id r) (rows @ [r]) = rows"
  "\<forall>q \<in> set rows. lm_vm_id q \<noteq> lm_vm_id r \<Longrightarrow> agent_insert_vm r rows = Some (rows @ [r])"
  by (induction rows) (auto simp: get_local_vm_def agent_delete_vm_row_def del_rows_def agent_insert_vm_def)

lemma provision_vm_partial:
  assumes t: "lvm_spec t lvs" and f: "fresh_vm lvs cfg cmd w0" and p: "vm_partial lvs cfg cmd w0 w" and rows: "rows_of w = rows_of w0"
    and r: "get_local_vm (cc_vm_id cmd) (ow_vms w) = Some r" and e: "provision_vm t a cfg cmd im w = (Inl er, w')"
  shows "vm_partial lvs cfg cmd w0 w'"
proof -
  obtain a1 h where a1: "create_vm_rootfs t (an_rootfs_permit a) (ag_rootfs cfg) (cc_vm_id cmd) (im_image_hash im) (cc_disk_gib cmd) (dw_hw (ow_disks w)) = (a1, h)"
    by (metis prod.exhaust)
  define w1 where "w1 = w\<lparr>ow_disks := (ow_disks w)\<lparr>dw_hw := h\<rparr>\<rparr>"
  have d1: "disks_partial lvs cfg (cc_vm_id cmd) (ow_disks w0) (ow_disks w1)"
    using disks_partial_hw [OF vm_partial_disksD [OF p], of h] create_vm_rootfs_effect [OF t a1] by (simp add: w1_def)
  have p1: "vm_partial lvs cfg cmd w0 w1"
    using vm_partial_disks [OF p d1, of "ow_sent w"] by (simp add: w1_def)
  obtain a2 w2 where a2: "allocate_disks t a cfg (cc_vm_id cmd) 0 (cc_storage_disks cmd) w1 = (a2, w2)" by (metis prod.exhaust)
  have "\<exists>d sent. w2 = w1\<lparr>ow_disks := d, ow_sent := sent\<rparr> \<and> disks_partial lvs cfg (cc_vm_id cmd) (ow_disks w0) d"
    by (rule allocate_disks_partial [OF t _ d1 _ _ a2]) (use f rows in \<open>auto simp: w1_def fresh_vm_def\<close>)
  then obtain d sent where w2: "w2 = w1\<lparr>ow_disks := d, ow_sent := sent\<rparr>" "disks_partial lvs cfg (cc_vm_id cmd) (ow_disks w0) d" by blast
  have p2: "vm_partial lvs cfg cmd w0 w2" unfolding w2(1) by (rule vm_partial_disks [OF p1 w2(2)])
  have "get_local_vm (cc_vm_id cmd) (ow_vms w2) = Some r" using r by (simp add: w2(1) w1_def)
  then have "boot_vm a cfg cmd im rootfs ls w2 = (Inl er, w') \<Longrightarrow> vm_partial lvs cfg cmd w0 w'" for rootfs ls
    using boot_vm_partial [OF p2] by blast
  then show ?thesis using e a1 a2 p1 p2 by (auto simp: provision_vm_def w1_def [symmetric] split: sum.splits)
qed

lemma create_vm_inner_partial:
  assumes ok: "host_ok t lvs cfg w" and f: "fresh_vm lvs cfg cmd w" and i: "image_frame lvs cfg (an_image a)"
    and e: "create_vm_inner t a cfg now cmd w = (Inl er, w')"
  shows "vm_partial lvs cfg cmd w w'"
proof -
  have t: "lvm_spec t lvs" using ok by (simp add: host_ok_def)
  have p0: "vm_partial lvs cfg cmd w w" by (rule fresh_partial [OF ok f])
  define w1 where "w1 = w\<lparr>ow_dirs := insert (vm_dir cfg (cc_vm_id cmd)) (ow_dirs w)\<rparr>"
  have p1: "vm_partial lvs cfg cmd w w1" unfolding w1_def by (rule vm_partial_dirs [OF p0]) simp
  obtain im h where im: "an_image a (dw_hw (ow_disks w)) = (im, h)" by (metis prod.exhaust)
  define w2 where "w2 = w1\<lparr>ow_disks := (ow_disks w)\<lparr>dw_hw := h\<rparr>\<rparr>"
  have d2: "disks_partial lvs cfg (cc_vm_id cmd) (ow_disks w) (ow_disks w2)"
    using disks_partial_hw [OF vm_partial_disksD [OF p0], of h] i im by (simp add: w2_def image_frame_def) (metis snd_conv)
  have p2: "vm_partial lvs cfg cmd w w2" using vm_partial_disks [OF p1 d2, of "ow_sent w1"] by (simp add: w2_def w1_def)
  note nr = fresh_no_row [OF f]
  have id: "lm_vm_id (local_row cmd now) = cc_vm_id cmd" by (simp add: local_row_def)
  note row = get_added_row [where r = "local_row cmd now", unfolded id, OF nr]
  have ins: "agent_insert_vm (local_row cmd now) (ow_vms w2) = Some (ow_vms w @ [local_row cmd now])"
    using row(3) by (simp add: w2_def w1_def)
  define w3 where "w3 = w2\<lparr>ow_vms := ow_vms w @ [local_row cmd now]\<rparr>"
  have "ow_vfio w - set (cc_gpu_pci_addresses cmd) = ow_vfio w" using f by (auto simp: fresh_vm_def)
  then have p3: "vm_partial lvs cfg cmd w w3"
    using p2 row(1,2) by (simp add: vm_partial_def w3_def w2_def w1_def) (simp add: local_row_def)
  have "provision_vm t a cfg cmd x w3 = (Inl er, w') \<Longrightarrow> vm_partial lvs cfg cmd w w'" for x
    by (rule provision_vm_partial [OF t f p3]) (simp_all add: w3_def w2_def w1_def row(1))
  moreover have "ow_disks w1 = ow_disks w" by (simp add: w1_def)
  ultimately show ?thesis
    using e p0 p1 p2 im ins
    by (auto simp: create_vm_inner_def Let_def w1_def [symmetric] w2_def [symmetric] w3_def [symmetric] split: if_splits option.splits sum.splits)
qed

subsection \<open>The rollback\<close>

text \<open>A host on which the delete meets no obstacle.\<close>

definition tools_answer :: "'h lvm_tools \<Rightarrow> bool" where
  "tools_answer t \<longleftrightarrow> (\<forall>h v n. lv_attr t h v n \<noteq> None \<and> lv_remove t v n h \<noteq> None)"

definition rollback_answers :: "'h answers \<Rightarrow> bool" where
  "rollback_answers a \<longleftrightarrow> an_get a \<and> an_stop a \<and> an_rmdir a \<and> an_detach a \<and> (\<forall>p. an_unbind a p) \<and>
     an_remove_permit a \<and> an_release_permit a \<and> an_delete a"

text \<open>The host is as it was, image volumes apart.\<close>

definition host_restored :: "('h \<Rightarrow> string \<Rightarrow> string set) \<Rightarrow> agent_cfg \<Rightarrow> 'h host \<Rightarrow> 'h host \<Rightarrow> bool" where
  "host_restored lvs cfg w w' \<longleftrightarrow> ow_vms w' = ow_vms w \<and> ow_tracked w' = ow_tracked w \<and> ow_pending w' = ow_pending w \<and> ow_units w' = ow_units w \<and>
     ow_dirs w' = ow_dirs w \<and> ow_taps w' = ow_taps w \<and> ow_vfio w' = ow_vfio w \<and> set (rows_of w') = set (rows_of w) \<and>
     (\<forall>v n. \<not> image_volume cfg v n \<longrightarrow> (n \<in> vols_of lvs w' v) = (n \<in> vols_of lvs w v))"

lemma remove_vm_rootfs_answers: "tools_answer t \<Longrightarrow> \<exists>h'. remove_vm_rootfs t True c x h = (Inr (), h')"
proof -
  assume t: "tools_answer t"
  obtain st where "lv_attr t h (rf_vg c) (VM_LV_PREFIX @ x) = Some st" using t unfolding tools_answer_def by blast
  moreover obtain h1 where "lv_remove t (rf_vg c) (VM_LV_PREFIX @ x) h = Some h1" using t unfolding tools_answer_def by blast
  ultimately show ?thesis by (cases st) (simp_all add: remove_vm_rootfs_def Let_def)
qed

lemma release_rows_answers: "tools_answer t \<Longrightarrow> \<exists>w'. release_rows t rs w = (Inr (), w')"
  by (induction rs arbitrary: w) (auto simp: tools_answer_def split: option.splits)

lemma release_vm_disks_answers: "tools_answer t \<Longrightarrow> \<exists>w'. release_vm_disks t True bs x w = (Inr (), w')"
proof (induction bs arbitrary: w)
  case (Cons b bs)
  obtain w1 where "release t True b x w = (Inr (), w1)"
    using release_rows_answers [OF Cons.prems] by (fastforce simp: release_def Let_def)
  then show ?case using Cons by simp
qed simp

lemma reclaim_lvs_answers:
  assumes "tools_answer t" "rollback_answers a"
  shows "\<exists>w'. reclaim_lvs t a cfg x w = (Inr (), w')"
proof -
  obtain h where "remove_vm_rootfs t True (ag_rootfs cfg) x (dw_hw (ow_disks w)) = (Inr (), h)"
    using remove_vm_rootfs_answers [OF assms(1)] by blast
  moreover obtain d where "release_vm_disks t True (map backend_of (ag_pools cfg)) x ((ow_disks w)\<lparr>dw_hw := h\<rparr>) = (Inr (), d)"
    using release_vm_disks_answers [OF assms(1)] by blast
  moreover have "an_remove_permit a" "an_release_permit a" using assms(2) by (simp_all add: rollback_answers_def)
  ultimately show ?thesis by (simp add: reclaim_lvs_def)
qed

lemma reclaim_partial:
  assumes ok: "host_ok t lvs cfg w" and f: "fresh_vm lvs cfg cmd w0" and p: "disks_partial lvs cfg (cc_vm_id cmd) (ow_disks w0) (ow_disks w)"
    and e: "reclaim_lvs t a cfg (cc_vm_id cmd) w = (Inr u, w')"
  shows "(q \<in> set (rows_of w')) = (q \<in> set (rows_of w0))" and "\<not> image_volume cfg v n \<Longrightarrow> (n \<in> vols_of lvs w' v) = (n \<in> vols_of lvs w0 v)"
proof -
  let ?x = "cc_vm_id cmd" and ?root = "rf_vg (ag_rootfs cfg)"
  have gone: "vm_gone lvs cfg ?x w'" by (rule reclaim_lvs_gone [OF ok e])
  have cov: "covered lvs (ow_disks w) (ow_disks w')" by (rule reclaim_lvs_covered [OF ok e])
  have norow: "q \<notin> set (rows_of w0)" if "lr_vm_id q = ?x" for q using f that unfolding fresh_vm_def by blast
  have novol: "VM_LV_PREFIX @ ?x \<notin> vols_of lvs w0 ?root" "lv_name ?x i \<notin> vols_of lvs w0 v" for i v using f unfolding fresh_vm_def by blast+
  obtain h where eq: "\<And>v n. (v, n) \<noteq> (?root, VM_LV_PREFIX @ ?x) \<Longrightarrow> (n \<in> lvs h v) = (n \<in> vols_of lvs w v)"
    and rel: "released lvs ?x ((ow_disks w)\<lparr>dw_hw := h\<rparr>) (ow_disks w')"
    using reclaim_lvs_disks [OF ok e] by metis
  have rows: "(q \<in> set (rows_of w')) = (q \<in> set (rows_of w0))" if "lr_vm_id q \<noteq> ?x" for q
    using releasedD(2) [OF rel that] disks_partialD(2) [OF p that] by simp
  have own: "q \<notin> set (rows_of w')" if q: "lr_vm_id q = ?x" for q
  proof
    assume m: "q \<in> set (rows_of w')"
    then obtain r where "r \<in> set (rows_of w)" "q = r\<lparr>lr_state := lr_state q\<rparr>" using releasedD(3) [OF rel] by auto
    then have "lr_pool q \<in> xp_name ` set (ag_pools cfg)" using disks_partialD(3) [OF p] same_but_state [of q r] q by metis
    then show False using gone m q unfolding vm_gone_def by blast
  qed
  show "(q \<in> set (rows_of w')) = (q \<in> set (rows_of w0))" using rows own norow by (cases "lr_vm_id q = ?x") auto
  show "(n \<in> vols_of lvs w' v) = (n \<in> vols_of lvs w0 v)" if i: "\<not> image_volume cfg v n"
  proof -
    consider (root) "(v, n) = (?root, VM_LV_PREFIX @ ?x)" | (data) r where "r \<in> set (rows_of w)" "lr_vm_id r = ?x" "lr_vg r = v" "lr_lv_name r = n"
      | (other) "(v, n) \<noteq> (?root, VM_LV_PREFIX @ ?x)" "\<And>r. r \<in> set (rows_of w) \<Longrightarrow> \<not> (lr_vm_id r = ?x \<and> lr_vg r = v \<and> lr_lv_name r = n)" by blast
    then show ?thesis
    proof cases
      case root
      then show ?thesis using gone novol(1) unfolding vm_gone_def by simp
    next
      case (data r)
      have "row_named r" using disks_partialD(1) [OF p] data(1) by (simp add: ledger_ok_def list_all_iff)
      then have "n \<notin> vols_of lvs w0 v" using novol(2) data by (auto simp: row_named_def)
      moreover have "n \<notin> vols_of lvs w' v"
      proof
        assume "n \<in> vols_of lvs w' v"
        then obtain q where "q \<in> set (rows_of w')" "q = r\<lparr>lr_state := lr_state q\<rparr>" using cov data unfolding covered_def by blast
        then show False using own same_but_state [of q r] data(2) by metis
      qed
      ultimately show ?thesis by blast
    next
      case other
      have "(n \<in> vols_of lvs w' v) = (n \<in> lvs h v)" using releasedD(4,5) [OF rel] other(2) by fastforce
      then show ?thesis using eq [OF other(1)] disks_partialD(4) [OF p other(2) i other(1)] by simp
    qed
  qed
qed

lemma stop_vm_partial:
  assumes ok: "host_ok t lvs cfg w" and f: "fresh_vm lvs cfg cmd w0" and p: "vm_partial lvs cfg cmd w0 w" and ra: "rollback_answers a"
  defines "s \<equiv> stop_vm a cfg (cc_vm_id cmd) w"
  shows "ow_units s = ow_units w0" "ow_tracked s = ow_tracked w0" "ow_dirs s = ow_dirs w0" "ow_taps s = ow_taps w0" "ow_vfio s = ow_vfio w0"
    "ow_pending s = ow_pending w0" "agent_delete_vm_row (cc_vm_id cmd) (ow_vms s) = ow_vms w0"
proof -
  have u: "ow_units w0 (unit_name_for_vm (cc_vm_id cmd)) = None" "ow_tracked w0 (cc_vm_id cmd) = None"
    using f unfolding fresh_vm_def by blast+
  have eq: "ow_units w = ow_units w0" "ow_tracked w = ow_tracked w0" "ow_pending w = ow_pending w0" "agent_delete_vm_row (cc_vm_id cmd) (ow_vms w) = ow_vms w0"
    "ow_dirs w - {vm_dir cfg (cc_vm_id cmd)} = ow_dirs w0" "ow_taps w - {ag_tap_name cfg (cc_vm_id cmd)} = ow_taps w0"
    using p unfolding vm_partial_def by blast+
  have a: "an_stop a" "an_rmdir a" "an_detach a" "an_get a" "\<And>q. an_unbind a q" using ra by (simp_all add: rollback_answers_def)
  show "ow_units s = ow_units w0" "ow_dirs s = ow_dirs w0"
    using stop_vm_units [OF ok, of a "cc_vm_id cmd"] a eq u by (simp_all add: s_def fun_upd_idem)
  show "ow_tracked s = ow_tracked w0" using eq u by (simp add: s_def fun_upd_idem)
  show "ow_pending s = ow_pending w0" "agent_delete_vm_row (cc_vm_id cmd) (ow_vms s) = ow_vms w0" using eq by (simp_all add: s_def)
  show "ow_taps s = ow_taps w0"
    using eq a by (simp add: s_def stop_vm_def detach_vm_taps_def unbind_gpus_def vm_mgr_delete_def Let_def split: option.splits)
  have "case get_local_vm (cc_vm_id cmd) (ow_vms w) of None \<Rightarrow> ow_vfio w = ow_vfio w0
      | Some r \<Rightarrow> lm_gpu_pci_addresses r = cc_gpu_pci_addresses cmd \<and> ow_vfio w - set (cc_gpu_pci_addresses cmd) = ow_vfio w0"
    using p unfolding vm_partial_def by blast
  then show "ow_vfio s = ow_vfio w0"
    using a by (simp add: s_def stop_vm_def detach_vm_taps_def unbind_gpus_def vm_mgr_delete_def Let_def split: option.splits)
qed

lemma delete_partial:
  assumes ok: "host_ok t lvs cfg w" and f: "fresh_vm lvs cfg cmd w0" and p: "vm_partial lvs cfg cmd w0 w" and ta: "tools_answer t"
    and ra: "rollback_answers a" and e: "agent_delete_vm t a cfg (cc_vm_id cmd) w = (r, w')"
  shows "host_restored lvs cfg w0 w'"
proof -
  define s where "s = stop_vm a cfg (cc_vm_id cmd) w"
  note st = stop_vm_partial [OF ok f p ra, folded s_def]
  have oks: "host_ok t lvs cfg s" unfolding s_def by (rule stop_vm_ok [OF ok])
  have ps: "disks_partial lvs cfg (cc_vm_id cmd) (ow_disks w0) (ow_disks s)" using vm_partial_disksD [OF p] by (simp add: s_def)
  obtain w1 where w1: "reclaim_lvs t a cfg (cc_vm_id cmd) s = (Inr (), w1)" using reclaim_lvs_answers [OF ta ra] by blast
  have "an_delete a" using ra by (simp add: rollback_answers_def)
  then have w': "w' = w1\<lparr>ow_vms := agent_delete_vm_row (cc_vm_id cmd) (ow_vms w1)\<rparr>"
    using e w1 unfolding agent_delete_vm_eq s_def [symmetric] by simp
  obtain d where d: "w1 = s\<lparr>ow_disks := d\<rparr>" using w1 by (auto simp: reclaim_lvs_def split: prod.splits sum.splits)
  note k = reclaim_partial [OF oks f ps w1]
  have rows: "set (rows_of w') = set (rows_of w0)" using k(1) unfolding w' by auto
  show ?thesis using st rows k(2) unfolding host_restored_def w' by (simp add: d)
qed

subsection \<open>Properties\<close>


definition example_create_cmd :: CreateVmCommand where
  "example_create_cmd = \<lparr>cc_vm_id = ''x'', cc_name = ''m'', cc_cpu = 2, cc_memory_mib = 1024, cc_disk_gib = 10, cc_image = ''img'',
     cc_ip_address = 1, cc_gateway = 2, cc_prefix_len = 24, cc_gpus = 1, cc_min_group_size = None, cc_dns_servers = [],
     cc_gpu_pci_addresses = [''0000:41:00.0''], cc_storage_disks = [\<lparr>cd_assignment_id = ''a9'', cd_min_size_gib = 5, cd_pool = ''bulk'',
       cd_device_id = ''sdb'', cd_disk_index = 0, cd_cluster_id = ''c'', cd_purpose = GenericData\<rparr>], cc_cluster_id = ''c'', cc_vni = 100\<rparr>"

lemma no_spawn_fails:
  assumes "\<not> an_spawn a"
  shows "\<exists>er w'. agent_create_vm t a a' cfg now cmd w = (Inl er, w')"
proof -
  have m: "\<exists>er w'. vm_mgr_create a cfg cmd bo tap vfio w = (Inl er, w')" for bo tap vfio and w :: "'a host"
    using assms by (simp add: vm_mgr_create_def Let_def)
  then have b: "\<exists>er w'. boot_vm a cfg cmd im rootfs ls w = (Inl er, w')" for im rootfs ls and w :: "'a host"
    by (auto simp: boot_vm_def Let_def split: prod.splits sum.splits)
  then have p: "\<exists>er w'. provision_vm t a cfg cmd im w = (Inl er, w')" for im and w :: "'a host"
    by (auto simp: provision_vm_def split: prod.splits sum.splits)
  have "\<exists>er w'. create_vm_inner t a cfg now cmd w = (Inl er, w')" for w :: "'a host"
    using p by (auto simp: create_vm_inner_def Let_def split: prod.splits option.splits sum.splits)
  then obtain er w1 where "create_vm_inner t a cfg now cmd (w\<lparr>ow_pending := insert (cc_vm_id cmd) (ow_pending w)\<rparr>) = (Inl er, w1)" by blast
  then show ?thesis by (simp add: agent_create_vm_def)
qed

lemma example_fresh: "fresh_vm lvs_ref example_agent_cfg example_create_cmd example_agent_host"
proof -
  have vols: "lvs_ref (dw_hw (ow_disks example_agent_host)) v \<subseteq> {''basis-data-v-0'', ''basis-data-w-0'', VM_LV_PREFIX @ ''v'', VM_LV_PREFIX @ ''w''}" for v
    by (auto simp: lvs_ref_def example_agent_host_def example_names VM_LV_PREFIX_def trim_def trim_start_def is_whitespace_def)
  have "lv_name ''x'' i \<notin> {''basis-data-v-0'', ''basis-data-w-0'', VM_LV_PREFIX @ ''v'', VM_LV_PREFIX @ ''w''}" for i
    by (simp add: VM_LV_PREFIX_def lv_name_def DATA_LV_PREFIX_def)
  then have "lv_name ''x'' i \<notin> lvs_ref (dw_hw (ow_disks example_agent_host)) v" for i v using vols by blast
  moreover have "VM_LV_PREFIX @ ''x'' \<notin> {''basis-data-v-0'', ''basis-data-w-0'', VM_LV_PREFIX @ ''v'', VM_LV_PREFIX @ ''w''}"
    by (simp add: VM_LV_PREFIX_def)
  then have "VM_LV_PREFIX @ ''x'' \<notin> lvs_ref (dw_hw (ow_disks example_agent_host)) v" for v using vols by blast
  ultimately show ?thesis
    by (simp add: fresh_vm_def example_create_cmd_def example_agent_host_def example_local_row_def example_agent_cfg_def example_row_def
        unit_name_for_vm_def vm_dir_def)
qed


end
