(* ===== verification/Spec2Isabelle.thy ===== *)
theory Spec2Isabelle
  imports Server_Views Agent_Gpu Agent_Rollback
begin

text \<open>Verification library of the basis hypervisor substrate.\<close>

end
